(* ===== verification/Prelude.thy ===== *)
theory Prelude
  imports Main "HOL-Library.Word" "HOL-Library.Sublist" "HOL-Library.Char_ord"
    "HOL-Library.List_Lexorder" "HOL-Library.Code_Target_Numeral"
begin

unbundle bit_operations_syntax

text \<open>
  The shared vocabulary of the development: machine integers, bytes, results, formatted
  messages and the generic lemmas the component theories rely on.

  A Rust byte (\<open>u8\<close> inside a buffer or a string) is HOL's \<^typ>\<open>char\<close>, the type of 8-bit
  characters, so \<open>Vec<u8>\<close>, \<open>&[u8]\<close>, \<open>String\<close> and \<open>&str\<close> are all lists of \<^typ>\<open>char\<close>:
  a Rust string is its UTF-8 byte sequence, and \<open>as_bytes\<close> is the identity. Where the code
  computes with bytes they are read with \<^const>\<open>of_char\<close> into a word of the width the code
  uses, and \<open>as u8\<close> is \<^const>\<open>char_of\<close>, which keeps the low eight bits.

  \<open>Result<T, E>\<close> is the sum \<open>'e + 't\<close> with \<^const>\<open>Inl\<close> for the error. The text of an error is
  the list of the pieces handed to \<open>format!\<close>: literal text, a \<open>{}\<close> argument or a \<open>{:?}\<close>
  argument. The pieces are not rendered, so the escaping rules of \<open>Debug\<close> play no part.
\<close>

named_theorems result_simps \<open>when a computation with an error result succeeds\<close>
named_theorems str_simps \<open>facts on the string operations of the standard library\<close>

type_synonym byte = char
type_synonym bytes = "char list"
type_synonym u16 = "16 word"
type_synonym u32 = "32 word"
type_synonym u64 = "64 word"
type_synonym u128 = "128 word"

subsection \<open>Messages\<close>

datatype piece = Lit string | Disp string | Debug string

type_synonym message = "piece list"

text \<open>The UTF-8 bytes of the two characters outside ASCII that the messages contain.\<close>

definition section_sign :: string where
  "section_sign = [CHR 0xC2, CHR 0xA7]"

definition em_dash :: string where
  "em_dash = [CHR 0xE2, CHR 0x80, CHR 0x94]"

subsection \<open>Results\<close>

text \<open>The \<open>?\<close> operator.\<close>

fun and_then :: "'e + 'a \<Rightarrow> ('a \<Rightarrow> 'e + 'b) \<Rightarrow> 'e + 'b" where
  "and_then (Inl e) f = Inl e"
| "and_then (Inr x) f = f x"

fun map_err :: "('e \<Rightarrow> 'f) \<Rightarrow> 'e + 'a \<Rightarrow> 'f + 'a" where
  "map_err g (Inl e) = Inl (g e)"
| "map_err g (Inr x) = Inr x"

definition ok_or :: "'e \<Rightarrow> 'a option \<Rightarrow> 'e + 'a" where
  "ok_or e v = (case v of None \<Rightarrow> Inl e | Some x \<Rightarrow> Inr x)"

text \<open>\<open>Option<Result<T, E>>::transpose\<close> after a \<open>map\<close>.\<close>

fun map_transpose :: "('a \<Rightarrow> 'e + 'b) \<Rightarrow> 'a option \<Rightarrow> 'e + 'b option" where
  "map_transpose f None = Inr None"
| "map_transpose f (Some x) = and_then (f x) (\<lambda>y. Inr (Some y))"

text \<open>\<open>iter().map(f).collect::<Result<Vec<_>, _>>()\<close>: stops at the first error.\<close>

fun try_collect :: "('a \<Rightarrow> 'e + 'b) \<Rightarrow> 'a list \<Rightarrow> 'e + 'b list" where
  "try_collect f [] = Inr []"
| "try_collect f (x # xs) = and_then (f x) (\<lambda>y. and_then (try_collect f xs) (\<lambda>ys. Inr (y # ys)))"

lemma and_then_Inr [result_simps]: "and_then r f = Inr y \<longleftrightarrow> (\<exists>x. r = Inr x \<and> f x = Inr y)"
  by (cases r) auto

lemma map_err_Inr [result_simps]: "map_err g r = Inr y \<longleftrightarrow> r = Inr y"
  by (cases r) auto

lemma ok_or_Inr [result_simps]: "ok_or e v = Inr y \<longleftrightarrow> v = Some y"
  by (auto simp: ok_or_def split: option.splits)

lemma map_transpose_Inr [result_simps]:
  "map_transpose f v = Inr w \<longleftrightarrow>
     (case v of None \<Rightarrow> w = None | Some x \<Rightarrow> (\<exists>y. f x = Inr y \<and> w = Some y))"
  by (cases v) (auto simp: and_then_Inr)

lemma try_collect_Inr [result_simps]:
  "try_collect f xs = Inr ys \<longleftrightarrow> list_all2 (\<lambda>x y. f x = Inr y) xs ys"
proof (induction xs arbitrary: ys)
  case Nil
  then show ?case by auto
next
  case (Cons x xs)
  then show ?case by (cases ys) (auto simp: and_then_Inr)
qed

lemma list_all2_In1: "list_all2 P xs ys \<Longrightarrow> x \<in> set xs \<Longrightarrow> \<exists>y \<in> set ys. P x y"
  by (induction rule: list_all2_induct) auto

lemma list_all2_In2: "list_all2 P xs ys \<Longrightarrow> y \<in> set ys \<Longrightarrow> \<exists>x \<in> set xs. P x y"
  by (induction rule: list_all2_induct) auto

subsection \<open>Bytes and words\<close>

text \<open>\<open>u32::from(b)\<close> and \<open>w as u8\<close>, at any width.\<close>

definition word_of :: "byte \<Rightarrow> 'a::len word" where
  "word_of b = of_nat (of_char b)"

definition byte_of :: "'a::len word \<Rightarrow> byte" where
  "byte_of w = char_of (unat w)"

lemma byte_of_word_of [simp]:
  assumes "8 \<le> LENGTH('a::len)"
  shows "byte_of (word_of b :: 'a word) = b"
proof -
  have "of_char b < (2 :: nat) ^ 8" by simp
  also have "\<dots> \<le> 2 ^ LENGTH('a)" using assms by (rule power_increasing) simp
  finally have "unat (word_of b :: 'a word) = of_char b"
    by (simp add: word_of_def unat_of_nat take_bit_nat_eq_self)
  then show ?thesis by (simp add: byte_of_def)
qed

lemma word_of_byte_of: "word_of (byte_of w) = take_bit 8 (w :: 'a::len word)"
proof -
  have "of_char (byte_of w) = (take_bit 8 (unat w) :: nat)"
    by (simp add: byte_of_def take_bit_eq_mod)
  then show ?thesis by (simp add: word_of_def unsigned_take_bit_eq [symmetric])
qed

lemma byte_of_cong: "take_bit 8 v = take_bit 8 w \<Longrightarrow> byte_of v = byte_of (w :: 'a::len word)"
proof -
  assume "take_bit 8 v = take_bit 8 w"
  then have "take_bit 8 (unat v) = take_bit 8 (unat w)" by (metis unsigned_take_bit_eq)
  then show ?thesis unfolding byte_of_def
    by (metis char_of_take_bit_eq order_refl)
qed

lemma bit_word_of [bit_simps]:
  "bit (word_of b :: 'a::len word) n \<longleftrightarrow> n < LENGTH('a) \<and> bit (of_char b :: nat) n"
  by (auto simp: word_of_def bit_simps)

lemma bit_byte_high: "8 \<le> n \<Longrightarrow> \<not> bit (of_char b :: nat) n"
proof -
  assume "8 \<le> n"
  have "take_bit 8 (of_char b :: nat) = of_char b" by (simp add: take_bit_nat_eq_self)
  then show ?thesis using \<open>8 \<le> n\<close> by (metis bit_take_bit_iff not_le)
qed

lemma bit_byte_lt: "bit (of_char b :: nat) n \<Longrightarrow> n < 8"
  using bit_byte_high not_le by blast

subsection \<open>Chunks\<close>

text \<open>\<open>slice::chunks(k)\<close> for a positive \<open>k\<close>.\<close>

fun chunks :: "nat \<Rightarrow> 'a list \<Rightarrow> 'a list list" where
  "chunks k xs = (if xs = [] \<or> k = 0 then [] else take k xs # chunks k (drop k xs))"

declare chunks.simps [simp del]

lemma chunks_Nil [simp]: "chunks k [] = []"
  by (simp add: chunks.simps)

lemma concat_chunks: "0 < k \<Longrightarrow> concat (chunks k xs) = xs"
  by (induction k xs rule: chunks.induct) (subst chunks.simps, auto)

lemma chunks_part: "0 < k \<Longrightarrow> c \<in> set (chunks k xs) \<Longrightarrow> 0 < length c \<and> length c \<le> k"
proof (induction k xs rule: chunks.induct)
  case (1 k xs)
  then show ?case by (subst (asm) chunks.simps) (auto split: if_splits)
qed

lemma chunks_concat:
  "0 < k \<Longrightarrow> \<forall>c \<in> set cs. length c = k \<Longrightarrow> chunks k (concat cs) = cs"
proof (induction cs)
  case (Cons c cs)
  then show ?case by (subst chunks.simps) auto
qed simp

subsection \<open>Encodings\<close>

text \<open>
  The contract of an encoder and its decoder; the byte codecs and the wire formats of the
  program provide it.
\<close>

locale codec =
  fixes enc :: "'a \<Rightarrow> 'b" and dec :: "'b \<Rightarrow> 'a option"
  assumes dec_enc: "dec (enc x) = Some x"
begin

lemma enc_inj: "enc x = enc y \<longleftrightarrow> x = y"
  by (metis dec_enc option.inject)

lemma dec_onto: "\<exists>y. dec y = Some x"
  using dec_enc by blast

lemma reencode: "map_option enc (dec (enc x)) = Some (enc x)"
  by (simp add: dec_enc)

end

end
