(* ===== verification/Rust_Str.thy ===== *)
theory Rust_Str
  imports Prelude
begin

text \<open>
  The operations of Rust's standard library on byte strings that the program uses: ASCII
  case mapping, splitting and joining, stripping, substring search, trimming, and the
  parsing and printing of numbers. They work on bytes; on valid UTF-8 this is what the
  standard library does, since every separator the program uses is ASCII.
\<close>

subsection \<open>ASCII classes and case\<close>

abbreviation code :: "char \<Rightarrow> nat" where
  "code c \<equiv> of_char c"

definition is_upper :: "char \<Rightarrow> bool" where
  "is_upper c \<longleftrightarrow> 65 \<le> code c \<and> code c \<le> 90"

definition is_lower :: "char \<Rightarrow> bool" where
  "is_lower c \<longleftrightarrow> 97 \<le> code c \<and> code c \<le> 122"

definition is_digit :: "char \<Rightarrow> bool" where
  "is_digit c \<longleftrightarrow> 48 \<le> code c \<and> code c \<le> 57"

definition is_alnum :: "char \<Rightarrow> bool" where
  "is_alnum c \<longleftrightarrow> is_upper c \<or> is_lower c \<or> is_digit c"

definition lower_char :: "char \<Rightarrow> char" where
  "lower_char c = (if is_upper c then char_of (code c + 32) else c)"

definition upper_char :: "char \<Rightarrow> char" where
  "upper_char c = (if is_lower c then char_of (code c - 32) else c)"

abbreviation to_lower :: "string \<Rightarrow> string" where
  "to_lower \<equiv> map lower_char"

abbreviation to_upper :: "string \<Rightarrow> string" where
  "to_upper \<equiv> map upper_char"

definition eq_ignore_case :: "string \<Rightarrow> string \<Rightarrow> bool" where
  "eq_ignore_case a b \<longleftrightarrow> to_lower a = to_lower b"

lemma code_char_of [simp]: "n < 256 \<Longrightarrow> code (char_of n) = n"
  by (simp add: of_char_of)

lemma code_less [simp]: "code c < 256"
  by (rule nat_of_char_less_256)

lemma code_le [simp]: "code c \<le> 255"
  using code_less [of c] by linarith

lemma lower_char_idem [simp]: "lower_char (lower_char c) = lower_char c"
  by (auto simp: lower_char_def is_upper_def)

lemma lower_comp [simp]: "lower_char \<circ> lower_char = lower_char"
  by (simp add: fun_eq_iff)

lemma lower_idem [simp]: "to_lower (to_lower s) = to_lower s"
  by simp

lemma not_upper_lower [simp]: "\<not> is_upper (lower_char c)"
  by (auto simp: lower_char_def is_upper_def)

lemma lower_char_fix: "\<not> is_upper c \<Longrightarrow> lower_char c = c"
  by (simp add: lower_char_def)

lemma lower_char_eq_iff:
  assumes "\<not> is_upper d" and "\<not> is_lower d"
  shows "lower_char c = d \<longleftrightarrow> c = d"
  using assms by (auto simp: lower_char_def is_upper_def is_lower_def)

text \<open>Punctuation is its own lower case and no letter maps to it.\<close>

lemma lower_char_dot [simp]: "lower_char c = CHR ''.'' \<longleftrightarrow> c = CHR ''.''"
  by (rule lower_char_eq_iff) (simp_all add: is_upper_def is_lower_def)

lemma lower_char_star [simp]: "lower_char c = CHR ''*'' \<longleftrightarrow> c = CHR ''*''"
  by (rule lower_char_eq_iff) (simp_all add: is_upper_def is_lower_def)

lemma dot_lower [simp]: "lower_char CHR ''.'' = CHR ''.''"
  by simp

lemma star_lower [simp]: "lower_char CHR ''*'' = CHR ''*''"
  by simp

subsection \<open>Prefixes, suffixes and search\<close>

definition strip_prefix :: "string \<Rightarrow> string \<Rightarrow> string option" where
  "strip_prefix p s = (if prefix p s then Some (drop (length p) s) else None)"

definition strip_suffix :: "string \<Rightarrow> string \<Rightarrow> string option" where
  "strip_suffix p s = (if suffix p s then Some (take (length s - length p) s) else None)"

definition unwrap_or :: "'a option \<Rightarrow> 'a \<Rightarrow> 'a" where
  "unwrap_or v d = (case v of None \<Rightarrow> d | Some x \<Rightarrow> x)"

text \<open>\<open>str::find\<close>: the index of the first occurrence.\<close>

fun find_sub :: "string \<Rightarrow> string \<Rightarrow> nat option" where
  "find_sub p [] = (if p = [] then Some 0 else None)"
| "find_sub p (x # xs) = (if prefix p (x # xs) then Some 0 else map_option Suc (find_sub p xs))"

lemma strip_prefix_Some [str_simps]: "strip_prefix p s = Some r \<longleftrightarrow> s = p @ r"
  by (auto simp: strip_prefix_def prefix_def)

lemma strip_prefix_None [str_simps]: "strip_prefix p s = None \<longleftrightarrow> \<not> prefix p s"
  by (simp add: strip_prefix_def)

lemma strip_suffix_Some [str_simps]: "strip_suffix p s = Some r \<longleftrightarrow> s = r @ p"
  by (auto simp: strip_suffix_def suffix_def)

lemma strip_suffix_None [str_simps]: "strip_suffix p s = None \<longleftrightarrow> \<not> suffix p s"
  by (simp add: strip_suffix_def)

lemma unwrap_or_simps [simp]: "unwrap_or None d = d" "unwrap_or (Some x) d = x"
  by (simp_all add: unwrap_or_def)

lemma find_sub_Some:
  "find_sub p s = Some i \<Longrightarrow> i + length p \<le> length s \<and> s = take i s @ p @ drop (i + length p) s"
proof (induction p s arbitrary: i rule: find_sub.induct)
  case (1 p)
  then show ?case by (auto split: if_splits)
next
  case (2 p x xs)
  show ?case
  proof (cases "prefix p (x # xs)")
    case True
    with "2.prems" have "i = 0" by simp
    moreover from True have "length p \<le> length (x # xs)" by (rule prefix_length_le)
    ultimately show ?thesis using True by (auto simp: prefix_def)
  next
    case False
    with "2.prems" obtain j where j: "find_sub p xs = Some j" "i = Suc j" by auto
    from "2.IH" [OF False j(1)] j(2) show ?thesis by auto
  qed
qed

lemma find_sub_least: "find_sub p s = Some i \<Longrightarrow> s = u @ p @ v \<Longrightarrow> i \<le> length u"
proof (induction p s arbitrary: i u rule: find_sub.induct)
  case (1 p)
  then show ?case by (auto split: if_splits)
next
  case (2 p x xs)
  show ?case
  proof (cases "prefix p (x # xs)")
    case True
    with "2.prems"(1) show ?thesis by simp
  next
    case False
    with "2.prems"(1) obtain j where j: "find_sub p xs = Some j" "i = Suc j" by auto
    from False "2.prems"(2) obtain u' where u: "u = x # u'" "xs = u' @ p @ v"
      by (cases u) (auto simp: prefix_def)
    from "2.IH" [OF False j(1) u(2)] u(1) j(2) show ?thesis by simp
  qed
qed

lemma find_sub_None: "find_sub p s = None \<longleftrightarrow> (\<nexists>u v. s = u @ p @ v)"
proof (induction p s rule: find_sub.induct)
  case (1 p)
  then show ?case by auto
next
  case (2 p x xs)
  have "(\<exists>u v. x # xs = u @ p @ v) \<longleftrightarrow> prefix p (x # xs) \<or> (\<exists>u v. xs = u @ p @ v)"
    by (auto simp: prefix_def Cons_eq_append_conv)
  with "2.IH" show ?case by auto
qed

subsection \<open>Splitting and joining\<close>

text \<open>\<open>str::split(c)\<close>: always at least one part.\<close>

fun split_on :: "char \<Rightarrow> string \<Rightarrow> string list" where
  "split_on c [] = [[]]"
| "split_on c (x # xs) =
     (if x = c then [] # split_on c xs
      else (case split_on c xs of [] \<Rightarrow> [[x]] | y # ys \<Rightarrow> (x # y) # ys))"

fun join_with :: "'a list \<Rightarrow> 'a list list \<Rightarrow> 'a list" where
  "join_with s [] = []"
| "join_with s [x] = x"
| "join_with s (x # y # ys) = x @ s @ join_with s (y # ys)"

fun split_once :: "char \<Rightarrow> string \<Rightarrow> (string \<times> string) option" where
  "split_once c [] = None"
| "split_once c (x # xs) =
     (if x = c then Some ([], xs)
      else map_option (\<lambda>(a, b). (x # a, b)) (split_once c xs))"

definition rsplit_once :: "char \<Rightarrow> string \<Rightarrow> (string \<times> string) option" where
  "rsplit_once c s = map_option (\<lambda>(a, b). (rev b, rev a)) (split_once c (rev s))"

lemma split_on_not_Nil [simp]: "split_on c s \<noteq> []"
  by (induction s) (auto split: list.splits)

lemma join_split_on: "join_with [c] (split_on c s) = s"
proof (induction s)
  case Nil
  then show ?case by simp
next
  case (Cons x xs)
  obtain y ys where y: "split_on c xs = y # ys"
    using split_on_not_Nil [of c xs] by (meson neq_Nil_conv)
  with Cons show ?case by (cases ys) auto
qed

lemma split_on_part: "p \<in> set (split_on c s) \<Longrightarrow> c \<notin> set p"
proof (induction s arbitrary: p)
  case Nil
  then show ?case by simp
next
  case (Cons x xs)
  obtain y ys where y: "split_on c xs = y # ys"
    using split_on_not_Nil [of c xs] by (meson neq_Nil_conv)
  with Cons show ?case by (auto split: if_splits)
qed

lemma split_on_fresh: "c \<notin> set s \<Longrightarrow> split_on c s = [s]"
  by (induction s) auto

lemma split_on_append:
  "c \<notin> set a \<Longrightarrow> split_on c (a @ c # b) = a # split_on c b"
  by (induction a) auto

lemma split_on_singleton: "split_on c s = [p] \<longleftrightarrow> c \<notin> set s \<and> p = s"
proof
  assume eq: "split_on c s = [p]"
  then have "p = s" using join_split_on [of c s] by simp
  with eq show "c \<notin> set s \<and> p = s" using split_on_part [of p c s] by simp
qed (simp add: split_on_fresh)

lemma split_once_Some [str_simps]:
  "split_once c s = Some (a, b) \<longleftrightarrow> s = a @ c # b \<and> c \<notin> set a"
proof (induction s arbitrary: a)
  case Nil
  then show ?case by simp
next
  case (Cons x xs)
  then show ?case by (cases a) auto
qed

lemma split_once_None [str_simps]: "split_once c s = None \<longleftrightarrow> c \<notin> set s"
  by (induction s) auto

lemma rsplit_once_Some [str_simps]:
  "rsplit_once c s = Some (a, b) \<longleftrightarrow> s = a @ c # b \<and> c \<notin> set b"
proof -
  have "rsplit_once c s = Some (a, b) \<longleftrightarrow> split_once c (rev s) = Some (rev b, rev a)"
    by (auto simp: rsplit_once_def)
  also have "\<dots> \<longleftrightarrow> rev s = rev b @ c # rev a \<and> c \<notin> set b"
    by (simp add: split_once_Some)
  also have "rev s = rev b @ c # rev a \<longleftrightarrow> s = a @ c # b"
    using rev_is_rev_conv [of s "a @ c # b"] by simp
  finally show ?thesis .
qed

subsection \<open>White space\<close>

text \<open>
  The UTF-8 encodings of the characters with the Unicode property White\_Space, which is
  what \<open>char::is_whitespace\<close>, \<open>str::trim\<close> and \<open>str::split_whitespace\<close> go by.
\<close>

definition ws_seqs :: "string list" where
  "ws_seqs =
     [[CHR 0x09], [CHR 0x0A], [CHR 0x0B], [CHR 0x0C], [CHR 0x0D], [CHR 0x20],
      [CHR 0xC2, CHR 0x85], [CHR 0xC2, CHR 0xA0], [CHR 0xE1, CHR 0x9A, CHR 0x80],
      [CHR 0xE2, CHR 0x80, CHR 0x80], [CHR 0xE2, CHR 0x80, CHR 0x81],
      [CHR 0xE2, CHR 0x80, CHR 0x82], [CHR 0xE2, CHR 0x80, CHR 0x83],
      [CHR 0xE2, CHR 0x80, CHR 0x84], [CHR 0xE2, CHR 0x80, CHR 0x85],
      [CHR 0xE2, CHR 0x80, CHR 0x86], [CHR 0xE2, CHR 0x80, CHR 0x87],
      [CHR 0xE2, CHR 0x80, CHR 0x88], [CHR 0xE2, CHR 0x80, CHR 0x89],
      [CHR 0xE2, CHR 0x80, CHR 0x8A], [CHR 0xE2, CHR 0x80, CHR 0xA8],
      [CHR 0xE2, CHR 0x80, CHR 0xA9], [CHR 0xE2, CHR 0x80, CHR 0xAF],
      [CHR 0xE2, CHR 0x81, CHR 0x9F], [CHR 0xE3, CHR 0x80, CHR 0x80]]"

text \<open>The number of bytes of the white space character the string starts with, 0 for none.\<close>

definition ws_len :: "string list \<Rightarrow> string \<Rightarrow> nat" where
  "ws_len seqs s = (case find (\<lambda>w. prefix w s) seqs of None \<Rightarrow> 0 | Some w \<Rightarrow> length w)"

function trim_seqs :: "string list \<Rightarrow> string \<Rightarrow> string" where
  "trim_seqs seqs s = (if ws_len seqs s = 0 \<or> s = [] then s else trim_seqs seqs (drop (ws_len seqs s) s))"
  by pat_completeness auto
termination
  by (relation "measure (length \<circ> snd)") auto

declare trim_seqs.simps [simp del]

definition trim_start :: "string \<Rightarrow> string" where
  "trim_start = trim_seqs ws_seqs"

definition trim_end :: "string \<Rightarrow> string" where
  "trim_end s = rev (trim_seqs (map rev ws_seqs) (rev s))"

definition trim :: "string \<Rightarrow> string" where
  "trim s = trim_end (trim_start s)"

lemma find_None_all: "find P xs = None \<longleftrightarrow> (\<forall>x \<in> set xs. \<not> P x)"
  by (induction xs) auto

lemma ws_len_zero:
  assumes "\<And>w. w \<in> set seqs \<Longrightarrow> \<not> prefix w s"
  shows "ws_len seqs s = 0"
proof -
  have "find (\<lambda>w. prefix w s) seqs = None" using assms by (auto simp: find_None_all)
  then show ?thesis by (simp add: ws_len_def)
qed

text \<open>Printable ASCII: the bytes from 33 to 126.\<close>

definition printable :: "char \<Rightarrow> bool" where
  "printable c \<longleftrightarrow> 33 \<le> code c \<and> code c \<le> 126"

lemma ws_seqs_unprintable:
  "w \<in> set ws_seqs \<Longrightarrow> w \<noteq> [] \<and> (\<forall>c \<in> set w. \<not> printable c)"
  by (auto simp: ws_seqs_def printable_def)

lemma no_ws_prefix:
  assumes "w \<in> set ws_seqs \<or> w \<in> set (map rev ws_seqs)" and "\<forall>c \<in> set s. printable c"
  shows "\<not> prefix w s"
proof
  assume p: "prefix w s"
  from assms(1) have w: "w \<noteq> [] \<and> (\<forall>c \<in> set w. \<not> printable c)"
    using ws_seqs_unprintable by auto
  then obtain c where c: "c \<in> set w" by (cases w) auto
  with p have "c \<in> set s" using set_mono_prefix by blast
  with w c assms(2) show False by blast
qed

lemma trim_seqs_printable:
  assumes "set seqs \<subseteq> set ws_seqs \<union> set (map rev ws_seqs)" and "\<forall>c \<in> set s. printable c"
  shows "trim_seqs seqs s = s"
proof -
  have "ws_len seqs s = 0" using assms no_ws_prefix by (intro ws_len_zero) blast
  then show ?thesis by (subst trim_seqs.simps) simp
qed

lemma trim_printable:
  assumes "\<forall>c \<in> set s. printable c"
  shows "trim s = s"
proof -
  have "trim_start s = s" unfolding trim_start_def
    using assms by (intro trim_seqs_printable) auto
  moreover have "trim_seqs (map rev ws_seqs) (rev s) = rev s"
    using assms by (intro trim_seqs_printable) auto
  ultimately show ?thesis by (simp add: trim_def trim_end_def)
qed

subsection \<open>Numbers\<close>

text \<open>\<open>char::to_digit\<close>.\<close>

definition to_digit :: "nat \<Rightarrow> char \<Rightarrow> nat option" where
  "to_digit r c =
     (let v = (if is_digit c then Some (code c - 48)
               else if is_lower c then Some (code c - 87)
               else if is_upper c then Some (code c - 55) else None)
      in case v of None \<Rightarrow> None | Some d \<Rightarrow> if d < r then Some d else None)"

text \<open>\<open>char::from_digit\<close>.\<close>

definition digit_char :: "nat \<Rightarrow> char" where
  "digit_char d = (if d < 10 then char_of (48 + d) else char_of (87 + d))"

fun read_digits :: "nat \<Rightarrow> nat \<Rightarrow> string \<Rightarrow> nat option" where
  "read_digits r acc [] = Some acc"
| "read_digits r acc (c # cs) =
     (case to_digit r c of None \<Rightarrow> None | Some d \<Rightarrow> read_digits r (acc * r + d) cs)"

text \<open>
  \<open>uN::from_str_radix\<close>, with \<open>mx\<close> the largest value of the type: an optional \<open>+\<close>, then at
  least one digit; a value above \<open>mx\<close> is an error. \<open>str::parse\<close> is radix 10.
\<close>

definition from_str_radix :: "nat \<Rightarrow> nat \<Rightarrow> string \<Rightarrow> nat option" where
  "from_str_radix mx r s =
     (case s of [] \<Rightarrow> None
      | c # cs \<Rightarrow>
          if cs = [] \<and> (c = CHR ''+'' \<or> c = CHR ''-'') then None
          else (case read_digits r 0 (if c = CHR ''+'' then cs else s) of
                  None \<Rightarrow> None
                | Some n \<Rightarrow> if n \<le> mx then Some n else None))"

definition parse_u8 :: "string \<Rightarrow> nat option" where
  "parse_u8 = from_str_radix 255 10"

definition parse_u16 :: "string \<Rightarrow> nat option" where
  "parse_u16 = from_str_radix 65535 10"

definition parse_u64 :: "string \<Rightarrow> nat option" where
  "parse_u64 = from_str_radix (2 ^ 64 - 1) 10"

text \<open>Printing a number in a radix, lower-case digits, no leading zero.\<close>

fun show_radix :: "nat \<Rightarrow> nat \<Rightarrow> string" where
  "show_radix r n =
     (if n < r \<or> r < 2 then [digit_char n]
      else show_radix r (n div r) @ [digit_char (n mod r)])"

declare show_radix.simps [simp del]

abbreviation show_dec :: "nat \<Rightarrow> string" where
  "show_dec \<equiv> show_radix 10"

lemma to_digit_char: "d < r \<Longrightarrow> r \<le> 36 \<Longrightarrow> to_digit r (digit_char d) = Some d"
  by (auto simp: to_digit_def digit_char_def is_digit_def is_lower_def Let_def)

lemma read_digits_append:
  "read_digits r acc (s @ t) =
     (case read_digits r acc s of None \<Rightarrow> None | Some n \<Rightarrow> read_digits r n t)"
  by (induction s arbitrary: acc) (auto split: option.splits)

lemma read_show_digits:
  "2 \<le> r \<Longrightarrow> r \<le> 36 \<Longrightarrow> read_digits r 0 (show_radix r n) = Some n"
proof (induction r n rule: show_radix.induct)
  case (1 r n)
  show ?case
  proof (cases "n < r")
    case True
    with "1.prems" show ?thesis by (subst show_radix.simps) (simp add: to_digit_char)
  next
    case False
    with "1" have "read_digits r 0 (show_radix r (n div r)) = Some (n div r)" by simp
    with False "1.prems" show ?thesis
      by (subst show_radix.simps) (simp add: read_digits_append to_digit_char)
  qed
qed

lemma show_radix_not_Nil [simp]: "show_radix r n \<noteq> []"
  by (subst show_radix.simps) simp

lemma show_radix_digits: "2 \<le> r \<Longrightarrow> c \<in> set (show_radix r n) \<Longrightarrow> \<exists>d < r. c = digit_char d"
proof (induction r n rule: show_radix.induct)
  case (1 r n)
  show ?case
  proof (cases "n < r")
    case True
    with "1.prems" show ?thesis by (subst (asm) show_radix.simps) auto
  next
    case False
    with "1.prems" have "c \<in> set (show_radix r (n div r)) \<or> c = digit_char (n mod r)"
      by (subst (asm) show_radix.simps) auto
    moreover from "1.prems" have "n mod r < r" by simp
    ultimately show ?thesis using "1.IH" "1.prems"(1) False by (metis not_le)
  qed
qed

lemma digit_char_sign: "d < 36 \<Longrightarrow> digit_char d \<noteq> CHR ''+'' \<and> digit_char d \<noteq> CHR ''-''"
proof -
  assume "d < 36"
  then have "48 \<le> code (digit_char d)" by (auto simp: digit_char_def)
  then show ?thesis by auto
qed

lemma from_str_show:
  assumes "2 \<le> r" and "r \<le> 36" and "n \<le> mx"
  shows "from_str_radix mx r (show_radix r n) = Some n"
proof -
  obtain c cs where s: "show_radix r n = c # cs"
    using show_radix_not_Nil [of r n] by (meson neq_Nil_conv)
  with show_radix_digits [OF assms(1), of c n] obtain d where "d < r" "c = digit_char d" by auto
  with assms(2) have "c \<noteq> CHR ''+'' \<and> c \<noteq> CHR ''-''" using digit_char_sign [of d] by simp
  with s read_show_digits [OF assms(1,2), of n] assms(3) show ?thesis
    by (simp add: from_str_radix_def)
qed

lemma show_radix_length: "2 \<le> r \<Longrightarrow> n < r ^ k \<Longrightarrow> 0 < k \<Longrightarrow> length (show_radix r n) \<le> k"
proof (induction r n arbitrary: k rule: show_radix.induct)
  case (1 r n)
  show ?case
  proof (cases "n < r")
    case True
    with "1.prems" show ?thesis by (subst show_radix.simps) simp
  next
    case False
    with "1.prems" obtain j where k: "k = Suc j" and j: "0 < j"
      by (cases k; cases "k - 1") auto
    from "1.prems" k have "n div r < r ^ j" by (simp add: less_mult_imp_div_less mult.commute)
    with "1.IH" [of j] False "1.prems" j have "length (show_radix r (n div r)) \<le> j" by simp
    with False "1.prems" k show ?thesis by (subst show_radix.simps) simp
  qed
qed

lemma show_radix_hd:
  "2 \<le> r \<Longrightarrow> r \<le> 36 \<Longrightarrow> 0 < n \<Longrightarrow> hd (show_radix r n) \<noteq> CHR ''0''"
proof (induction r n rule: show_radix.induct)
  case (1 r n)
  show ?case
  proof (cases "n < r")
    case True
    have "48 < code (digit_char n)" using True "1.prems" by (auto simp: digit_char_def)
    then have "digit_char n \<noteq> CHR ''0''" by auto
    with True show ?thesis by (subst show_radix.simps) simp
  next
    case False
    then have "0 < n div r" using "1.prems" by (simp add: div_greater_zero_iff)
    with "1.IH" False "1.prems" have "hd (show_radix r (n div r)) \<noteq> CHR ''0''" by simp
    with False "1.prems" show ?thesis by (subst show_radix.simps) simp
  qed
qed

end
