(* ===== verification/Ip_Addr.thy ===== *)
theory Ip_Addr
  imports Rust_Str
begin

text \<open>
  \<open>std::net::IpAddr\<close>: the address types, the standard library's parser (used for CIDR
  configuration and for recognising IP literals in host names) and its \<open>Display\<close>
  (used for SOCKS5 targets and audit records). An address is its big-endian integer,
  \<open>u32::from\<close> or \<open>u128::from\<close>.
\<close>

datatype ip_addr = V4 u32 | V6 u128

fun is_ipv4 :: "ip_addr \<Rightarrow> bool" where
  "is_ipv4 (V4 _) = True"
| "is_ipv4 (V6 _) = False"

text \<open>\<open>Ipv6Addr::to_ipv4_mapped\<close>: the address \<open>::ffff:a.b.c.d\<close>.\<close>

definition to_ipv4_mapped :: "u128 \<Rightarrow> u32 option" where
  "to_ipv4_mapped a = (if drop_bit 32 a = 0xFFFF then Some (ucast a) else None)"

fun to_canonical :: "ip_addr \<Rightarrow> ip_addr" where
  "to_canonical (V4 a) = V4 a"
| "to_canonical (V6 a) = (case to_ipv4_mapped a of Some v \<Rightarrow> V4 v | None \<Rightarrow> V6 a)"

text \<open>\<open>Ipv4Addr::to_ipv6_mapped\<close>, for stating what the mapped form of an address is.\<close>

definition mapped :: "u32 \<Rightarrow> u128" where
  "mapped a = 0xFFFF00000000 OR ucast a"

subsection \<open>Parsing\<close>

type_synonym 'a parser = "string \<Rightarrow> ('a \<times> string) option"

text \<open>
  \<open>read_number\<close> with a digit limit: reads every digit it sees, fails on too many, on none,
  on a forbidden leading zero and on a value the target type cannot hold.
\<close>

definition read_number :: "nat \<Rightarrow> nat \<Rightarrow> bool \<Rightarrow> nat \<Rightarrow> nat parser" where
  "read_number r max_digits allow_zero_prefix mx s =
     (let ds = takeWhile (\<lambda>c. to_digit r c \<noteq> None) s; n = length ds in
      if max_digits < n then None
      else if n = 0 then None
      else if \<not> allow_zero_prefix \<and> hd s = CHR ''0'' \<and> 1 < n then None
      else (case read_digits r 0 ds of
              None \<Rightarrow> None
            | Some v \<Rightarrow> if v \<le> mx then Some (v, drop n s) else None))"

fun read_given_char :: "char \<Rightarrow> unit parser" where
  "read_given_char c [] = None"
| "read_given_char c (x # xs) = (if x = c then Some ((), xs) else None)"

definition read_separator :: "char \<Rightarrow> nat \<Rightarrow> 'a parser \<Rightarrow> 'a parser" where
  "read_separator sep i p s =
     (if i = 0 then p s
      else (case read_given_char sep s of None \<Rightarrow> None | Some (_, s') \<Rightarrow> p s'))"

fun read_octets :: "nat \<Rightarrow> nat \<Rightarrow> nat list parser" where
  "read_octets i 0 s = Some ([], s)"
| "read_octets i (Suc k) s =
     (case read_separator CHR ''.'' i (read_number 10 3 False 255) s of
        None \<Rightarrow> None
      | Some (v, s') \<Rightarrow>
          (case read_octets (Suc i) k s' of
             None \<Rightarrow> None | Some (vs, s'') \<Rightarrow> Some (v # vs, s'')))"

text \<open>The big-endian value of a list of digits in a base.\<close>

definition be_value :: "nat \<Rightarrow> nat list \<Rightarrow> nat" where
  "be_value b ds = foldl (\<lambda>acc d. acc * b + d) 0 ds"

definition read_ipv4_addr :: "u32 parser" where
  "read_ipv4_addr s =
     map_option (\<lambda>(os, r). (of_nat (be_value 256 os), r)) (read_octets 0 4 s)"

text \<open>
  \<open>read_groups\<close> of \<open>read_ipv6_addr\<close>: the groups read, whether they end in an embedded
  IPv4 address, and the rest of the input.
\<close>

function read_groups :: "nat \<Rightarrow> nat \<Rightarrow> string \<Rightarrow> nat list \<times> bool \<times> string" where
  "read_groups limit i s =
     (if limit \<le> i then ([], False, s)
      else
        (case (if i < limit - 1 then read_separator CHR '':'' i read_ipv4_addr s else None) of
           Some (v4, s') \<Rightarrow> ([unat v4 div 65536, unat v4 mod 65536], True, s')
         | None \<Rightarrow>
             (case read_separator CHR '':'' i (read_number 16 4 True 65535) s of
                None \<Rightarrow> ([], False, s)
              | Some (g, s') \<Rightarrow>
                  (let (gs, v4, s'') = read_groups limit (Suc i) s' in (g # gs, v4, s'')))))"
  by pat_completeness auto
termination
  by (relation "measure (\<lambda>(limit, i, s). limit - i)") auto

declare read_groups.simps [simp del]

definition read_ipv6_addr :: "u128 parser" where
  "read_ipv6_addr s =
     (let (head, head_ipv4, s1) = read_groups 8 0 s in
      if length head = 8 then Some (of_nat (be_value 65536 head), s1)
      else if head_ipv4 then None
      else
        (case s1 of
           c1 # c2 # s2 \<Rightarrow>
             if c1 = CHR '':'' \<and> c2 = CHR '':'' then
               (let (tail, _, s3) = read_groups (8 - (length head + 1)) 0 s2 in
                Some (of_nat (be_value 65536
                        (head @ replicate (8 - length head - length tail) 0 @ tail)), s3))
             else None
         | _ \<Rightarrow> None))"

definition read_ip_addr :: "ip_addr parser" where
  "read_ip_addr s =
     (case read_ipv4_addr s of
        Some (a, r) \<Rightarrow> Some (V4 a, r)
      | None \<Rightarrow> map_option (\<lambda>(a, r). (V6 a, r)) (read_ipv6_addr s))"

text \<open>\<open>IpAddr::from_str\<close> and \<open>Ipv4Addr::from_str\<close>: the whole input has to be consumed.\<close>

definition parse_ip :: "string \<Rightarrow> ip_addr option" where
  "parse_ip s = (case read_ip_addr s of Some (ip, []) \<Rightarrow> Some ip | _ \<Rightarrow> None)"

definition parse_ipv4 :: "string \<Rightarrow> u32 option" where
  "parse_ipv4 s =
     (if 15 < length s then None
      else (case read_ipv4_addr s of Some (a, []) \<Rightarrow> Some a | _ \<Rightarrow> None))"

subsection \<open>Printing\<close>

definition octets :: "u32 \<Rightarrow> nat list" where
  "octets a = map (\<lambda>k. unat a div 256 ^ k mod 256) [3, 2, 1, 0]"

definition show_ipv4 :: "u32 \<Rightarrow> string" where
  "show_ipv4 a = join_with ''.'' (map show_dec (octets a))"

definition segments :: "u128 \<Rightarrow> nat list" where
  "segments a = map (\<lambda>k. unat a div 65536 ^ k mod 65536) [7, 6, 5, 4, 3, 2, 1, 0]"

text \<open>The first longest run of zero segments, as (start, length).\<close>

fun zero_span :: "nat \<Rightarrow> nat \<times> nat \<Rightarrow> nat \<times> nat \<Rightarrow> nat list \<Rightarrow> nat \<times> nat" where
  "zero_span i cur longest [] = longest"
| "zero_span i cur longest (x # xs) =
     (if x = 0 then
        (let cur' = (if snd cur = 0 then i else fst cur, Suc (snd cur)) in
         zero_span (Suc i) cur' (if snd longest < snd cur' then cur' else longest) xs)
      else zero_span (Suc i) (0, 0) longest xs)"

definition fmt_subslice :: "nat list \<Rightarrow> string" where
  "fmt_subslice ss = join_with '':'' (map (show_radix 16) ss)"

definition show_ipv6 :: "u128 \<Rightarrow> string" where
  "show_ipv6 a =
     (case to_ipv4_mapped a of
        Some v \<Rightarrow> ''::ffff:'' @ show_ipv4 v
      | None \<Rightarrow>
          (let ss = segments a; (st, len) = zero_span 0 (0, 0) (0, 0) ss in
           if 1 < len then fmt_subslice (take st ss) @ ''::'' @ fmt_subslice (drop (st + len) ss)
           else fmt_subslice ss))"

fun show_ip :: "ip_addr \<Rightarrow> string" where
  "show_ip (V4 a) = show_ipv4 a"
| "show_ip (V6 a) = show_ipv6 a"

subsection \<open>Reading back what is printed\<close>

lemma takeWhile_digits:
  assumes "\<forall>c \<in> set ds. to_digit r c \<noteq> None" and "rest = [] \<or> to_digit r (hd rest) = None"
  shows "takeWhile (\<lambda>c. to_digit r c \<noteq> None) (ds @ rest) = ds"
  using assms by (cases rest) (auto simp: takeWhile_append)

lemma show_radix_all_digits:
  "2 \<le> r \<Longrightarrow> r \<le> 36 \<Longrightarrow> \<forall>c \<in> set (show_radix r n). to_digit r c \<noteq> None"
  using show_radix_digits [of r _ n] by (fastforce simp: to_digit_char)

lemma read_number_show:
  assumes "2 \<le> r" and "r \<le> 36" and "n \<le> mx" and "length (show_radix r n) \<le> md"
    and "rest = [] \<or> to_digit r (hd rest) = None"
  shows "read_number r md az mx (show_radix r n @ rest) = Some (n, rest)"
proof -
  have tw: "takeWhile (\<lambda>c. to_digit r c \<noteq> None) (show_radix r n @ rest) = show_radix r n"
    using show_radix_all_digits assms by (intro takeWhile_digits) auto
  have lz: "\<not> (hd (show_radix r n @ rest) = CHR ''0'' \<and> 1 < length (show_radix r n))"
    using show_radix_hd [OF assms(1,2), of n] show_radix.simps [of r 0] assms(1)
    by (cases "n = 0") auto
  from tw lz assms read_show_digits [OF assms(1,2), of n] show ?thesis
    unfolding read_number_def Let_def by auto
qed

lemma be_value_octets: "of_nat (be_value 256 (octets a)) = a"
proof -
  define x where "x = unat a"
  have x: "x < 2 ^ 32" unfolding x_def using unsigned_less [of a, where ?'a = nat] by simp
  have step: "x div m = 256 * (x div (m * 256)) + x div m mod 256" for m
    by (simp add: div_mult2_eq)
  have v: "be_value 256 (octets a) =
      ((x div 16777216 mod 256 * 256 + x div 65536 mod 256) * 256 + x div 256 mod 256) * 256
      + x mod 256"
    unfolding be_value_def octets_def x_def [symmetric] by simp
  have gen: "((w * 256 + m2) * 256 + m1) * 256 + m0 = x"
    if "x = 256 * y + m0" "y = 256 * z + m1" "z = 256 * w + m2" for y z w m0 m1 m2
    using that by simp
  have "x div 16777216 mod 256 = x div 16777216" using x by simp
  moreover have "((x div 16777216 * 256 + x div 65536 mod 256) * 256 + x div 256 mod 256) * 256
      + x mod 256 = x"
    by (rule gen [where y = "x div 256" and z = "x div 65536"])
      (use step [of 256] step [of 65536] in simp_all)
  ultimately have "be_value 256 (octets a) = x" using v by presburger
  then show ?thesis by (simp add: x_def)
qed

lemma read_octet_show:
  assumes "v \<le> 255" and "rest = [] \<or> to_digit 10 (hd rest) = None"
  shows "read_number 10 3 False 255 (show_dec v @ rest) = Some (v, rest)"
proof (rule read_number_show)
  show "length (show_dec v) \<le> 3" using assms(1) by (intro show_radix_length) auto
qed (use assms in auto)

lemma read_ipv4_show:
  assumes "rest = [] \<or> to_digit 10 (hd rest) = None"
  shows "read_ipv4_addr (show_ipv4 a @ rest) = Some (a, rest)"
proof -
  obtain p q r s where o: "octets a = [p, q, r, s]" and
    le: "p \<le> 255" "q \<le> 255" "r \<le> 255" "s \<le> 255"
    unfolding octets_def by (simp add: less_Suc_eq_le [symmetric])
  have dot: "to_digit 10 CHR ''.'' = None" by code_simp
  have four: "(4 :: nat) = Suc (Suc (Suc (Suc 0)))" by simp
  have "read_octets 0 4 (show_ipv4 a @ rest) = Some (octets a, rest)"
    using le assms dot unfolding four
    by (simp add: show_ipv4_def o read_separator_def read_octet_show)
  then show ?thesis by (simp add: read_ipv4_addr_def be_value_octets)
qed

lemma parse_show_ipv4: "parse_ip (show_ipv4 a) = Some (V4 a)"
  using read_ipv4_show [of "[]" a] by (simp add: parse_ip_def read_ip_addr_def)

lemma mapped_to_ipv4 [simp]: "to_ipv4_mapped (mapped a) = Some a"
proof -
  have "drop_bit 32 (mapped a) = 0xFFFF OR drop_bit 32 (ucast a :: u128)"
    unfolding mapped_def by (simp add: drop_bit_or)
  also have "drop_bit 32 (ucast a :: u128) = 0"
    by (rule bit_eqI) (auto simp: bit_simps dest: bit_imp_le_length)
  finally have "drop_bit 32 (mapped a) = 0xFFFF" by simp
  moreover have "(0xFFFF00000000 :: u128) = push_bit 32 0xFFFF" by simp
  then have "ucast (mapped a) = a"
    unfolding mapped_def by (intro bit_eqI) (simp only: bit_simps, auto)
  ultimately show ?thesis by (simp add: to_ipv4_mapped_def)
qed

lemma to_ipv4_mapped_Some: "to_ipv4_mapped v = Some a \<longleftrightarrow> v = mapped a"
proof
  assume "to_ipv4_mapped v = Some a"
  then have d: "drop_bit 32 v = 0xFFFF" and a: "a = ucast v"
    by (auto simp: to_ipv4_mapped_def split: if_splits)
  have "v = push_bit 32 (drop_bit 32 v) OR take_bit 32 v"
    by (rule bit_eqI) (auto simp: bit_simps)
  also have "push_bit 32 (drop_bit 32 v) = 0xFFFF00000000" by (simp add: d)
  also have "take_bit 32 v = ucast a" unfolding a by (rule bit_eqI) (auto simp: bit_simps)
  finally show "v = mapped a" by (simp add: mapped_def)
qed simp

lemma to_canonical_mapped [simp]: "to_canonical (V6 (mapped a)) = V4 a"
  by simp

subsection \<open>Case\<close>

text \<open>A parser that does not tell upper from lower case and leaves the rest of the input.\<close>

definition caseless :: "'a parser \<Rightarrow> bool" where
  "caseless p \<longleftrightarrow> (\<forall>s. p (to_lower s) = map_option (apsnd to_lower) (p s))"

lemma caselessD: "caseless p \<Longrightarrow> p (to_lower s) = map_option (apsnd to_lower) (p s)"
  by (simp add: caseless_def)

lemma to_digit_lower [simp]: "to_digit r (lower_char c) = to_digit r c"
  by (auto simp: to_digit_def lower_char_def is_upper_def is_lower_def is_digit_def)

lemma read_digits_lower [simp]: "read_digits r acc (to_lower s) = read_digits r acc s"
  by (induction s arbitrary: acc) (simp_all split: option.split)

lemma lower_char_zero: "lower_char c = CHR ''0'' \<longleftrightarrow> c = CHR ''0''"
  by (rule lower_char_eq_iff) (simp_all add: is_upper_def is_lower_def)

lemma caseless_read_number: "caseless (read_number r k z m)"
  unfolding caseless_def
proof
  fix s
  show "read_number r k z m (to_lower s) = map_option (apsnd to_lower) (read_number r k z m s)"
  proof (cases s)
    case (Cons c cs)
    then have "hd (to_lower s) = CHR ''0'' \<longleftrightarrow> hd s = CHR ''0''" by (simp add: lower_char_zero)
    then show ?thesis
      by (auto simp: read_number_def Let_def takeWhile_map comp_def drop_map split: option.splits)
  qed (simp add: read_number_def)
qed

lemma caseless_separator:
  assumes "caseless p" "\<not> is_upper c" "\<not> is_lower c"
  shows "caseless (read_separator c i p)"
  unfolding caseless_def
proof
  fix s
  show "read_separator c i p (to_lower s) = map_option (apsnd to_lower) (read_separator c i p s)"
  proof (cases "i = 0")
    case False
    with assms show ?thesis by (cases s) (simp_all add: read_separator_def lower_char_eq_iff caselessD)
  qed (simp add: read_separator_def caselessD [OF assms(1)])
qed

lemma caseless_dot_colon: 
  "caseless p \<Longrightarrow> caseless (read_separator CHR ''.'' i p)"
  "caseless p \<Longrightarrow> caseless (read_separator CHR '':'' i p)"
  by (simp_all add: caseless_separator is_upper_def is_lower_def)

lemma caseless_octets: "caseless (read_octets i k)"
proof (induction k arbitrary: i)
  case (Suc k)
  show ?case unfolding caseless_def
    by (auto simp: caselessD [OF caseless_dot_colon(1) [OF caseless_read_number]] caselessD [OF Suc]
        split: option.splits)
qed (simp add: caseless_def)

lemma caseless_ipv4: "caseless read_ipv4_addr"
  by (auto simp: caseless_def read_ipv4_addr_def caselessD [OF caseless_octets] split: option.splits
     intro!: option.map_cong simp: option.map_comp comp_def)

lemma read_groups_lower:
  "read_groups limit i (to_lower s) = (case read_groups limit i s of (gs, v4, r) \<Rightarrow> (gs, v4, to_lower r))"
proof (induction limit i s rule: read_groups.induct)
  case (1 limit i s)
  note v4 = caselessD [OF caseless_dot_colon(2) [OF caseless_ipv4]]
  note num = caselessD [OF caseless_dot_colon(2) [OF caseless_read_number]]
  show ?case
    using 1 by (subst (1 2) read_groups.simps) (auto simp: v4 num Let_def split: option.splits prod.splits if_splits)
qed

lemma colon_lower: "lower_char c = CHR '':'' \<longleftrightarrow> c = CHR '':''"
  by (simp add: lower_char_eq_iff is_upper_def is_lower_def)

lemma caseless_ipv6: "caseless read_ipv6_addr"
  unfolding caseless_def
proof
  fix s
  obtain h b r where g: "read_groups 8 0 s = (h, b, r)" by (cases "read_groups 8 0 s")
  show "read_ipv6_addr (to_lower s) = map_option (apsnd to_lower) (read_ipv6_addr s)"
    by (cases r; cases "tl r")
      (auto simp: read_ipv6_addr_def read_groups_lower g Let_def colon_lower split: prod.splits)
qed

lemma parse_ip_lower: "parse_ip (to_lower s) = parse_ip s"
  by (auto simp: parse_ip_def read_ip_addr_def caselessD [OF caseless_ipv4] caselessD [OF caseless_ipv6]
      split: option.splits list.splits)

end
