(* ===== verification/Matcher.thy ===== *)
theory Matcher
  imports Ip_Addr
begin

text \<open>
  The shared matcher of \<open>crates/hematite-kernel/src/matcher.rs\<close>: domain globs, CIDR blocks,
  path globs, header-name entries, and the rules built from them. Each construct has the
  parser and the predicate of the code, the invariant the parser establishes, and a
  reference semantics the predicate is proved equal to: label suffixes for domain globs,
  equality of the leading address bits for CIDR blocks, and the declarative meaning of the
  star for path globs. The \<open>regex\<close> crate is a parameter: building a pattern gives the
  predicate \<open>is_match\<close> or the text of an error.
\<close>

section \<open>Definitions\<close>

datatype match_config_error = MatchConfigError message

definition canonical_token :: "string \<Rightarrow> string" where
  "canonical_token token = (case token of [] \<Rightarrow> [] | c # cs \<Rightarrow> upper_char c # to_lower cs)"

definition canonical_name :: "string \<Rightarrow> string" where
  "canonical_name name = join_with ''-'' (map canonical_token (split_on CHR ''-'' name))"

subsection \<open>Domain globs\<close>

record domain_glob =
  dg_suffix :: string
  dg_wildcard :: bool

definition star_error :: "string \<Rightarrow> match_config_error" where
  "star_error pattern =
    MatchConfigError [Lit ''`*` is only valid as the leading label: '', Debug pattern]"

definition DomainGlob_parse :: "string \<Rightarrow> match_config_error + domain_glob" where
  "DomainGlob_parse pattern =
    (let p = to_lower pattern
     in case strip_prefix ''*.'' p of
          Some rest \<Rightarrow>
            if rest = [] \<or> CHR ''*'' \<in> set rest then Inl (star_error pattern)
            else Inr \<lparr>dg_suffix = rest, dg_wildcard = True\<rparr>
        | None \<Rightarrow>
            if CHR ''*'' \<in> set p then Inl (star_error pattern)
            else if p = [] then Inl (MatchConfigError [Lit ''empty domain pattern''])
            else Inr \<lparr>dg_suffix = p, dg_wildcard = False\<rparr>)"

definition norm_host :: "string \<Rightarrow> string" where
  "norm_host host = (let h = to_lower host in unwrap_or (strip_suffix ''.'' h) h)"

definition DomainGlob_matches :: "domain_glob \<Rightarrow> string \<Rightarrow> bool" where
  "DomainGlob_matches g host =
    (let h = norm_host host
     in if h = dg_suffix g then True
        else dg_wildcard g \<and> suffix (dg_suffix g) h \<and>
             h ! (length h - length (dg_suffix g) - 1) = CHR ''.'')"

subsection \<open>CIDR blocks\<close>

text \<open>The prefix length is a \<open>u8\<close>; \<open>parse_u8\<close> bounds it by 255.\<close>

record cidr =
  cd_net :: ip_addr
  cd_prefix :: nat

definition Cidr_parse :: "string \<Rightarrow> match_config_error + cidr" where
  "Cidr_parse s =
    and_then (ok_or (MatchConfigError
        [Lit ''bare IP without prefix length: '', Debug s, Lit '' (write /32 or /128 explicitly)''])
      (split_once CHR ''/'' s)) (\<lambda>(addr, len).
    and_then (ok_or (MatchConfigError [Lit ''invalid CIDR address: '', Debug s]) (parse_ip addr)) (\<lambda>n.
    and_then (ok_or (MatchConfigError [Lit ''invalid CIDR prefix: '', Debug s]) (parse_u8 len)) (\<lambda>p.
    let max = (if is_ipv4 n then 32 else 128)
    in if max < p then Inl (MatchConfigError [Lit ''CIDR prefix out of range: '', Debug s])
       else Inr \<lparr>cd_net = n, cd_prefix = p\<rparr>)))"

definition Cidr_contains_literal :: "cidr \<Rightarrow> ip_addr \<Rightarrow> bool" where
  "Cidr_contains_literal c ip =
    (case (cd_net c, ip) of
       (V4 n, V4 a) \<Rightarrow>
         (let mask = if cd_prefix c = 0 then 0 else push_bit (32 - cd_prefix c) (- 1)
          in n AND mask = a AND mask)
     | (V6 n, V6 a) \<Rightarrow>
         (let mask = if cd_prefix c = 0 then 0 else push_bit (128 - cd_prefix c) (- 1)
          in n AND mask = a AND mask)
     | _ \<Rightarrow> False)"

definition Cidr_contains :: "cidr \<Rightarrow> ip_addr \<Rightarrow> bool" where
  "Cidr_contains c ip =
    (if Cidr_contains_literal c ip then True
     else let canonical = to_canonical ip
          in canonical \<noteq> ip \<and> Cidr_contains_literal c canonical)"

definition Cidr_matches_host :: "cidr \<Rightarrow> string \<Rightarrow> bool" where
  "Cidr_matches_host c host =
    (case parse_ip host of Some ip \<Rightarrow> Cidr_contains c ip | None \<Rightarrow> False)"

subsection \<open>Path globs\<close>

record path_glob =
  pg_pattern :: string

definition PathGlob_parse :: "string \<Rightarrow> match_config_error + path_glob" where
  "PathGlob_parse pattern = Inr \<lparr>pg_pattern = pattern\<rparr>"

text \<open>The loop over the middle parts: what is left of the path, unless one is not found.\<close>

fun find_mids :: "string list \<Rightarrow> string \<Rightarrow> string option" where
  "find_mids [] rest = Some rest"
| "find_mids (mid # mids) rest =
    (if mid = [] then find_mids mids rest
     else case find_sub mid rest of
            Some i \<Rightarrow> find_mids mids (drop (i + length mid) rest)
          | None \<Rightarrow> None)"

definition PathGlob_matches :: "path_glob \<Rightarrow> string \<Rightarrow> bool" where
  "PathGlob_matches g path =
    (let parts = split_on CHR ''*'' (pg_pattern g)
     in if length parts = 1 then pg_pattern g = path
        else case strip_prefix (hd parts) path of
               None \<Rightarrow> False
             | Some rest \<Rightarrow>
                 (case find_mids (butlast (tl parts)) rest of
                    None \<Rightarrow> False
                  | Some rest' \<Rightarrow> suffix (last parts) rest'))"

subsection \<open>Header-name entries\<close>

datatype header_name_entry = Literal string | Regex "string \<Rightarrow> bool"

type_synonym regex_builder = "string \<Rightarrow> string + (string \<Rightarrow> bool)"

definition HeaderNameEntry_parse ::
  "regex_builder \<Rightarrow> string \<Rightarrow> bool \<Rightarrow> match_config_error + header_name_entry" where
  "HeaderNameEntry_parse re_build entry allow_regex =
    (if 2 \<le> length entry \<and> hd entry = CHR ''/'' \<and> last entry = CHR ''/'' then
       if \<not> allow_regex then
         Inl (MatchConfigError [Lit ''regex entries are not allowed here: '', Debug entry])
       else
         (let inner = butlast (tl entry)
          in and_then
               (map_err (\<lambda>e. MatchConfigError [Lit ''invalid header regex '', Debug entry, Lit '': '', Disp e])
                 (re_build inner))
               (\<lambda>re. Inr (Regex re)))
     else if entry = [] then Inl (MatchConfigError [Lit ''empty header-name entry''])
     else Inr (Literal (to_lower entry)))"

definition HeaderNameEntry_matches :: "header_name_entry \<Rightarrow> string \<Rightarrow> bool" where
  "HeaderNameEntry_matches e header_name =
    (let lower = to_lower header_name
     in case e of Literal l \<Rightarrow> l = lower | Regex is_match \<Rightarrow> is_match lower)"

subsection \<open>Host clauses and rules\<close>

datatype host_clause = Glob domain_glob | Cidr cidr

definition HostClause_parse :: "string \<Rightarrow> match_config_error + host_clause" where
  "HostClause_parse s =
    (if CHR ''/'' \<in> set s then and_then (Cidr_parse s) (\<lambda>c. Inr (Cidr c))
     else and_then (DomainGlob_parse s) (\<lambda>g. Inr (Glob g)))"

definition HostClause_matches :: "host_clause \<Rightarrow> string \<Rightarrow> bool" where
  "HostClause_matches h host =
    (case h of Glob g \<Rightarrow> DomainGlob_matches g host | Cidr c \<Rightarrow> Cidr_matches_host c host)"

record rule =
  rl_host :: host_clause
  rl_methods :: "string list option"
  rl_paths :: "path_glob list option"

definition Rule_matches :: "rule \<Rightarrow> string \<Rightarrow> string \<Rightarrow> string \<Rightarrow> bool" where
  "Rule_matches r host method path =
    (if \<not> HostClause_matches (rl_host r) host then False
     else if (case rl_methods r of None \<Rightarrow> False | Some ms \<Rightarrow> \<not> list_ex (\<lambda>m. m = method) ms) then False
     else if (case rl_paths r of None \<Rightarrow> False | Some ps \<Rightarrow> \<not> list_ex (\<lambda>p. PathGlob_matches p path) ps)
          then False
     else True)"

definition any_rule_matches :: "rule list \<Rightarrow> string \<Rightarrow> string \<Rightarrow> string \<Rightarrow> bool" where
  "any_rule_matches rules host method path = list_ex (\<lambda>r. Rule_matches r host method path) rules"

subsection \<open>Reference semantics\<close>

text \<open>
  The labels of a host name, and the two ways a glob relates to them: a wildcard glob
  wants its labels at the end, an exact one wants them to be all there is.
\<close>

abbreviation labels :: "string \<Rightarrow> string list" where
  "labels \<equiv> split_on CHR ''.''"

definition glob_labels :: "domain_glob \<Rightarrow> string \<Rightarrow> bool" where
  "glob_labels g host \<longleftrightarrow>
    (if dg_wildcard g then suffix (labels (dg_suffix g)) (labels (norm_host host))
     else labels (dg_suffix g) = labels (norm_host host))"

text \<open>
  The same from the two texts alone: the labels of a host, without the empty one that a trailing dot leaves;
  the patterns that are meant, where a star is the whole first label and something follows it; and the hosts a pattern names.
\<close>

definition host_labels :: "string \<Rightarrow> string list" where
  "host_labels host =
    (let ls = labels (to_lower host) in if length ls > 1 \<and> last ls = [] then butlast ls else ls)"

definition pattern_ok :: "string \<Rightarrow> bool" where
  "pattern_ok pattern \<longleftrightarrow>
    (let ls = labels pattern in
     (if hd ls = ''*'' then tl ls \<noteq> [] \<and> tl ls \<noteq> [[]] else CHR ''*'' \<notin> set (hd ls) \<and> ls \<noteq> [[]]) \<and>
     (\<forall>l \<in> set (tl ls). CHR ''*'' \<notin> set l))"

definition pattern_matches :: "string \<Rightarrow> string \<Rightarrow> bool" where
  "pattern_matches pattern host \<longleftrightarrow>
    (let ls = labels (to_lower pattern)
     in if hd ls = ''*'' then suffix (tl ls) (host_labels host) else host_labels host = ls)"

definition glob_wf :: "domain_glob \<Rightarrow> bool" where
  "glob_wf g \<longleftrightarrow> dg_suffix g \<noteq> [] \<and> CHR ''*'' \<notin> set (dg_suffix g) \<and> to_lower (dg_suffix g) = dg_suffix g"

definition cidr_wf :: "cidr \<Rightarrow> bool" where
  "cidr_wf c \<longleftrightarrow> cd_prefix c \<le> (if is_ipv4 (cd_net c) then 32 else 128)"

text \<open>The addresses of a block: the family and the leading bits agree.\<close>

fun same_block :: "nat \<Rightarrow> ip_addr \<Rightarrow> ip_addr \<Rightarrow> bool" where
  "same_block p (V4 n) (V4 a) \<longleftrightarrow> drop_bit (32 - p) n = drop_bit (32 - p) a"
| "same_block p (V6 n) (V6 a) \<longleftrightarrow> drop_bit (128 - p) n = drop_bit (128 - p) a"
| "same_block p _ _ \<longleftrightarrow> False"

text \<open>The meaning of a path pattern: a star stands for any run of bytes.\<close>

fun path_sem :: "string \<Rightarrow> string \<Rightarrow> bool" where
  "path_sem [] s \<longleftrightarrow> s = []"
| "path_sem (c # p) s \<longleftrightarrow>
    (if c = CHR ''*'' then list_ex (\<lambda>k. path_sem p (drop k s)) [0 ..< length s + 1]
     else (case s of [] \<Rightarrow> False | x # xs \<Rightarrow> x = c \<and> path_sem p xs))"

section \<open>Header names\<close>

lemma upper_lower_char [simp]: "lower_char (upper_char c) = lower_char c" "upper_char (lower_char c) = upper_char c"
  by (auto simp: upper_char_def lower_char_def is_upper_def is_lower_def)

lemma canonical_token_lower: "canonical_token (to_lower t) = canonical_token t"
  "to_lower (canonical_token t) = to_lower t"
  by (simp_all add: canonical_token_def split: list.splits)

lemma split_on_map:
  assumes "\<And>x. f x = c \<longleftrightarrow> x = c"
  shows "split_on c (map f s) = map (map f) (split_on c s)"
proof (induction s)
  case (Cons x xs)
  then show ?case by (auto simp: assms split: list.splits)
qed simp

lemma lower_char_dash: "lower_char c = CHR ''-'' \<longleftrightarrow> c = CHR ''-''"
  by (rule lower_char_eq_iff) (simp_all add: is_upper_def is_lower_def)

lemma map_join_with: "map f (join_with sep ps) = join_with (map f sep) (map (map f) ps)"
  by (induction sep ps rule: join_with.induct) simp_all

lemma canonical_name_of_lower: "canonical_name (to_lower n) = canonical_name n"
  by (simp add: canonical_name_def split_on_map [of lower_char, OF lower_char_dash] canonical_token_lower comp_def)

lemma lower_canonical_name: "to_lower (canonical_name n) = to_lower n"
proof -
  have "to_lower (canonical_name n) = join_with ''-'' (map to_lower (split_on CHR ''-'' n))"
    by (simp add: canonical_name_def map_join_with comp_def canonical_token_lower
        lower_char_fix is_upper_def)
  also have "\<dots> = join_with ''-'' (split_on CHR ''-'' (to_lower n))"
    by (simp add: split_on_map [of lower_char, OF lower_char_dash])
  finally show ?thesis by (simp add: join_split_on)
qed

lemma canonical_name_eq: "canonical_name a = canonical_name b \<longleftrightarrow> eq_ignore_case a b"
  unfolding eq_ignore_case_def by (metis canonical_name_of_lower lower_canonical_name)

section \<open>Domain globs\<close>

lemma DomainGlob_parse_wf: "DomainGlob_parse p = Inr g \<Longrightarrow> glob_wf g"
proof -
  assume p: "DomainGlob_parse p = Inr g"
  show ?thesis
  proof (cases "strip_prefix ''*.'' (to_lower p)")
    case None
    with p show ?thesis
      by (auto simp: DomainGlob_parse_def Let_def glob_wf_def split: if_splits)
  next
    case (Some r)
    then have "to_lower p = ''*.'' @ r" by (simp add: strip_prefix_Some)
    then have "to_lower r = r"
      by (metis append_eq_append_conv length_map lower_idem map_append)
    with p Some show ?thesis
      by (auto simp: DomainGlob_parse_def Let_def glob_wf_def split: if_splits)
  qed
qed

lemma norm_host_lower: "norm_host (to_lower h) = norm_host h"
  by (simp add: norm_host_def)

lemma split_on_app: "split_on c (a @ c # b) = split_on c a @ split_on c b"
proof (induction a)
  case (Cons x xs)
  obtain y ys where "split_on c xs = y # ys" using split_on_not_Nil by (meson neq_Nil_conv)
  with Cons show ?case by auto
qed simp

lemma split_on_inj: "split_on c a = split_on c b \<longleftrightarrow> a = b"
  by (metis join_split_on)

lemma join_with_append: "xs \<noteq> [] \<Longrightarrow> ys \<noteq> [] \<Longrightarrow> join_with s (xs @ ys) = join_with s xs @ s @ join_with s ys"
  by (induction s xs rule: join_with.induct) (auto simp: neq_Nil_conv)

lemma suffix_labels:
  "suffix (split_on c s) (split_on c h) \<longleftrightarrow> h = s \<or> (\<exists>a. h = a @ c # s)"
proof
  assume "suffix (split_on c s) (split_on c h)"
  then obtain xs where xs: "split_on c h = xs @ split_on c s" by (auto simp: suffix_def)
  show "h = s \<or> (\<exists>a. h = a @ c # s)"
  proof (cases xs)
    case Nil
    with xs show ?thesis by (simp add: split_on_inj)
  next
    case (Cons y ys)
    then have "h = join_with [c] xs @ [c] @ join_with [c] (split_on c s)"
      using join_with_append [of xs "split_on c s" "[c]"] xs by (metis join_split_on list.distinct(1) split_on_not_Nil)
    then show ?thesis by (simp add: join_split_on)
  qed
qed (auto simp: split_on_app suffix_def)

lemma nth_before_suffix:
  assumes "h \<noteq> s" and "suffix s h"
  shows "h ! (length h - length s - 1) = c \<longleftrightarrow> (\<exists>a. h = a @ c # s)"
proof -
  from assms obtain u where u: "h = u @ s" "u \<noteq> []" by (auto simp: suffix_def)
  then have "h ! (length h - length s - 1) = last u" by (simp add: nth_append last_conv_nth)
  moreover have "last u = c \<longleftrightarrow> (\<exists>a. h = a @ c # s)" using u
    by (auto intro!: exI [of _ "butlast u"])
  ultimately show ?thesis by simp
qed

lemma DomainGlob_matches_iff:
  "DomainGlob_matches g host \<longleftrightarrow>
    norm_host host = dg_suffix g \<or> dg_wildcard g \<and> (\<exists>a. norm_host host = a @ CHR ''.'' # dg_suffix g)"
proof -
  have "suffix s (a @ c # s)" for a s and c :: char by (simp add: suffix_def)
  then show ?thesis
    using nth_before_suffix [of "norm_host host" "dg_suffix g" "CHR ''.''"]
    by (auto simp: DomainGlob_matches_def Let_def)
qed

lemma DomainGlob_matches_labels: "DomainGlob_matches g host \<longleftrightarrow> glob_labels g host"
  by (auto simp: DomainGlob_matches_iff glob_labels_def suffix_labels split_on_inj)

text \<open>What the parser makes of a pattern, from its text.\<close>

lemma labels_norm_host: "labels (norm_host host) = host_labels host"
proof (cases "strip_suffix ''.'' (to_lower host)")
  case None
  have "\<not> (length (labels (to_lower host)) > 1 \<and> last (labels (to_lower host)) = [])"
  proof
    assume l: "length (labels (to_lower host)) > 1 \<and> last (labels (to_lower host)) = []"
    then have "labels (to_lower host) = butlast (labels (to_lower host)) @ [[]]" "butlast (labels (to_lower host)) \<noteq> []"
      by (metis append_butlast_last_id split_on_not_Nil, cases "labels (to_lower host)") auto
    then have "to_lower host = join_with ''.'' (butlast (labels (to_lower host))) @ ''.''"
      using join_with_append [of "butlast (labels (to_lower host))" "[[]]" "''.''"] join_split_on [of "CHR ''.''" "to_lower host"]
      by simp
    with None show False by (metis strip_suffix_None suffixI)
  qed
  then have "host_labels host = labels (to_lower host)" unfolding host_labels_def Let_def by (rule if_not_P)
  with None show ?thesis by (simp add: norm_host_def Let_def)
next
  case (Some r)
  then have "to_lower host = r @ ''.''" by (simp add: strip_suffix_Some)
  then have "labels (to_lower host) = labels r @ [[]]" using split_on_app [of "CHR ''.''" r "[]"] by simp
  with Some show ?thesis by (simp add: norm_host_def host_labels_def Let_def)
qed

lemma labels_lower: "labels (to_lower p) = map to_lower (labels p)"
  by (rule split_on_map) simp

lemma pattern_ok_lower: "pattern_ok (to_lower p) \<longleftrightarrow> pattern_ok p"
proof -
  have star: "CHR ''*'' \<in> lower_char ` set l \<longleftrightarrow> CHR ''*'' \<in> set l" for l
    by (metis image_iff lower_char_star)
  obtain l ls where "labels p = l # ls" using split_on_not_Nil by (meson neq_Nil_conv)
  then show ?thesis by (cases ls) (auto simp: pattern_ok_def labels_lower star map_eq_Cons_conv)
qed

lemma set_split_on: "d \<noteq> c \<Longrightarrow> (\<exists>l \<in> set (split_on c s). d \<in> set l) \<longleftrightarrow> d \<in> set s"
proof (induction s)
  case (Cons x xs)
  obtain y ys where "split_on c xs = y # ys" using split_on_not_Nil by (meson neq_Nil_conv)
  with Cons show ?case by auto
qed simp

lemma split_on_single_Nil: "split_on c s = [[]] \<longleftrightarrow> s = []"
  using split_on_inj [of c s "[]"] by simp

lemma DomainGlob_parse_pattern:
  "case DomainGlob_parse pattern of
     Inl e \<Rightarrow> \<not> pattern_ok pattern
   | Inr g \<Rightarrow> pattern_ok pattern \<and> (\<forall>host. glob_labels g host \<longleftrightarrow> pattern_matches pattern host)"
proof (cases "strip_prefix ''*.'' (to_lower pattern)")
  case (Some r)
  then have p: "to_lower pattern = ''*'' @ CHR ''.'' # r" by (simp add: strip_prefix_Some)
  have ls: "labels (to_lower pattern) = ''*'' # labels r" unfolding p split_on_app by simp
  have "pattern_ok pattern \<longleftrightarrow> r \<noteq> [] \<and> CHR ''*'' \<notin> set r"
    using set_split_on [of "CHR ''*''" "CHR ''.''" r]
    unfolding pattern_ok_lower [of pattern, symmetric] by (auto simp: pattern_ok_def ls split_on_single_Nil)
  then show ?thesis
    using Some by (auto simp: DomainGlob_parse_def Let_def glob_labels_def labels_norm_host pattern_matches_def ls)
next
  case None
  obtain l ls where ls: "labels (to_lower pattern) = l # ls" using split_on_not_Nil by (meson neq_Nil_conv)
  have join: "to_lower pattern = join_with ''.'' (l # ls)" using join_split_on [of "CHR ''.''" "to_lower pattern"] ls by simp
  have star: "l = ''*'' \<Longrightarrow> ls = []"
    using None join by (cases ls) (simp_all add: strip_prefix_None prefix_def)
  have all: "(\<exists>x \<in> set (l # ls). CHR ''*'' \<in> set x) \<longleftrightarrow> CHR ''*'' \<in> set (to_lower pattern)"
    using set_split_on [of "CHR ''*''" "CHR ''.''" "to_lower pattern"] unfolding ls by simp
  have nil: "l # ls = [[]] \<longleftrightarrow> to_lower pattern = []" using split_on_single_Nil [of "CHR ''.''" "to_lower pattern"] ls by simp
  have ok: "pattern_ok pattern \<longleftrightarrow> to_lower pattern \<noteq> [] \<and> CHR ''*'' \<notin> set (to_lower pattern)"
    unfolding all [symmetric] nil [symmetric] unfolding pattern_ok_lower [of pattern, symmetric]
    using star by (auto simp: pattern_ok_def ls)
  then have "hd (labels (to_lower pattern)) \<noteq> ''*''" if "pattern_ok pattern"
    using that all ls by auto
  with ok None show ?thesis
    by (auto simp: DomainGlob_parse_def Let_def glob_labels_def labels_norm_host pattern_matches_def simp del: set_map)
qed

section \<open>CIDR blocks\<close>

lemma Cidr_parse_wf: "Cidr_parse s = Inr c \<Longrightarrow> cidr_wf c"
  by (auto simp: Cidr_parse_def result_simps Let_def cidr_wf_def split: if_splits)

lemma and_high_mask:
  fixes n a :: "'a::len word"
  assumes "p \<le> LENGTH('a)"
  shows "n AND (if p = 0 then 0 else push_bit (LENGTH('a) - p) (- 1)) =
      a AND (if p = 0 then 0 else push_bit (LENGTH('a) - p) (- 1)) \<longleftrightarrow>
    drop_bit (LENGTH('a) - p) n = drop_bit (LENGTH('a) - p) a"
proof (cases "p = 0")
  case True
  then show ?thesis by simp
next
  case False
  let ?k = "LENGTH('a) - p"
  have push: "x AND push_bit ?k (- 1) = push_bit ?k (drop_bit ?k x)" for x :: "'a word"
    by (rule bit_eqI) (auto simp: bit_simps)
  have "push_bit ?k (drop_bit ?k n) = push_bit ?k (drop_bit ?k a) \<longleftrightarrow> drop_bit ?k n = drop_bit ?k a"
  proof
    assume "push_bit ?k (drop_bit ?k n) = push_bit ?k (drop_bit ?k a)"
    then have "drop_bit ?k (push_bit ?k (drop_bit ?k n)) = drop_bit ?k (push_bit ?k (drop_bit ?k a))" by simp
    moreover have "drop_bit ?k (push_bit ?k (drop_bit ?k x)) = drop_bit ?k x" for x :: "'a word"
      by (rule bit_eqI) (auto simp: bit_simps dest: bit_imp_le_length)
    ultimately show "drop_bit ?k n = drop_bit ?k a" by simp
  qed simp
  with False show ?thesis by (simp add: push del: push_bit_minus_one_eq_not_mask)
qed

lemma Cidr_contains_literal_iff:
  assumes "cidr_wf c"
  shows "Cidr_contains_literal c ip \<longleftrightarrow> same_block (cd_prefix c) (cd_net c) ip"
  using assms and_high_mask [where 'a = 32, of "cd_prefix c"] and_high_mask [where 'a = 128, of "cd_prefix c"]
  by (cases "cd_net c"; cases ip)
    (auto simp: Cidr_contains_literal_def cidr_wf_def Let_def)

lemma Cidr_contains_iff:
  assumes "cidr_wf c"
  shows "Cidr_contains c ip \<longleftrightarrow>
    same_block (cd_prefix c) (cd_net c) ip \<or> same_block (cd_prefix c) (cd_net c) (to_canonical ip)"
  using Cidr_contains_literal_iff [OF assms]
  by (auto simp: Cidr_contains_def Let_def)

lemma Cidr_contains_mapped: "Cidr_contains c (V4 a) \<Longrightarrow> Cidr_contains c (V6 (mapped a))"
  by (auto simp: Cidr_contains_def Let_def split: if_splits)

lemma Cidr_matches_host_lower: "Cidr_matches_host c (to_lower h) = Cidr_matches_host c h"
  by (simp add: Cidr_matches_host_def parse_ip_lower)

section \<open>Host matchers\<close>

text \<open>
  What every host predicate of the program promises its callers: the case of the host is
  irrelevant. The listeners hand over lower-case hosts, the DNS server and the tunnel
  passthrough hand over what they read.
\<close>

locale host_matcher =
  fixes matches :: "'p \<Rightarrow> string \<Rightarrow> bool"
  assumes matches_lower: "matches p (to_lower h) = matches p h"
begin

lemma matches_cong: "eq_ignore_case h h' \<Longrightarrow> matches p h = matches p h'"
  unfolding eq_ignore_case_def using matches_lower by metis

lemma any_cong: "eq_ignore_case h h' \<Longrightarrow> list_ex (\<lambda>p. matches p h) ps = list_ex (\<lambda>p. matches p h') ps"
  using matches_cong by (simp add: list_ex_iff)

end

interpretation glob_host: host_matcher DomainGlob_matches
  by unfold_locales (simp add: DomainGlob_matches_def norm_host_lower)

interpretation cidr_host: host_matcher Cidr_matches_host
  by unfold_locales (rule Cidr_matches_host_lower)

interpretation clause_host: host_matcher HostClause_matches
  by unfold_locales
    (simp add: HostClause_matches_def glob_host.matches_lower cidr_host.matches_lower split: host_clause.split)

interpretation rule_host: host_matcher "\<lambda>r h. Rule_matches r h m p" for m p
  by unfold_locales (simp add: Rule_matches_def clause_host.matches_lower)

section \<open>Path globs\<close>

text \<open>The parts of a pattern laid out in a string, each after a gap but the first.\<close>

fun fits :: "string list \<Rightarrow> string \<Rightarrow> bool" where
  "fits [] s \<longleftrightarrow> False"
| "fits [p] s \<longleftrightarrow> s = p"
| "fits (p # q # ps) s \<longleftrightarrow> (\<exists>r k. s = p @ r \<and> fits (q # ps) (drop k r))"

definition fits_after :: "string list \<Rightarrow> string \<Rightarrow> bool" where
  "fits_after ps s \<longleftrightarrow> (\<exists>k. fits ps (drop k s))"

lemma fits_after_drop: "fits_after ps (drop k s) \<Longrightarrow> fits_after ps s"
  by (auto simp: fits_after_def)

lemma fits_Cons: "ps \<noteq> [] \<Longrightarrow> fits (p # ps) s \<longleftrightarrow> (\<exists>r. s = p @ r \<and> fits_after ps r)"
  by (cases ps) (auto simp: fits_after_def)

lemma fits_shift: "fits ((c # p) # ps) (x # xs) \<longleftrightarrow> x = c \<and> fits (p # ps) xs"
  by (cases ps) auto

lemma fits_shift_Nil: "\<not> fits ((c # p) # ps) []"
  by (cases ps) auto

lemma path_sem_fits: "path_sem p s \<longleftrightarrow> fits (split_on CHR ''*'' p) s"
proof (induction p s rule: path_sem.induct)
  case (1 s)
  then show ?case by simp
next
  case (2 c p s)
  obtain y ys where y: "split_on CHR ''*'' p = y # ys" using split_on_not_Nil by (meson neq_Nil_conv)
  show ?case
  proof (cases "c = CHR ''*''")
    case True
    have "(\<exists>k. fits (y # ys) (drop k s)) \<longleftrightarrow> (\<exists>k \<le> length s. fits (y # ys) (drop k s))"
      by (metis drop_all le_cases order_refl)
    moreover have "path_sem (c # p) s \<longleftrightarrow> (\<exists>k \<in> set [0 ..< length s + 1]. path_sem p (drop k s))"
      using True by (simp only: path_sem.simps list_ex_iff refl if_True)
    moreover have "\<dots> \<longleftrightarrow> (\<exists>k \<in> set [0 ..< length s + 1]. fits (y # ys) (drop k s))"
      using "2.IH"(1) True y by (intro bex_cong) simp_all
    moreover have "\<dots> \<longleftrightarrow> (\<exists>k \<le> length s. fits (y # ys) (drop k s))"
      unfolding Bex_def by (simp only: set_upt atLeastLessThan_iff Suc_eq_plus1 [symmetric] less_Suc_eq_le) simp
    ultimately show ?thesis using True y by simp
  next
    case False
    with 2 y show ?thesis by (cases s) (auto simp: fits_shift fits_shift_Nil)
  qed
qed

lemma fits_after_single: "fits_after [p] s \<longleftrightarrow> suffix p s"
  by (auto simp: fits_after_def suffix_drop) (metis append_eq_conv_conj suffix_def)

lemma fits_after_greedy:
  assumes "ps \<noteq> []" and "find_sub m s = Some i"
  shows "fits_after (m # ps) s \<longleftrightarrow> fits_after ps (drop (i + length m) s)"
proof
  assume "fits_after (m # ps) s"
  then obtain k r where r: "drop k s = m @ r" "fits_after ps r"
    by (auto simp: fits_after_def [of "m # ps"] fits_Cons [OF assms(1)])
  then have s: "s = take k s @ m @ r" by (metis append_take_drop_id)
  from find_sub_least [OF assms(2) s] have "i \<le> length (take k s)" .
  moreover have "r = drop (length (take k s) + length m) s" by (subst s) simp
  ultimately have "r = drop (length (take k s) - i) (drop (i + length m) s)" by (simp add: add.commute)
  with r(2) show "fits_after ps (drop (i + length m) s)" using fits_after_drop by blast
next
  assume a: "fits_after ps (drop (i + length m) s)"
  from find_sub_Some [OF assms(2)] have "drop i s = m @ drop (i + length m) s"
    by (metis add.commute append_eq_conv_conj append_take_drop_id drop_drop same_append_eq)
  with a show "fits_after (m # ps) s"
    unfolding fits_after_def [of "m # ps"] fits_Cons [OF assms(1)] by blast
qed

lemma fits_after_absent: "find_sub m s = None \<Longrightarrow> ps \<noteq> [] \<Longrightarrow> \<not> fits_after (m # ps) s"
  by (auto simp: fits_after_def [of "m # ps"] fits_Cons find_sub_None) (metis append_take_drop_id)

lemma find_mids_fits:
  "fits_after (mids @ [l]) s \<longleftrightarrow> (\<exists>r. find_mids mids s = Some r \<and> suffix l r)"
proof (induction mids s rule: find_mids.induct)
  case (1 rest)
  then show ?case by (simp add: fits_after_single)
next
  case (2 mid mids rest)
  show ?case
  proof (cases "find_sub mid rest")
    case None
    then have "mid \<noteq> []" by (cases rest) auto
    with None fits_after_absent [OF None, of "mids @ [l]"] show ?thesis by simp
  next
    case (Some i)
    have i: "mid = [] \<Longrightarrow> i = 0" using Some by (cases rest) auto
    from fits_after_greedy [of "mids @ [l]" mid rest i] Some 2 i show ?thesis by auto
  qed
qed

lemma PathGlob_matches_sem: "PathGlob_matches g path \<longleftrightarrow> path_sem (pg_pattern g) path"
proof -
  obtain y ys where y: "split_on CHR ''*'' (pg_pattern g) = y # ys"
    using split_on_not_Nil by (meson neq_Nil_conv)
  show ?thesis
  proof (cases "ys = []")
    case True
    with y have "pg_pattern g = y" by (metis split_on_singleton)
    with True y show ?thesis by (auto simp: PathGlob_matches_def path_sem_fits)
  next
    case False
    have "ys = butlast ys @ [last ys]" using False by simp
    then have "fits_after ys r \<longleftrightarrow> (\<exists>r'. find_mids (butlast ys) r = Some r' \<and> suffix (last ys) r')" for r
      by (metis find_mids_fits)
    with False y show ?thesis
      by (cases "strip_prefix y path")
        (auto simp: PathGlob_matches_def path_sem_fits fits_Cons str_simps split: option.splits)
  qed
qed

section \<open>Rules\<close>

lemma Rule_matches_iff:
  "Rule_matches r host method path \<longleftrightarrow>
    HostClause_matches (rl_host r) host \<and>
    (\<forall>ms. rl_methods r = Some ms \<longrightarrow> method \<in> set ms) \<and>
    (\<forall>ps. rl_paths r = Some ps \<longrightarrow> (\<exists>p \<in> set ps. PathGlob_matches p path))"
  by (auto simp: Rule_matches_def list_ex_iff split: option.splits)

lemma any_rule_matches_iff:
  "any_rule_matches rules host method path \<longleftrightarrow> (\<exists>r \<in> set rules. Rule_matches r host method path)"
  by (simp add: any_rule_matches_def list_ex_iff)

lemma HeaderNameEntry_matches_lower:
  "HeaderNameEntry_matches e (to_lower n) = HeaderNameEntry_matches e n"
  by (simp add: HeaderNameEntry_matches_def)

section \<open>Properties\<close>

text \<open>
  C22. A pattern means what its text says: the parser accepts exactly the patterns in which a star, if there is one, is the
  whole first label and is followed by something; an accepted pattern with the star matches exactly the
  hosts whose last labels are those after the star, one without it exactly the host with its labels, in any case
  and with or without one trailing dot.
\<close>

theorem domain_glob_correct:
  "case DomainGlob_parse pattern of
     Inl e \<Rightarrow> \<not> pattern_ok pattern
   | Inr g \<Rightarrow> pattern_ok pattern \<and> (\<forall>host. DomainGlob_matches g host \<longleftrightarrow> pattern_matches pattern host)"
  using DomainGlob_parse_pattern [of pattern] by (auto simp: DomainGlob_matches_labels split: sum.split)

theorem domain_glob_correct_witness:
  "(case DomainGlob_parse ''*.Example.com'' of
      Inl e \<Rightarrow> False
    | Inr g \<Rightarrow> DomainGlob_matches g ''API.example.com.'' \<and> \<not> DomainGlob_matches g ''evilexample.com'') \<and>
   (case DomainGlob_parse ''example.com'' of
      Inl e \<Rightarrow> False
    | Inr g \<Rightarrow> DomainGlob_matches g ''Example.COM'' \<and> \<not> DomainGlob_matches g ''api.example.com'')"
proof -
  have ok: "pattern_ok ''*.Example.com''" "pattern_ok ''example.com''" by code_simp+
  have "pattern_matches ''*.Example.com'' ''API.example.com.''" "\<not> pattern_matches ''*.Example.com'' ''evilexample.com''"
    "pattern_matches ''example.com'' ''Example.COM''" "\<not> pattern_matches ''example.com'' ''api.example.com''"
    by code_simp+
  then show ?thesis
    using ok domain_glob_correct [of "''*.Example.com''"] domain_glob_correct [of "''example.com''"]
    by (auto split: sum.splits)
qed

text \<open>
  C23. A CIDR block the parser accepts contains an address exactly when the leading bits of
  the network and of the address, or of the IPv4 form of an IPv4-mapped address, agree.
\<close>

theorem cidr_contains_correct:
  assumes "Cidr_parse s = Inr c"
  shows "Cidr_contains c ip \<longleftrightarrow>
    same_block (cd_prefix c) (cd_net c) ip \<or> same_block (cd_prefix c) (cd_net c) (to_canonical ip)"
  using Cidr_contains_iff [OF Cidr_parse_wf [OF assms]] .

theorem cidr_contains_correct_witness:
  "Cidr_parse ''10.0.0.0/8'' = Inr \<lparr>cd_net = V4 0x0A000000, cd_prefix = 8\<rparr> \<and>
   Cidr_contains \<lparr>cd_net = V4 0x0A000000, cd_prefix = 8\<rparr> (V6 (mapped 0x0A010203)) \<and>
   \<not> Cidr_contains \<lparr>cd_net = V4 0x0A000000, cd_prefix = 8\<rparr> (V4 0x0B000000)"
proof -
  have p: "Cidr_parse ''10.0.0.0/8'' = Inr \<lparr>cd_net = V4 0x0A000000, cd_prefix = 8\<rparr>"
    by code_simp
  show ?thesis
    using p by (simp add: cidr_contains_correct [OF p])
qed

text \<open>
  C30. The greedy search of the path matcher decides the declarative meaning of the pattern,
  in which every star stands for an arbitrary run of bytes.
\<close>

theorem path_glob_correct: "PathGlob_matches g path \<longleftrightarrow> path_sem (pg_pattern g) path"
  by (rule PathGlob_matches_sem)

text \<open>
  Rules do not see the case of the host, whichever kind of host clause they carry: two
  hosts that differ in case only get the same answer from every rule list.
\<close>

theorem rules_host_case:
  assumes "eq_ignore_case h h'"
  shows "any_rule_matches rules h method path = any_rule_matches rules h' method path"
  unfolding any_rule_matches_def using rule_host.any_cong [OF assms] .

theorem rules_host_case_witness:
  "eq_ignore_case ''API.Example.com'' ''api.example.com'' \<and>
   any_rule_matches [\<lparr>rl_host = Glob \<lparr>dg_suffix = ''example.com'', dg_wildcard = True\<rparr>,
       rl_methods = None, rl_paths = None\<rparr>] ''API.Example.com'' ''GET'' ''/''"
proof -
  have e: "eq_ignore_case ''API.Example.com'' ''api.example.com''" by code_simp
  show ?thesis using e by (simp only: rules_host_case [OF e]) code_simp
qed

end
