(* ===== verification/Summary.thy ===== *)
theory Summary
  imports Complex_Main Matcher
begin

text \<open>
  The data of a request as the kernel sees it: \<open>crates/hematite-kernel/src/summary.rs\<close>
  (modes, the ordered header multimap, the buffered body, the request summary) and
  \<open>verdict.rs\<close> (responses, verdicts, traces), with the JSON values of \<open>serde_json\<close> that
  annotations and configurations are made of.
\<close>

section \<open>JSON values\<close>

text \<open>
  \<open>serde_json::Value\<close>. An object is a \<open>BTreeMap\<close>: its entries are in key order and
  \<open>map_insert\<close> replaces the value of a key it has. A number is one the program
  writes or reads as an unsigned integer; any other literal is kept as its text.
\<close>

datatype json =
    JNull
  | JBool bool
  | JNumber nat
  | JLiteral string
  | JString string
  | JArray "json list"
  | JObject "(string \<times> json) list"

type_synonym json_map = "(string \<times> json) list"

fun map_insert :: "string \<Rightarrow> 'v \<Rightarrow> (string \<times> 'v) list \<Rightarrow> (string \<times> 'v) list" where
  "map_insert k v [] = [(k, v)]"
| "map_insert k v ((k', v') # kvs) =
    (if k = k' then (k, v) # kvs
     else if k < k' then (k, v) # (k', v') # kvs
     else (k', v') # map_insert k v kvs)"

fun Value_get :: "json \<Rightarrow> string \<Rightarrow> json option" where
  "Value_get (JObject kvs) k = map_of kvs k"
| "Value_get _ k = None"

fun as_array :: "json \<Rightarrow> json list option" where
  "as_array (JArray vs) = Some vs"
| "as_array _ = None"

fun as_str :: "json \<Rightarrow> string option" where
  "as_str (JString s) = Some s"
| "as_str _ = None"

fun as_bool :: "json \<Rightarrow> bool option" where
  "as_bool (JBool b) = Some b"
| "as_bool _ = None"

text \<open>\<open>json!(v)\<close> of a list of strings.\<close>

definition json_strings :: "string list \<Rightarrow> json" where
  "json_strings ss = JArray (map JString ss)"

lemma map_of_map_insert: "map_of (map_insert k v m) = (map_of m)(k \<mapsto> v)"
  by (induction k v m rule: map_insert.induct) (auto simp: fun_eq_iff)

lemma set_map_insert: "fst ` set (map_insert k v m) = insert k (fst ` set m)"
  by (induction k v m rule: map_insert.induct) auto

lemma sorted_map_insert:
  "sorted (map fst m) \<Longrightarrow> distinct (map fst m) \<Longrightarrow>
   sorted (map fst (map_insert k v m)) \<and> distinct (map fst (map_insert k v m))"
proof (induction k v m rule: map_insert.induct)
  case (2 k v k' v' kvs)
  have set: "set (map fst (map_insert k v kvs)) = insert k (set (map fst kvs))"
    using set_map_insert [of k v kvs] by simp
  show ?case using 2 set by (auto simp: less_le_trans dest: order.strict_trans2)
qed simp

section \<open>Requests\<close>

datatype mode = Http | Https | Tunnel

type_synonym headers = "(string \<times> string) list"

definition Headers_first :: "headers \<Rightarrow> string \<Rightarrow> string option" where
  "Headers_first hs name =
    (let want = to_lower name
     in map_option snd (find (\<lambda>(n, v). to_lower n = want) hs))"

text \<open>The closure is a state transformer: it may record what it rewrote.\<close>

fun Headers_map_values ::
  "('s \<Rightarrow> string \<Rightarrow> string \<Rightarrow> string option \<times> 's) \<Rightarrow> 's \<Rightarrow> headers \<Rightarrow> headers \<times> 's" where
  "Headers_map_values f s [] = ([], s)"
| "Headers_map_values f s ((n, v) # hs) =
    (let (new, s') = f s n v;
         (hs', s'') = Headers_map_values f s' hs
     in ((n, unwrap_or new v) # hs', s''))"

definition Headers_retain :: "(string \<Rightarrow> bool) \<Rightarrow> headers \<Rightarrow> headers \<times> string list" where
  "Headers_retain keep hs =
    (filter (\<lambda>(n, v). keep n) hs, map (\<lambda>(n, v). canonical_name n) (filter (\<lambda>(n, v). \<not> keep n) hs))"

record body =
  bd_bytes :: bytes
  bd_over_cap :: bool

datatype over_cap_error = OverCapError

definition Body_replace :: "body \<Rightarrow> bytes \<Rightarrow> over_cap_error + body" where
  "Body_replace b bs = (if bd_over_cap b then Inl OverCapError else Inr (b\<lparr>bd_bytes := bs\<rparr>))"

record request_summary =
  rq_mode :: mode
  rq_method :: string
  rq_host :: string
  rq_port :: u16
  rq_path :: string
  rq_query :: string
  rq_headers :: headers
  rq_body :: body
  rq_sni :: "string option"
  rq_remote_addr :: "string option"

text \<open>
  What no transform may touch: where the request came from and where it goes. The
  names of the headers may shrink but not change.
\<close>

definition same_destination :: "request_summary \<Rightarrow> request_summary \<Rightarrow> bool" where
  "same_destination a b \<longleftrightarrow>
    rq_mode a = rq_mode b \<and> rq_method a = rq_method b \<and> rq_host a = rq_host b \<and> rq_port a = rq_port b \<and>
    rq_sni a = rq_sni b \<and> rq_remote_addr a = rq_remote_addr b \<and>
    bd_over_cap (rq_body a) = bd_over_cap (rq_body b)"

lemma same_destination_refl [simp]: "same_destination r r"
  by (simp add: same_destination_def)

lemma same_destination_trans: "same_destination a b \<Longrightarrow> same_destination b c \<Longrightarrow> same_destination a c"
  by (simp add: same_destination_def)

section \<open>Verdicts and traces\<close>

text \<open>The \<open>f64\<close> durations are exact rationals: no result depends on their rounding.\<close>

type_synonym f64 = rat

record response =
  rs_status :: u16
  rs_headers :: headers
  rs_body :: bytes

datatype verdict = Verdict_Continue | Verdict_Reject "response option" | Verdict_Stub response

datatype trace_verdict = TraceVerdict_Continue | TraceVerdict_Reject | TraceVerdict_Stub | TraceVerdict_Error

record trace =
  t_name :: string
  t_verdict :: trace_verdict
  t_duration_ms :: f64
  t_error :: "message option"
  t_annotations :: json_map

section \<open>Headers\<close>

lemma Headers_first_filter:
  "Headers_first hs name =
    (case filter (\<lambda>(n, v). eq_ignore_case n name) hs of [] \<Rightarrow> None | h # _ \<Rightarrow> Some (snd h))"
  by (induction hs) (auto simp: Headers_first_def Let_def eq_ignore_case_def)

lemma Headers_first_set: "Headers_first hs name = Some v \<Longrightarrow> \<exists>n. (n, v) \<in> set hs \<and> eq_ignore_case n name"
  by (auto simp: Headers_first_def eq_ignore_case_def find_Some_iff) (metis nth_mem)

lemma Headers_map_values_names: "map fst (fst (Headers_map_values f s hs)) = map fst hs"
  by (induction f s hs rule: Headers_map_values.induct) (auto split: prod.splits)

lemma Headers_retain_iff:
  "set (fst (Headers_retain keep hs)) = {(n, v) \<in> set hs. keep n}"
  "set (snd (Headers_retain keep hs)) = canonical_name ` {n \<in> fst ` set hs. \<not> keep n}"
  by (force simp: Headers_retain_def)+

end
