(* ===== verification/Pipeline.thy ===== *)
theory Pipeline
  imports Summary
begin

text \<open>
  The pipeline of \<open>crates/hematite-kernel/src/pipeline.rs\<close>: the transform contract, the
  request path with its short circuits, and the response path. A boxed transform is the
  record of its methods. What a transform reaches through a shared reference (the secret
  resolver's cache) is the explicit state \<open>'s\<close> that the methods take and return.
\<close>

section \<open>Definitions\<close>

datatype allow_proof = AllowProof

datatype outcome =
    Outcome_Continue allow_proof
  | Outcome_Reject string "response option"
  | Outcome_Stub string response
  | Outcome_Error string message

record body_capture =
  bc_request_body :: string
  bc_request_body_truncated :: bool

record pipeline_outcome =
  po_outcome :: outcome
  po_request_traces :: "trace list"
  po_body_capture :: "body_capture option"
  po_request_path :: string

record ctx =
  cx_annotations :: json_map
  cx_body_capture :: "body_capture option"

definition Ctx_default :: ctx where
  "Ctx_default = \<lparr>cx_annotations = [], cx_body_capture = None\<rparr>"

definition annotate :: "string \<Rightarrow> json \<Rightarrow> ctx \<Rightarrow> ctx" where
  "annotate key v ctx = ctx\<lparr>cx_annotations := map_insert key v (cx_annotations ctx)\<rparr>"

definition set_body_capture :: "body_capture \<Rightarrow> ctx \<Rightarrow> ctx" where
  "set_body_capture capture ctx = ctx\<lparr>cx_body_capture := Some capture\<rparr>"

datatype transform_error = TransformError message

type_synonym 's on_request =
  "'s \<Rightarrow> ctx \<Rightarrow> request_summary \<Rightarrow> (transform_error + verdict) \<times> ctx \<times> request_summary \<times> 's"

type_synonym 's on_response =
  "'s \<Rightarrow> ctx \<Rightarrow> request_summary \<Rightarrow> (transform_error + verdict) \<times> ctx \<times> 's"

record 's transform =
  tr_name :: string
  on_request :: "'s on_request"
  on_response :: "'s on_response"

text \<open>The trait's default response method, which all five transforms inherit.\<close>

definition default_on_response :: "'s on_response" where
  "default_on_response s ctx req = (Inr Verdict_Continue, ctx, s)"

type_synonym 's pipeline = "'s transform list"

definition transform_names :: "'s pipeline \<Rightarrow> string list" where
  "transform_names p = map tr_name p"

definition mk_trace :: "string \<Rightarrow> trace_verdict \<Rightarrow> message option \<Rightarrow> json_map \<Rightarrow> trace" where
  "mk_trace name v err annotations =
    \<lparr>t_name = name, t_verdict = v, t_duration_ms = 0, t_error = err, t_annotations = annotations\<rparr>"

text \<open>
  The loop of \<open>evaluate_request\<close>: the traces and the last body capture so far are its
  accumulators.
\<close>

fun request_loop ::
  "'s pipeline \<Rightarrow> 's \<Rightarrow> request_summary \<Rightarrow> trace list \<Rightarrow> body_capture option \<Rightarrow>
   outcome \<times> trace list \<times> body_capture option \<times> request_summary \<times> 's" where
  "request_loop [] s req traces capture =
    (Outcome_Continue AllowProof, traces, capture, req, s)"
| "request_loop (t # ts) s req traces capture =
    (let (result, ctx, req', s') = on_request t s Ctx_default req;
         capture' = (if cx_body_capture ctx \<noteq> None then cx_body_capture ctx else capture)
     in case result of
          Inr Verdict_Continue \<Rightarrow>
            request_loop ts s' req'
              (traces @ [mk_trace (tr_name t) TraceVerdict_Continue None (cx_annotations ctx)]) capture'
        | Inr (Verdict_Reject response) \<Rightarrow>
            (Outcome_Reject (tr_name t) response,
             traces @ [mk_trace (tr_name t) TraceVerdict_Reject None (cx_annotations ctx)], capture', req', s')
        | Inr (Verdict_Stub response) \<Rightarrow>
            (Outcome_Stub (tr_name t) response,
             traces @ [mk_trace (tr_name t) TraceVerdict_Stub None (cx_annotations ctx)], capture', req', s')
        | Inl (TransformError msg) \<Rightarrow>
            (Outcome_Error (tr_name t) msg,
             traces @ [mk_trace (tr_name t) TraceVerdict_Error (Some msg) (cx_annotations ctx)], capture', req', s'))"

definition evaluate_request ::
  "'s pipeline \<Rightarrow> 's \<Rightarrow> request_summary \<Rightarrow> pipeline_outcome \<times> request_summary \<times> 's" where
  "evaluate_request p s req =
    (let request_path = rq_path req;
         (oc, traces, capture, req', s') = request_loop p s req [] None
     in (\<lparr>po_outcome = oc, po_request_traces = traces, po_body_capture = capture,
          po_request_path = request_path\<rparr>, req', s'))"

datatype response_action =
    Forward
  | Replace string response bool
  | Action_Failed string message

record response_outcome =
  ro_traces :: "trace list"
  ro_action :: response_action

fun response_loop ::
  "'s pipeline \<Rightarrow> 's \<Rightarrow> request_summary \<Rightarrow> trace list \<Rightarrow> response_outcome \<times> 's" where
  "response_loop [] s req traces = (\<lparr>ro_traces = traces, ro_action = Forward\<rparr>, s)"
| "response_loop (t # ts) s req traces =
    (let (result, ctx, s') = on_response t s Ctx_default req
     in case result of
          Inr Verdict_Continue \<Rightarrow>
            response_loop ts s' req
              (traces @ [mk_trace (tr_name t) TraceVerdict_Continue None (cx_annotations ctx)])
        | Inr (Verdict_Reject response) \<Rightarrow>
            (\<lparr>ro_traces = traces @ [mk_trace (tr_name t) TraceVerdict_Reject None (cx_annotations ctx)],
              ro_action = Replace (tr_name t)
                (unwrap_or response \<lparr>rs_status = 403, rs_headers = [], rs_body = []\<rparr>) False\<rparr>, s')
        | Inr (Verdict_Stub response) \<Rightarrow>
            (\<lparr>ro_traces = traces @ [mk_trace (tr_name t) TraceVerdict_Stub None (cx_annotations ctx)],
              ro_action = Replace (tr_name t) response True\<rparr>, s')
        | Inl (TransformError msg) \<Rightarrow>
            (\<lparr>ro_traces = traces @ [mk_trace (tr_name t) TraceVerdict_Error (Some msg) (cx_annotations ctx)],
              ro_action = Action_Failed (tr_name t) msg\<rparr>, s'))"

definition evaluate_response :: "'s pipeline \<Rightarrow> 's \<Rightarrow> request_summary \<Rightarrow> response_outcome \<times> 's" where
  "evaluate_response p s req = response_loop p s req []"

section \<open>The run of a pipeline\<close>

text \<open>
  What one transform does to the request and the state, and the run of a list of
  transforms that all continue. It is the specification the request loop is compared with.
\<close>

inductive continues :: "'s pipeline \<Rightarrow> 's \<Rightarrow> request_summary \<Rightarrow> request_summary \<Rightarrow> 's \<Rightarrow> bool" where
  continues_Nil: "continues [] s req req s"
| continues_Cons:
    "on_request t s Ctx_default req = (Inr Verdict_Continue, ctx, req', s') \<Longrightarrow>
     continues ts s' req' req'' s'' \<Longrightarrow> continues (t # ts) s req req'' s''"

inductive_cases continues_NilE: "continues [] s req req' s'"
inductive_cases continues_ConsE: "continues (t # ts) s req req' s'"

text \<open>The outcome a verdict other than \<open>Continue\<close> ends the run with.\<close>

fun stops_with :: "string \<Rightarrow> transform_error + verdict \<Rightarrow> outcome option" where
  "stops_with name (Inr Verdict_Continue) = None"
| "stops_with name (Inr (Verdict_Reject r)) = Some (Outcome_Reject name r)"
| "stops_with name (Inr (Verdict_Stub r)) = Some (Outcome_Stub name r)"
| "stops_with name (Inl (TransformError m)) = Some (Outcome_Error name m)"

inductive stops :: "'s pipeline \<Rightarrow> 's \<Rightarrow> request_summary \<Rightarrow> outcome \<Rightarrow> request_summary \<Rightarrow> 's \<Rightarrow> bool" where
  stops_here:
    "on_request t s Ctx_default req = (r, ctx, req', s') \<Longrightarrow> stops_with (tr_name t) r = Some oc \<Longrightarrow>
     stops (t # ts) s req oc req' s'"
| stops_later:
    "on_request t s Ctx_default req = (Inr Verdict_Continue, ctx, req', s') \<Longrightarrow>
     stops ts s' req' oc req'' s'' \<Longrightarrow> stops (t # ts) s req oc req'' s''"

fun is_allowed :: "outcome \<Rightarrow> bool" where
  "is_allowed (Outcome_Continue _) = True"
| "is_allowed _ = False"

lemma verdict_cases [case_names Continue Reject Stub Error]:
  assumes "r = Inr Verdict_Continue \<Longrightarrow> P" "\<And>x. r = Inr (Verdict_Reject x) \<Longrightarrow> P"
    "\<And>x. r = Inr (Verdict_Stub x) \<Longrightarrow> P" "\<And>m. r = Inl (TransformError m) \<Longrightarrow> P"
  shows P
proof (cases r)
  case (Inl e)
  with assms(4) show ?thesis by (cases e) auto
next
  case (Inr v)
  with assms(1-3) show ?thesis by (cases v) auto
qed

lemma stops_with_not_allowed: "stops_with n r = Some oc \<Longrightarrow> \<not> is_allowed oc"
  by (cases "(n, r)" rule: stops_with.cases) auto

lemma request_loop_cases:
  "request_loop ts s req traces capture = (oc, traces', capture', req', s') \<Longrightarrow>
   oc = Outcome_Continue AllowProof \<and> continues ts s req req' s' \<or> stops ts s req oc req' s'"
proof (induction ts arbitrary: s req traces capture)
  case Nil
  then show ?case by (simp add: continues_Nil)
next
  case (Cons t ts)
  obtain r ctx rq1 s1 where o: "on_request t s Ctx_default req = (r, ctx, rq1, s1)"
    by (metis prod_cases4)
  show ?case
  proof (cases r rule: verdict_cases)
    case Continue
    with Cons.prems o have "\<exists>trs cap. request_loop ts s1 rq1 trs cap = (oc, traces', capture', req', s')"
      by (auto simp: Let_def)
    with Cons.IH Continue o show ?thesis by (blast intro: continues_Cons stops_later)
  qed (use Cons.prems o in \<open>auto intro!: stops_here\<close>)
qed

lemma stops_not_allowed: "stops ts s req oc req' s' \<Longrightarrow> \<not> is_allowed oc"
  by (induction rule: stops.induct) (auto dest: stops_with_not_allowed)

lemma continues_append:
  "continues (as @ bs) s req req' s' \<longleftrightarrow> (\<exists>rm sm. continues as s req rm sm \<and> continues bs sm rm req' s')"
proof (induction as arbitrary: s req)
  case Nil
  then show ?case by (auto intro: continues_Nil elim: continues_NilE)
next
  case (Cons t as)
  show ?case
  proof
    assume "continues ((t # as) @ bs) s req req' s'"
    then show "\<exists>rm sm. continues (t # as) s req rm sm \<and> continues bs sm rm req' s'"
      by (auto elim!: continues_ConsE simp: Cons) (metis continues_Cons)
  next
    assume "\<exists>rm sm. continues (t # as) s req rm sm \<and> continues bs sm rm req' s'"
    then show "continues ((t # as) @ bs) s req req' s'"
      using Cons by (auto elim!: continues_ConsE intro!: continues_Cons)
  qed
qed

lemma evaluate_request_path: "po_request_path (fst (evaluate_request p s req)) = rq_path req"
  by (simp add: evaluate_request_def Let_def split: prod.splits)

lemma evaluate_request_loop:
  "evaluate_request p s req = (po, req', s') \<Longrightarrow>
   request_loop p s req [] None = (po_outcome po, po_request_traces po, po_body_capture po, req', s')"
  by (auto simp: evaluate_request_def Let_def split: prod.splits)

lemma evaluate_request_continues:
  "evaluate_request p s req = (po, req', s') \<Longrightarrow> is_allowed (po_outcome po) \<Longrightarrow> continues p s req req' s'"
  by (drule evaluate_request_loop, drule request_loop_cases) (auto dest: stops_not_allowed)

section \<open>The transform contract\<close>

text \<open>
  What the pipeline relies on and every transform of the registry provides: the destination
  of the request is not changed.
\<close>

locale destination_keeper =
  fixes t :: "'s transform"
  assumes keeps: "on_request t s ctx req = (r, ctx', req', s') \<Longrightarrow> same_destination req req'"
    and response_continues: "on_response t s ctx req = (Inr Verdict_Continue, ctx, s)"
begin

lemma step_keeps: "same_destination req (fst (snd (snd (on_request t s ctx req))))"
  by (metis keeps prod.collapse)

end

text \<open>A transform that only observes the request, and never stops it.\<close>

locale observer =
  fixes t :: "'s transform"
  assumes observes: "\<exists>ctx'. on_request t s ctx req = (Inr Verdict_Continue, ctx', req, s)"
    and response_default: "on_response t = default_on_response"

sublocale observer \<subseteq> destination_keeper t
proof
  fix s ctx req r ctx' req' s'
  show "on_request t s ctx req = (r, ctx', req', s') \<Longrightarrow> same_destination req req'"
    using observes [of s ctx req] by auto
  show "on_response t s ctx req = (Inr Verdict_Continue, ctx, s)"
    by (simp add: response_default default_on_response_def)
qed

lemma continues_keeps:
  assumes "continues ts s req req' s'" and "\<forall>t \<in> set ts. destination_keeper t"
  shows "same_destination req req'"
  using assms
proof (induction rule: continues.induct)
  case (continues_Cons t s req ctx req' s' ts req'' s'')
  then show ?case using destination_keeper.keeps same_destination_trans by (metis list.set_intros)
qed simp

lemma stops_keeps:
  assumes "stops ts s req oc req' s'" and "\<forall>t \<in> set ts. destination_keeper t"
  shows "same_destination req req'"
  using assms
proof (induction rule: stops.induct)
  case (stops_here t s req r ctx req' s' oc ts)
  then show ?case using destination_keeper.keeps by (metis list.set_intros(1))
next
  case (stops_later t s req ctx req' s' ts oc req'' s'')
  then show ?case using destination_keeper.keeps same_destination_trans by (metis list.set_intros)
qed

lemma evaluate_request_keeps:
  assumes "evaluate_request p s req = (po, req', s')" and "\<forall>t \<in> set p. destination_keeper t"
  shows "same_destination req req'"
  using request_loop_cases [OF evaluate_request_loop [OF assms(1)]] assms(2) continues_keeps stops_keeps
  by metis

lemma response_loop_forwards:
  "\<forall>t \<in> set p. destination_keeper t \<Longrightarrow>
   response_loop p s req traces =
    (\<lparr>ro_traces = traces @ map (\<lambda>t. mk_trace (tr_name t) TraceVerdict_Continue None []) p, ro_action = Forward\<rparr>, s)"
proof (induction p arbitrary: traces)
  case (Cons t p)
  have "on_response t s Ctx_default req = (Inr Verdict_Continue, Ctx_default, s)"
    using Cons.prems by (simp add: destination_keeper.response_continues)
  with Cons show ?case by (simp add: Ctx_default_def)
qed simp

section \<open>Traces\<close>

lemma request_loop_trace_names:
  "request_loop ts s req traces capture = (oc, traces', capture', req', s') \<Longrightarrow>
   \<exists>k. map t_name traces' = map t_name traces @ take k (map tr_name ts) \<and> (is_allowed oc \<longrightarrow> length ts \<le> k)"
proof (induction ts arbitrary: s req traces capture)
  case Nil
  then show ?case by auto
next
  case (Cons t ts)
  obtain r ctx rq1 s1 where o: "on_request t s Ctx_default req = (r, ctx, rq1, s1)"
    by (metis prod_cases4)
  show ?case
  proof (cases r rule: verdict_cases)
    case Continue
    let ?tr = "mk_trace (tr_name t) TraceVerdict_Continue None (cx_annotations ctx)"
    from Cons.prems o Continue obtain cap where
      "request_loop ts s1 rq1 (traces @ [?tr]) cap = (oc, traces', capture', req', s')"
      by (auto simp: Let_def)
    from Cons.IH [OF this] obtain k where
      "map t_name traces' = map t_name (traces @ [?tr]) @ take k (map tr_name ts)" "is_allowed oc \<longrightarrow> length ts \<le> k"
      by blast
    then show ?thesis by (intro exI [of _ "Suc k"]) (simp add: mk_trace_def)
  qed (use Cons.prems o in \<open>auto intro!: exI [of _ "Suc 0"] simp: mk_trace_def\<close>)
qed

section \<open>Properties\<close>

lemma continues_request_loop:
  "continues ts s req req' s' \<Longrightarrow>
   \<exists>traces' capture'. request_loop ts s req traces capture = (Outcome_Continue AllowProof, traces', capture', req', s')"
proof (induction arbitrary: traces capture rule: continues.induct)
  case (continues_Cons t s req ctx req' s' ts req'' s'')
  then show ?case by (simp add: Let_def)
qed simp

lemma continues_allowed:
  assumes "evaluate_request p s req = (po, req', s')" and "continues p s req rq st"
  shows "is_allowed (po_outcome po)"
  using continues_request_loop [OF assms(2), of "[]" None] evaluate_request_loop [OF assms(1)] by auto

text \<open>
  C2. A request is allowed exactly when every transform of the pipeline, run in order on the
  request its predecessors left, returned Continue; in every other case the run ends with
  the verdict of the first transform that did not. No error or rejection is ever turned
  into an allow.
\<close>

theorem evaluate_request_no_fail_open:
  assumes "evaluate_request p s req = (po, req', s')"
  shows "(is_allowed (po_outcome po) \<longleftrightarrow> continues p s req req' s') \<and>
    (\<not> is_allowed (po_outcome po) \<longrightarrow> stops p s req (po_outcome po) req' s')"
  using assms evaluate_request_continues [OF assms] continues_allowed [OF assms]
    request_loop_cases [OF evaluate_request_loop [OF assms]] by auto

theorem evaluate_request_no_fail_open_witness:
  "let t = \<lparr>tr_name = ''t'', on_request = (\<lambda>s ctx req. (Inr (Verdict_Reject None), ctx, req, s)),
            on_response = default_on_response\<rparr> :: unit transform;
       req = \<lparr>rq_mode = Http, rq_method = ''GET'', rq_host = ''h'', rq_port = 80, rq_path = ''/'', rq_query = [],
         rq_headers = [], rq_body = \<lparr>bd_bytes = [], bd_over_cap = False\<rparr>, rq_sni = None, rq_remote_addr = None\<rparr>
   in stops [t] () req (Outcome_Reject ''t'' None) req ()"
proof -
  define t :: "unit transform" where
    "t = \<lparr>tr_name = ''t'', on_request = (\<lambda>s ctx req. (Inr (Verdict_Reject None), ctx, req, s)),
            on_response = default_on_response\<rparr>"
  define req where
    "req = \<lparr>rq_mode = Http, rq_method = ''GET'', rq_host = ''h'', rq_port = 80, rq_path = ''/'', rq_query = [],
         rq_headers = [], rq_body = \<lparr>bd_bytes = [], bd_over_cap = False\<rparr>, rq_sni = None, rq_remote_addr = None\<rparr>"
  have e: "evaluate_request [t] () req =
    (\<lparr>po_outcome = Outcome_Reject ''t'' None,
      po_request_traces = [mk_trace ''t'' TraceVerdict_Reject None []],
      po_body_capture = None, po_request_path = ''/''\<rparr>, req, ())"
    by (simp add: evaluate_request_def t_def req_def Ctx_default_def)
  show ?thesis using evaluate_request_no_fail_open [OF e] by (simp add: t_def req_def)
qed

text \<open>
  The request-path traces name the transforms that ran, in pipeline order and without
  gaps; an allowed request has a trace for every transform. The path reported for the audit
  record is the one the client sent.
\<close>

theorem evaluate_request_traces:
  assumes "evaluate_request p s req = (po, req', s')"
  shows "prefix (map t_name (po_request_traces po)) (transform_names p) \<and>
    (is_allowed (po_outcome po) \<longrightarrow> map t_name (po_request_traces po) = transform_names p) \<and>
    po_request_path po = rq_path req"
  using request_loop_trace_names [OF evaluate_request_loop [OF assms]] evaluate_request_path [of p s req] assms
  by (auto simp: transform_names_def take_is_prefix)

theorem evaluate_request_traces_witness:
  "let t = \<lparr>tr_name = ''t'', on_request = (\<lambda>s ctx req. (Inr Verdict_Continue, ctx, req\<lparr>rq_path := ''/x''\<rparr>, s)),
            on_response = default_on_response\<rparr> :: unit transform;
       req = \<lparr>rq_mode = Http, rq_method = ''GET'', rq_host = ''h'', rq_port = 80, rq_path = ''/'', rq_query = [],
         rq_headers = [], rq_body = \<lparr>bd_bytes = [], bd_over_cap = False\<rparr>, rq_sni = None, rq_remote_addr = None\<rparr>
   in map t_name (po_request_traces (fst (evaluate_request [t, t] () req))) = [''t'', ''t''] \<and>
      po_request_path (fst (evaluate_request [t, t] () req)) = ''/''"
proof -
  define t :: "unit transform" where
    "t = \<lparr>tr_name = ''t'', on_request = (\<lambda>s ctx req. (Inr Verdict_Continue, ctx, req\<lparr>rq_path := ''/x''\<rparr>, s)),
            on_response = default_on_response\<rparr>"
  define req where
    "req = \<lparr>rq_mode = Http, rq_method = ''GET'', rq_host = ''h'', rq_port = 80, rq_path = ''/'', rq_query = [],
         rq_headers = [], rq_body = \<lparr>bd_bytes = [], bd_over_cap = False\<rparr>, rq_sni = None, rq_remote_addr = None\<rparr>"
  have e: "evaluate_request [t, t] () req =
    (\<lparr>po_outcome = Outcome_Continue AllowProof,
      po_request_traces = replicate 2 (mk_trace ''t'' TraceVerdict_Continue None []),
      po_body_capture = None, po_request_path = ''/''\<rparr>, req\<lparr>rq_path := ''/x''\<rparr>, ())"
    by (simp add: evaluate_request_def t_def req_def Ctx_default_def numeral_2_eq_2)
  show ?thesis
    using evaluate_request_traces [OF e] e
    by (simp add: t_def [symmetric] req_def [symmetric]) (simp add: transform_names_def t_def req_def)
qed

end
