(* ===== verification/Utf8.thy ===== *)
theory Utf8
  imports Rust_Str
begin

text \<open>
  UTF-8 validation and lossy decoding, as \<open>std::str::from_utf8\<close> and
  \<open>String::from_utf8_lossy\<close> do them: each maximal invalid sequence becomes one U+FFFD.
\<close>

definition cont_byte :: "byte \<Rightarrow> bool" where
  "cont_byte c \<longleftrightarrow> 0x80 \<le> code c \<and> code c \<le> 0xBF"

text \<open>The second byte of a three- or four-byte sequence, by the first.\<close>

definition second3 :: "byte \<Rightarrow> byte \<Rightarrow> bool" where
  "second3 b c \<longleftrightarrow>
     (if code b = 0xE0 then 0xA0 \<le> code c \<and> code c \<le> 0xBF
      else if code b = 0xED then 0x80 \<le> code c \<and> code c \<le> 0x9F
      else cont_byte c)"

definition second4 :: "byte \<Rightarrow> byte \<Rightarrow> bool" where
  "second4 b c \<longleftrightarrow>
     (if code b = 0xF0 then 0x90 \<le> code c \<and> code c \<le> 0xBF
      else if code b = 0xF4 then 0x80 \<le> code c \<and> code c \<le> 0x8F
      else cont_byte c)"

text \<open>
  Whether the buffer starts with a valid character, and how many bytes that character or
  the invalid sequence has.
\<close>

fun next_char :: "bytes \<Rightarrow> bool \<times> nat" where
  "next_char [] = (True, 0)"
| "next_char (b # bs) =
     (if code b < 0x80 then (True, 1)
      else if 0xC2 \<le> code b \<and> code b \<le> 0xDF then
        (case bs of [] \<Rightarrow> (False, 1) | c # _ \<Rightarrow> if cont_byte c then (True, 2) else (False, 1))
      else if 0xE0 \<le> code b \<and> code b \<le> 0xEF then
        (case bs of [] \<Rightarrow> (False, 1)
         | c # cs \<Rightarrow> if \<not> second3 b c then (False, 1)
             else (case cs of [] \<Rightarrow> (False, 2)
                   | d # _ \<Rightarrow> if cont_byte d then (True, 3) else (False, 2)))
      else if 0xF0 \<le> code b \<and> code b \<le> 0xF4 then
        (case bs of [] \<Rightarrow> (False, 1)
         | c # cs \<Rightarrow> if \<not> second4 b c then (False, 1)
             else (case cs of [] \<Rightarrow> (False, 2)
                   | d # ds \<Rightarrow> if \<not> cont_byte d then (False, 2)
                       else (case ds of [] \<Rightarrow> (False, 3)
                             | e # _ \<Rightarrow> if cont_byte e then (True, 4) else (False, 3))))
      else (False, 1))"

lemma next_char_pos: "bs \<noteq> [] \<Longrightarrow> 0 < snd (next_char bs)"
  by (cases bs) (simp_all split: list.split)

lemma next_char_len: "snd (next_char bs) \<le> length bs"
  by (cases bs) (simp_all split: list.split)

function utf8_valid :: "bytes \<Rightarrow> bool" where
  "utf8_valid bs =
     (if bs = [] then True
      else if fst (next_char bs) then utf8_valid (drop (snd (next_char bs)) bs) else False)"
  by pat_completeness auto
termination
  by (relation "measure length") (auto simp: next_char_pos)

definition replacement :: bytes where
  "replacement = [CHR 0xEF, CHR 0xBF, CHR 0xBD]"

function from_utf8_lossy :: "bytes \<Rightarrow> string" where
  "from_utf8_lossy bs =
     (if bs = [] then []
      else (if fst (next_char bs) then take (snd (next_char bs)) bs else replacement)
           @ from_utf8_lossy (drop (snd (next_char bs)) bs))"
  by pat_completeness auto
termination
  by (relation "measure length") (auto simp: next_char_pos)

declare utf8_valid.simps [simp del] from_utf8_lossy.simps [simp del]

definition from_utf8 :: "bytes \<Rightarrow> string option" where
  "from_utf8 bs = (if utf8_valid bs then Some bs else None)"

lemma utf8_valid_Nil [simp]: "utf8_valid []"
  by (simp add: utf8_valid.simps)

lemma from_utf8_lossy_Nil [simp]: "from_utf8_lossy [] = []"
  by (simp add: from_utf8_lossy.simps)

text \<open>A complete character is not affected by what follows it.\<close>

lemma next_char_append: "fst (next_char a) \<Longrightarrow> a \<noteq> [] \<Longrightarrow> next_char (a @ b) = next_char a"
  by (cases a; cases "tl a"; cases "tl (tl a)"; cases "tl (tl (tl a))")
    (simp_all split: if_split_asm)

lemma next_char_take: "fst (next_char a) \<Longrightarrow> next_char (take (snd (next_char a)) a) = next_char a"
  by (cases a; cases "tl a"; cases "tl (tl a)"; cases "tl (tl (tl a))")
    (simp_all split: if_split_asm)

lemma utf8_valid_append: "utf8_valid a \<Longrightarrow> utf8_valid (a @ b) \<longleftrightarrow> utf8_valid b"
proof (induction a rule: utf8_valid.induct)
  case (1 a)
  show ?case
  proof (cases "a = []")
    case False
    with "1.prems" have ok: "fst (next_char a)" "utf8_valid (drop (snd (next_char a)) a)"
      using utf8_valid.simps [of a] by (auto split: if_splits)
    have nc: "next_char (a @ b) = next_char a" using next_char_append ok(1) False by blast
    have d: "drop (snd (next_char a)) (a @ b) = drop (snd (next_char a)) a @ b"
      using next_char_len [of a] by simp
    from "1.IH" [OF False ok(1) ok(2)] ok(1) False d show ?thesis
      by (subst utf8_valid.simps) (simp add: nc)
  qed simp
qed

lemma utf8_valid_Cons_ascii: "code c < 0x80 \<Longrightarrow> utf8_valid (c # s) \<longleftrightarrow> utf8_valid s"
  by (subst utf8_valid.simps) simp

lemma utf8_valid_ascii: "\<forall>c \<in> set s. code c < 0x80 \<Longrightarrow> utf8_valid s"
  by (induction s) (auto simp: utf8_valid_Cons_ascii)

lemma utf8_valid_char: "fst (next_char bs) \<Longrightarrow> utf8_valid (take (snd (next_char bs)) bs)"
  using next_char_take [of bs] by (subst utf8_valid.simps) auto

lemma from_utf8_lossy_id: "utf8_valid bs \<Longrightarrow> from_utf8_lossy bs = bs"
proof (induction bs rule: utf8_valid.induct)
  case (1 bs)
  show ?case
  proof (cases "bs = []")
    case False
    with "1.prems" have ok: "fst (next_char bs)" "utf8_valid (drop (snd (next_char bs)) bs)"
      using utf8_valid.simps [of bs] by (auto split: if_splits)
    from "1.IH" [OF False ok(1) ok(2)] ok(1) False show ?thesis
      by (subst from_utf8_lossy.simps) simp
  qed simp
qed

lemma replacement_valid [simp]: "utf8_valid replacement"
  using utf8_valid_char [of replacement] by (simp add: replacement_def second3_def cont_byte_def)

lemma from_utf8_lossy_valid: "utf8_valid (from_utf8_lossy bs)"
proof (induction bs rule: from_utf8_lossy.induct)
  case (1 bs)
  show ?case
  proof (cases "bs = []")
    case False
    with "1" show ?thesis
      by (subst from_utf8_lossy.simps) (auto simp: utf8_valid_append utf8_valid_char)
  qed simp
qed

lemma from_utf8_lossy_iff: "from_utf8_lossy bs = bs \<longleftrightarrow> utf8_valid bs"
  by (metis from_utf8_lossy_id from_utf8_lossy_valid)

subsection \<open>Self-synchronisation\<close>

text \<open>
  No character starts with a continuation byte, so a valid buffer splits into valid parts
  at every other byte.
\<close>

lemma second_cont: "second3 b c \<Longrightarrow> cont_byte c" "second4 b c \<Longrightarrow> cont_byte c"
  by (auto simp: second3_def second4_def cont_byte_def split: if_splits)

lemma cont_not_ascii: "cont_byte c \<Longrightarrow> \<not> code c < 0x80"
  by (simp add: cont_byte_def)

lemma next_char_boundary:
  assumes "fst (next_char (a @ c # b))" and "\<not> cont_byte c" and "a \<noteq> []"
  shows "next_char (a @ c # b) = next_char a"
proof -
  have n: "\<not> second3 x c" "\<not> second4 x c" for x using assms(2) second_cont by blast+
  show ?thesis using assms(1,3)
    by (cases a; cases "tl a"; cases "tl (tl a)"; cases "tl (tl (tl a))")
      (simp_all add: n assms(2) split: if_split_asm)
qed

lemma utf8_valid_split:
  "utf8_valid (a @ c # b) \<Longrightarrow> \<not> cont_byte c \<Longrightarrow> utf8_valid a \<and> utf8_valid (c # b)"
proof (induction a rule: utf8_valid.induct)
  case (1 a)
  show ?case
  proof (cases "a = []")
    case False
    from "1.prems" have ok: "fst (next_char (a @ c # b))"
      using utf8_valid.simps [of "a @ c # b"] by (auto split: if_splits)
    have nc: "next_char (a @ c # b) = next_char a" using next_char_boundary ok "1.prems"(2) False by blast
    have d: "drop (snd (next_char a)) (a @ c # b) = drop (snd (next_char a)) a @ c # b"
      using next_char_len [of a] by simp
    from "1.prems"(1) ok have "utf8_valid (drop (snd (next_char a)) a @ c # b)"
      using utf8_valid.simps [of "a @ c # b"] by (simp add: nc d del: drop_append)
    from "1.IH" [OF False _ this "1.prems"(2)] ok nc False
    show ?thesis by (subst utf8_valid.simps) simp
  qed (use "1.prems" in simp)
qed

lemma utf8_valid_hd: "utf8_valid (c # s) \<Longrightarrow> \<not> cont_byte c"
  using utf8_valid.simps [of "c # s"] by (auto simp: cont_byte_def split: if_splits)

lemma utf8_valid_infix:
  assumes "utf8_valid (a @ n @ b)" and "utf8_valid n" and "n \<noteq> []"
  shows "utf8_valid a \<and> utf8_valid b"
proof -
  obtain c m where n: "n = c # m" using assms(3) by (cases n) auto
  with assms(2) have "\<not> cont_byte c" by (simp add: utf8_valid_hd)
  with assms(1) n have "utf8_valid a \<and> utf8_valid (n @ b)" using utf8_valid_split [of a c "m @ b"] by simp
  with assms(2) show ?thesis by (simp add: utf8_valid_append)
qed

lemma utf8_valid_pieces:
  assumes "utf8_valid n" and "n \<noteq> []"
  shows "utf8_valid (join_with n ps) \<longleftrightarrow> (\<forall>p \<in> set ps. utf8_valid p)"
  using assms
proof (induction n ps rule: join_with.induct)
  case (3 n x y ys)
  have "utf8_valid (x @ n @ r) \<longleftrightarrow> utf8_valid x \<and> utf8_valid r" for r
    using utf8_valid_infix [of x n r] 3 by (auto simp: utf8_valid_append)
  with 3 show ?case by simp
qed simp_all

end
