(* ===== verification/Transforms.thy ===== *)
theory Transforms
  imports Pipeline Utf8
begin

text \<open>
  The policy transforms of \<open>crates/hematite-kernel/src/transforms.rs\<close>: the default-deny
  destination filter, the header annotation, the default-deny header filter and the body
  capture. Each has its configuration record, its request method and the boxed transform
  the pipeline holds; the transform contracts of the pipeline are interpreted on them.
\<close>

section \<open>Definitions\<close>

record allowlist =
  al_domains :: "domain_glob list"
  al_cidrs :: "cidr list"
  al_warn :: bool

definition host_allowed :: "allowlist \<Rightarrow> string \<Rightarrow> bool" where
  "host_allowed a host \<longleftrightarrow>
    list_ex (\<lambda>g. DomainGlob_matches g host) (al_domains a) \<or> list_ex (\<lambda>c. Cidr_matches_host c host) (al_cidrs a)"

definition Allowlist_on_request :: "allowlist \<Rightarrow> 's on_request" where
  "Allowlist_on_request a s ctx req =
    (if host_allowed a (rq_host req) then (Inr Verdict_Continue, ctx, req, s)
     else if al_warn a then (Inr Verdict_Continue, annotate ''warn'' (JBool True) ctx, req, s)
     else (Inr (Verdict_Reject None), ctx, req, s))"

definition Allowlist :: "allowlist \<Rightarrow> 's transform" where
  "Allowlist a = \<lparr>tr_name = ''allowlist'', on_request = Allowlist_on_request a, on_response = default_on_response\<rparr>"

record annotate_group =
  ag_rules :: "rule list"
  ag_headers :: "string list"

definition header_key :: "string \<Rightarrow> string" where
  "header_key name = ''header:'' @ canonical_name name"

fun annotate_headers ::
  "headers \<Rightarrow> string list \<Rightarrow> ctx \<Rightarrow> ctx" where
  "annotate_headers hs [] ctx = ctx"
| "annotate_headers hs (name # names) ctx =
    annotate_headers hs names
      (case Headers_first hs name of
         Some v \<Rightarrow> annotate (header_key name) (JString v) ctx
       | None \<Rightarrow> ctx)"

fun annotate_groups :: "annotate_group list \<Rightarrow> request_summary \<Rightarrow> ctx \<Rightarrow> ctx" where
  "annotate_groups [] req ctx = ctx"
| "annotate_groups (g # gs) req ctx =
    annotate_groups gs req
      (if any_rule_matches (ag_rules g) (rq_host req) (rq_method req) (rq_path req)
       then annotate_headers (rq_headers req) (ag_headers g) ctx else ctx)"

definition Annotate_on_request :: "annotate_group list \<Rightarrow> 's on_request" where
  "Annotate_on_request groups s ctx req = (Inr Verdict_Continue, annotate_groups groups req ctx, req, s)"

definition Annotate :: "annotate_group list \<Rightarrow> 's transform" where
  "Annotate groups =
    \<lparr>tr_name = ''annotate'', on_request = Annotate_on_request groups, on_response = default_on_response\<rparr>"

record header_allowlist =
  ha_entries :: "header_name_entry list"
  ha_rules :: "rule list option"

definition header_kept :: "header_allowlist \<Rightarrow> string \<Rightarrow> bool" where
  "header_kept h name \<longleftrightarrow> list_ex (\<lambda>e. HeaderNameEntry_matches e name) (ha_entries h)"

definition HeaderAllowlist_on_request :: "header_allowlist \<Rightarrow> 's on_request" where
  "HeaderAllowlist_on_request h s ctx req =
    (if (case ha_rules h of
           Some rules \<Rightarrow> \<not> any_rule_matches rules (rq_host req) (rq_method req) (rq_path req)
         | None \<Rightarrow> False)
     then (Inr Verdict_Continue, ctx, req, s)
     else
       (let (kept, removed) = Headers_retain (header_kept h) (rq_headers req);
            ctx' = (if removed \<noteq> []
                    then annotate ''stripped_headers'' (json_strings (remdups_adj (sort removed))) ctx
                    else ctx)
        in (Inr Verdict_Continue, ctx', req\<lparr>rq_headers := kept\<rparr>, s)))"

definition HeaderAllowlist :: "header_allowlist \<Rightarrow> 's transform" where
  "HeaderAllowlist h =
    \<lparr>tr_name = ''header_allowlist'', on_request = HeaderAllowlist_on_request h, on_response = default_on_response\<rparr>"

record body_capture_transform =
  bt_max_request_body_bytes :: nat
  bt_rules :: "rule list"

definition BodyCapture_on_request :: "body_capture_transform \<Rightarrow> 's on_request" where
  "BodyCapture_on_request b s ctx req =
    (if \<not> any_rule_matches (bt_rules b) (rq_host req) (rq_method req) (rq_path req)
     then (Inr Verdict_Continue, ctx, req, s)
     else
       (let bs = bd_bytes (rq_body req);
            cap = min (bt_max_request_body_bytes b) (length bs);
            truncated = (bt_max_request_body_bytes b < length bs \<or> bd_over_cap (rq_body req));
            ctx1 = annotate ''captured_bytes'' (JNumber cap) ctx;
            ctx2 = annotate ''truncated'' (JBool truncated) ctx1;
            ctx3 = set_body_capture
              \<lparr>bc_request_body = from_utf8_lossy (take cap bs), bc_request_body_truncated = truncated\<rparr> ctx2
        in (Inr Verdict_Continue, ctx3, req, s)))"

definition BodyCaptureTransform :: "body_capture_transform \<Rightarrow> 's transform" where
  "BodyCaptureTransform b =
    \<lparr>tr_name = ''body_capture'', on_request = BodyCapture_on_request b, on_response = default_on_response\<rparr>"

section \<open>The contracts\<close>

lemma annotate_simps [simp]:
  "cx_body_capture (annotate k v ctx) = cx_body_capture ctx"
  "map_of (cx_annotations (annotate k v ctx)) = (map_of (cx_annotations ctx))(k \<mapsto> v)"
  by (simp_all add: annotate_def map_of_map_insert)

interpretation annotate: observer "Annotate groups" for groups
  by unfold_locales (simp_all add: Annotate_def Annotate_on_request_def)

interpretation body_capture: observer "BodyCaptureTransform b" for b
  by unfold_locales (simp_all add: BodyCaptureTransform_def BodyCapture_on_request_def Let_def)

interpretation allowlist: destination_keeper "Allowlist a" for a
  by unfold_locales
    (auto simp: Allowlist_def Allowlist_on_request_def default_on_response_def split: if_splits)

interpretation header_allowlist: destination_keeper "HeaderAllowlist h" for h
  by unfold_locales
    (auto simp: HeaderAllowlist_def HeaderAllowlist_on_request_def default_on_response_def Let_def
        same_destination_def split: if_splits prod.splits option.splits)

section \<open>Behaviour\<close>

lemma Allowlist_continue_iff:
  "(\<exists>ctx' req' s'. on_request (Allowlist a) s ctx req = (Inr Verdict_Continue, ctx', req', s')) \<longleftrightarrow>
    host_allowed a (rq_host req) \<or> al_warn a"
  by (simp add: Allowlist_def Allowlist_on_request_def)

lemma continues_member:
  assumes "continues (as @ t # bs) s req req' s'"
  obtains rq st rq' st' ctx where "continues as s req rq st"
    "on_request t st Ctx_default rq = (Inr Verdict_Continue, ctx, rq', st')" "continues bs st' rq' req' s'"
  using assms unfolding continues_append by (auto elim: continues_ConsE)

lemma allowlist_guards:
  assumes "evaluate_request p s req = (po, req', s')" and "is_allowed (po_outcome po)"
    and "\<forall>t \<in> set p. destination_keeper t" and "Allowlist a \<in> set p" and "\<not> al_warn a"
  shows "host_allowed a (rq_host req)"
proof -
  from assms(4) obtain as bs where p: "p = as @ Allowlist a # bs" by (meson split_list)
  from evaluate_request_continues [OF assms(1,2)] obtain rq st rq' st' ctx where
    c: "continues as s req rq st" "on_request (Allowlist a) st Ctx_default rq = (Inr Verdict_Continue, ctx, rq', st')"
    unfolding p by (elim continues_member)
  have "rq_host rq = rq_host req"
    using continues_keeps [OF c(1)] assms(3) p by (simp add: same_destination_def)
  with c(2) assms(5) show ?thesis
    using Allowlist_continue_iff [of a st Ctx_default rq] by auto
qed

lemma distinct_remdups_adj_sorted: "sorted xs \<Longrightarrow> distinct (remdups_adj xs)"
  by (induction xs rule: remdups_adj.induct) auto

lemma remdups_adj_sort_set: "set (remdups_adj (sort xs)) = set xs" "sorted (remdups_adj (sort xs))"
  "distinct (remdups_adj (sort xs))"
  by (simp_all add: distinct_remdups_adj_sorted)

lemma annotate_headers_other:
  "k \<notin> header_key ` set names \<Longrightarrow>
   map_of (cx_annotations (annotate_headers hs names ctx)) k = map_of (cx_annotations ctx) k"
  by (induction hs names ctx rule: annotate_headers.induct) (auto split: option.splits)

lemma annotate_headers_value:
  assumes "map_of (cx_annotations (annotate_headers hs names ctx)) k = Some v"
    and "map_of (cx_annotations ctx) k \<noteq> Some v"
  shows "\<exists>name \<in> set names. \<exists>w. k = header_key name \<and> Headers_first hs name = Some w \<and> v = JString w"
  using assms
proof (induction hs names ctx rule: annotate_headers.induct)
  case (2 hs name names ctx)
  show ?case
  proof (cases "Headers_first hs name")
    case None
    with 2 show ?thesis by auto
  next
    case (Some w)
    show ?thesis
    proof (cases "k = header_key name \<and> v = JString w")
      case True
      with Some show ?thesis by auto
    next
      case False
      then have "map_of (cx_annotations (annotate (header_key name) (JString w) ctx)) k \<noteq> Some v"
        using "2.prems"(2) by auto
      with 2 Some show ?thesis by auto
    qed
  qed
qed simp

section \<open>Properties\<close>

definition filter_applies :: "header_allowlist \<Rightarrow> request_summary \<Rightarrow> bool" where
  "filter_applies h req \<longleftrightarrow>
    (case ha_rules h of None \<Rightarrow> True | Some rules \<Rightarrow> any_rule_matches rules (rq_host req) (rq_method req) (rq_path req))"

text \<open>
  The header filter always continues; where it applies it forwards exactly the headers
  with an allowed name, values and order untouched, and reports the canonical names of the
  others, sorted and without duplicates; where it does not apply it changes nothing.
\<close>

theorem header_allowlist_correct:
  assumes "on_request (HeaderAllowlist h) s ctx req = (r, ctx', req', s')"
  shows "r = Inr Verdict_Continue \<and> s' = s \<and>
    req' = (if filter_applies h req
            then req\<lparr>rq_headers := filter (\<lambda>(n, v). header_kept h n) (rq_headers req)\<rparr> else req) \<and>
    (let gone = {n \<in> fst ` set (rq_headers req). \<not> header_kept h n} in
     if filter_applies h req \<and> gone \<noteq> {}
     then \<exists>ns. map_of (cx_annotations ctx') = (map_of (cx_annotations ctx))(''stripped_headers'' \<mapsto> json_strings ns) \<and>
            sorted ns \<and> distinct ns \<and> set ns = canonical_name ` gone
     else ctx' = ctx)"
proof (cases "filter_applies h req")
  case False
  with assms show ?thesis
    by (auto simp: HeaderAllowlist_def HeaderAllowlist_on_request_def filter_applies_def split: option.splits)
next
  case True
  define removed where "removed = snd (Headers_retain (header_kept h) (rq_headers req))"
  define gone where "gone = {n \<in> fst ` set (rq_headers req). \<not> header_kept h n}"
  have "\<not> (case ha_rules h of
           Some rules \<Rightarrow> \<not> any_rule_matches rules (rq_host req) (rq_method req) (rq_path req) | None \<Rightarrow> False)"
    using True by (simp add: filter_applies_def split: option.splits)
  then have eq: "r = Inr Verdict_Continue \<and> s' = s \<and>
      req' = req\<lparr>rq_headers := filter (\<lambda>(n, v). header_kept h n) (rq_headers req)\<rparr> \<and>
      ctx' = (if removed \<noteq> [] then annotate ''stripped_headers'' (json_strings (remdups_adj (sort removed))) ctx else ctx)"
    using assms by (auto simp: HeaderAllowlist_def HeaderAllowlist_on_request_def removed_def Headers_retain_def Let_def)
  have set: "set removed = canonical_name ` gone"
    unfolding removed_def gone_def by (rule Headers_retain_iff)
  then have "removed = [] \<longleftrightarrow> gone = {}" by (metis image_is_empty set_empty)
  with True eq set remdups_adj_sort_set [of removed] show ?thesis
    unfolding gone_def [symmetric] Let_def
    by (auto intro!: exI [of _ "remdups_adj (sort removed)"])
qed

theorem header_allowlist_correct_witness:
  "let h = \<lparr>ha_entries = [Literal ''accept''], ha_rules = None\<rparr>;
       req = \<lparr>rq_mode = Http, rq_method = ''GET'', rq_host = ''h'', rq_port = 80, rq_path = ''/'', rq_query = [],
         rq_headers = [(''Accept'', ''a''), (''x-b'', ''1''), (''X-B'', ''2'')],
         rq_body = \<lparr>bd_bytes = [], bd_over_cap = False\<rparr>, rq_sni = None, rq_remote_addr = None\<rparr>
   in (case on_request (HeaderAllowlist h) () Ctx_default req of
         (r, ctx', req', _) \<Rightarrow> r = Inr Verdict_Continue \<and> rq_headers req' = [(''Accept'', ''a'')])"
proof -
  define h where "h = \<lparr>ha_entries = [Literal ''accept''], ha_rules = None\<rparr>"
  define req where "req = \<lparr>rq_mode = Http, rq_method = ''GET'', rq_host = ''h'', rq_port = 80, rq_path = ''/'', rq_query = [],
         rq_headers = [(''Accept'', ''a''), (''x-b'', ''1''), (''X-B'', ''2'')],
         rq_body = \<lparr>bd_bytes = [], bd_over_cap = False\<rparr>, rq_sni = None, rq_remote_addr = None\<rparr>"
  obtain r ctx' req' s' where e: "on_request (HeaderAllowlist h) () Ctx_default req = (r, ctx', req', s')"
    by (metis prod_cases4)
  have "filter (\<lambda>(n, v). header_kept h n) (rq_headers req) = [(''Accept'', ''a'')]"
    unfolding h_def req_def by code_simp
  then show ?thesis
    using header_allowlist_correct [OF e] e unfolding h_def [symmetric] req_def [symmetric]
    by (simp add: filter_applies_def h_def)
qed

text \<open>
  The body capture observes: the request goes on unchanged. Where a rule matches, the
  record gets the decoded first bytes of the body, at most as many as the capture cap, and
  it is marked truncated exactly when bytes are missing: the body is longer than the cap or
  was already cut by the listener. A body within the caps that is valid UTF-8 is recorded
  as it is.
\<close>

theorem body_capture_correct:
  assumes "any_rule_matches (bt_rules b) (rq_host req) (rq_method req) (rq_path req)"
  shows "\<exists>ctx' capture.
    on_request (BodyCaptureTransform b) s ctx req = (Inr Verdict_Continue, ctx', req, s) \<and>
    cx_body_capture ctx' = Some capture \<and>
    bc_request_body capture = from_utf8_lossy (take (bt_max_request_body_bytes b) (bd_bytes (rq_body req))) \<and>
    (bc_request_body_truncated capture \<longleftrightarrow>
      bt_max_request_body_bytes b < length (bd_bytes (rq_body req)) \<or> bd_over_cap (rq_body req)) \<and>
    (\<not> bc_request_body_truncated capture \<and> utf8_valid (bd_bytes (rq_body req)) \<longrightarrow>
      bc_request_body capture = bd_bytes (rq_body req)) \<and>
    map_of (cx_annotations ctx') ''captured_bytes'' =
      Some (JNumber (min (bt_max_request_body_bytes b) (length (bd_bytes (rq_body req)))))"
proof -
  have "take (min k (length xs)) xs = take k xs" for k and xs :: bytes by (simp add: min_def)
  then show ?thesis using assms
    by (auto simp: BodyCaptureTransform_def BodyCapture_on_request_def Let_def set_body_capture_def
        annotate_def map_of_map_insert from_utf8_lossy_id)
qed

theorem body_capture_correct_witness:
  "let b = \<lparr>bt_max_request_body_bytes = 2,
            bt_rules = [\<lparr>rl_host = Glob \<lparr>dg_suffix = ''h'', dg_wildcard = False\<rparr>, rl_methods = None, rl_paths = None\<rparr>]\<rparr>;
       req = \<lparr>rq_mode = Http, rq_method = ''GET'', rq_host = ''h'', rq_port = 80, rq_path = ''/'', rq_query = [],
         rq_headers = [], rq_body = \<lparr>bd_bytes = ''abc'', bd_over_cap = False\<rparr>, rq_sni = None, rq_remote_addr = None\<rparr>
   in any_rule_matches (bt_rules b) (rq_host req) (rq_method req) (rq_path req) \<and>
      (\<exists>ctx' capture. on_request (BodyCaptureTransform b) () Ctx_default req = (Inr Verdict_Continue, ctx', req, ()) \<and>
         cx_body_capture ctx' = Some capture \<and> bc_request_body_truncated capture)"
proof -
  define b where "b = \<lparr>bt_max_request_body_bytes = 2,
    bt_rules = [\<lparr>rl_host = Glob \<lparr>dg_suffix = ''h'', dg_wildcard = False\<rparr>, rl_methods = None, rl_paths = None\<rparr>]\<rparr>"
  define req where "req = \<lparr>rq_mode = Http, rq_method = ''GET'', rq_host = ''h'', rq_port = 80, rq_path = ''/'', rq_query = [],
         rq_headers = [], rq_body = \<lparr>bd_bytes = ''abc'', bd_over_cap = False\<rparr>, rq_sni = None, rq_remote_addr = None\<rparr>"
  have m: "any_rule_matches (bt_rules b) (rq_host req) (rq_method req) (rq_path req)"
    unfolding b_def req_def by code_simp
  have "bt_max_request_body_bytes b < length (bd_bytes (rq_body req))" by (simp add: b_def req_def)
  with m body_capture_correct [OF m, of "()" Ctx_default]
  show ?thesis unfolding b_def [symmetric] req_def [symmetric] Let_def by blast
qed

end
