(* ===== verification/Codec.thy ===== *)
theory Codec
  imports Rust_Str
begin

text \<open>
  The byte codecs of \<open>crates/hematite-kernel/src/codec.rs\<close>: base64 for \<open>Authorization: Basic\<close>,
  percent-encoding for query and path substitution, and the byte-level replace-all of the
  swap engine. Base64 and percent-encoding are interpreted as codecs; \<open>replace_all\<close> is
  characterised by the leftmost non-overlapping decomposition of the haystack.
\<close>

section \<open>Base64\<close>

definition B64 :: string where
  "B64 = ''ABCDEFGHIJKLMNOPQRSTUVWXYZabcdefghijklmnopqrstuvwxyz0123456789+/''"

definition b64_char :: "u32 \<Rightarrow> byte" where
  "b64_char n = B64 ! unat (n AND 0x3f)"

definition enc_chunk :: "byte list \<Rightarrow> string" where
  "enc_chunk chunk =
    (let b0 = chunk ! 0;
         b1 = if 1 < length chunk then chunk ! 1 else CHR 0x00;
         b2 = if 2 < length chunk then chunk ! 2 else CHR 0x00;
         n = push_bit 16 (word_of b0) OR push_bit 8 (word_of b1) OR word_of b2
     in [b64_char (drop_bit 18 n),
         b64_char (drop_bit 12 n),
         if 1 < length chunk then b64_char (drop_bit 6 n) else CHR ''='',
         if 2 < length chunk then b64_char n else CHR ''=''])"

definition base64_encode :: "byte list \<Rightarrow> string" where
  "base64_encode input = concat (map enc_chunk (chunks 3 input))"

text \<open>The closure \<open>val\<close> of \<open>base64_decode\<close>.\<close>

definition b64_val :: "byte \<Rightarrow> u32 option" where
  "b64_val c =
    (if is_upper c then Some (word_of c - 65)
     else if is_lower c then Some (word_of c - 97 + 26)
     else if is_digit c then Some (word_of c - 48 + 52)
     else if c = CHR ''+'' then Some 62
     else if c = CHR ''/'' then Some 63
     else None)"

text \<open>The inner loop over the four characters of a chunk.\<close>

fun dec_chars :: "nat \<Rightarrow> u32 \<Rightarrow> string \<Rightarrow> u32 option" where
  "dec_chars i n [] = Some n"
| "dec_chars i n (c # cs) =
    (case (if c = CHR ''='' then Some 0 else b64_val c) of
       None \<Rightarrow> None
     | Some v \<Rightarrow>
         if c = CHR ''='' \<and> i < 2 then None
         else dec_chars (i + 1) (n OR push_bit (18 - 6 * i) v) cs)"

definition dec_chunk :: "string \<Rightarrow> byte list option" where
  "dec_chunk chunk =
    (let pad = length (filter (\<lambda>c. c = CHR ''='') chunk)
     in if 2 < pad then None
        else case dec_chars 0 0 chunk of
               None \<Rightarrow> None
             | Some n \<Rightarrow>
                 Some ([byte_of (drop_bit 16 n AND 0xff)]
                   @ (if pad < 2 then [byte_of (drop_bit 8 n AND 0xff)] else [])
                   @ (if pad < 1 then [byte_of (n AND 0xff)] else [])))"

fun dec_chunks :: "string list \<Rightarrow> byte list option" where
  "dec_chunks [] = Some []"
| "dec_chunks (c # cs) =
    (case dec_chunk c of
       None \<Rightarrow> None
     | Some bs \<Rightarrow> map_option ((@) bs) (dec_chunks cs))"

definition base64_decode :: "string \<Rightarrow> byte list option" where
  "base64_decode input =
    (let bytes = trim input
     in if bytes = [] then Some []
        else if length bytes mod 4 \<noteq> 0 then None
        else dec_chunks (chunks 4 bytes))"

section \<open>Percent-encoding\<close>

definition unreserved :: "byte \<Rightarrow> bool" where
  "unreserved b \<longleftrightarrow> is_alnum b \<or> b \<in> {CHR ''-'', CHR ''.'', CHR ''_'', CHR ''~''}"

definition percent_byte :: "byte \<Rightarrow> string" where
  "percent_byte b =
    (if unreserved b then [b]
     else [CHR ''%'', upper_char (digit_char (code b div 16)), upper_char (digit_char (code b mod 16))])"

definition percent_encode :: "byte list \<Rightarrow> string" where
  "percent_encode bytes = concat (map percent_byte bytes)"

text \<open>The decoder an upstream applies (RFC 3986): an escape is a byte, the rest is kept.\<close>

fun percent_decode :: "string \<Rightarrow> byte list option" where
  "percent_decode [] = Some []"
| "percent_decode (c # cs) =
    (if c = CHR ''%'' then
       case cs of
         h # l # rest \<Rightarrow>
           (case (to_digit 16 h, to_digit 16 l) of
              (Some a, Some b) \<Rightarrow> map_option ((#) (char_of (16 * a + b))) (percent_decode rest)
            | _ \<Rightarrow> None)
       | _ \<Rightarrow> None
     else map_option ((#) c) (percent_decode cs))"

section \<open>Replace-all\<close>

text \<open>The \<open>while\<close> loop on the rest of the haystack, for a non-empty needle.\<close>

function replace_loop :: "byte list \<Rightarrow> byte list \<Rightarrow> byte list \<Rightarrow> byte list \<times> nat" where
  "replace_loop needle repl hay =
    (if hay = [] \<or> needle = [] then ([], 0)
     else if prefix needle hay then
       (let (out, count) = replace_loop needle repl (drop (length needle) hay)
        in (repl @ out, count + 1))
     else
       (let (out, count) = replace_loop needle repl (tl hay)
        in (hd hay # out, count)))"
  by pat_completeness auto
termination
  by (relation "measure (\<lambda>(needle, repl, hay). length hay)") (auto simp: prefix_length_le length_greater_0_conv)

declare replace_loop.simps [simp del]

definition replace_all :: "byte list \<Rightarrow> byte list \<Rightarrow> byte list \<Rightarrow> byte list \<times> nat" where
  "replace_all haystack needle replacement =
    (if needle = [] then (haystack, 0) else replace_loop needle replacement haystack)"

section \<open>Correctness of base64\<close>

lemma and_mask:
  "x AND 0x3f = take_bit 6 (x :: u32)" "x AND 0xff = take_bit 8 (x :: u32)"
  by (simp_all add: take_bit_eq_mask mask_numeral)

lemma b64_val_B64: "map b64_val B64 = map (Some \<circ> of_nat) [0..<64]"
  by (simp add: B64_def b64_val_def is_upper_def is_lower_def is_digit_def word_of_def upt_rec)

lemma B64_chars: "c \<in> set B64 \<Longrightarrow> c \<noteq> CHR ''='' \<and> printable c"
  by (auto simp: B64_def printable_def)

lemma b64_val_nth:
  assumes "k < 64"
  shows "b64_val (B64 ! k) = Some (of_nat k) \<and> B64 ! k \<noteq> CHR ''='' \<and> printable (B64 ! k)"
proof -
  have len: "length B64 = 64" by (simp add: B64_def)
  have "b64_val (B64 ! k) = map b64_val B64 ! k" using assms len by simp
  also have "\<dots> = Some (of_nat k)" using assms unfolding b64_val_B64 by simp
  finally show ?thesis using B64_chars [of "B64 ! k"] assms len by simp
qed

lemma b64_char_props [simp]:
  "b64_val (b64_char n) = Some (take_bit 6 n)" "b64_char n \<noteq> CHR ''=''" "printable (b64_char n)"
proof -
  have "unat (take_bit 6 n) < 64"
    by (simp only: unsigned_take_bit_eq) (simp add: take_bit_eq_mod)
  from b64_val_nth [OF this]
  show "b64_val (b64_char n) = Some (take_bit 6 n)" "b64_char n \<noteq> CHR ''=''" "printable (b64_char n)"
    by (simp_all add: b64_char_def and_mask)
qed

lemma sextets_octets:
  fixes n :: u32
  defines "s3 \<equiv> push_bit 18 (take_bit 6 (drop_bit 18 n))" and "s2 \<equiv> push_bit 12 (take_bit 6 (drop_bit 12 n))"
    and "s1 \<equiv> push_bit 6 (take_bit 6 (drop_bit 6 n))"
  shows "take_bit 8 (drop_bit 16 (s3 OR s2)) = take_bit 8 (drop_bit 16 n)"
    and "take_bit 8 (drop_bit 16 (s3 OR s2 OR s1)) = take_bit 8 (drop_bit 16 n)"
    and "take_bit 8 (drop_bit 16 (s3 OR s2 OR s1 OR take_bit 6 n)) = take_bit 8 (drop_bit 16 n)"
    and "take_bit 8 (drop_bit 8 (s3 OR s2 OR s1)) = take_bit 8 (drop_bit 8 n)"
    and "take_bit 8 (drop_bit 8 (s3 OR s2 OR s1 OR take_bit 6 n)) = take_bit 8 (drop_bit 8 n)"
    and "take_bit 8 (s3 OR s2 OR s1 OR take_bit 6 n) = take_bit 8 n"
  unfolding s3_def s2_def s1_def
  by (rule bit_eqI; auto simp: bit_simps not_le not_less le_diff_conv less_diff_conv2)+

lemma dec_chunk_full:
  "dec_chunk [b64_char (drop_bit 18 n), b64_char (drop_bit 12 n), b64_char (drop_bit 6 n), b64_char n] =
    Some [byte_of (take_bit 8 (drop_bit 16 n)), byte_of (take_bit 8 (drop_bit 8 n)), byte_of (take_bit 8 n)]"
  using sextets_octets [of n]
  by (simp add: dec_chunk_def and_mask or.assoc del: take_bit_or drop_bit_or)

lemma dec_chunk_pad1:
  "dec_chunk [b64_char (drop_bit 18 n), b64_char (drop_bit 12 n), b64_char (drop_bit 6 n), CHR ''=''] =
    Some [byte_of (take_bit 8 (drop_bit 16 n)), byte_of (take_bit 8 (drop_bit 8 n))]"
  using sextets_octets [of n]
  by (simp add: dec_chunk_def and_mask or.assoc del: take_bit_or drop_bit_or)

lemma dec_chunk_pad2:
  "dec_chunk [b64_char (drop_bit 18 n), b64_char (drop_bit 12 n), CHR ''='', CHR ''=''] =
    Some [byte_of (take_bit 8 (drop_bit 16 n))]"
  using sextets_octets [of n]
  by (simp add: dec_chunk_def and_mask or.assoc del: take_bit_or drop_bit_or)

lemma octets_of:
  fixes a b c :: byte
  defines "n \<equiv> push_bit 16 (word_of a) OR push_bit 8 (word_of b) OR (word_of c :: u32)"
  shows "byte_of (take_bit 8 (drop_bit 16 n)) = a"
    and "byte_of (take_bit 8 (drop_bit 8 n)) = b"
    and "byte_of (take_bit 8 n) = c"
proof -
  have "take_bit 8 (drop_bit 16 n) = word_of a" "take_bit 8 (drop_bit 8 n) = word_of b"
    "take_bit 8 n = word_of c"
    unfolding n_def by (rule bit_eqI; auto simp: bit_simps dest: bit_byte_lt)+
  then show "byte_of (take_bit 8 (drop_bit 16 n)) = a"
    "byte_of (take_bit 8 (drop_bit 8 n)) = b" "byte_of (take_bit 8 n) = c"
    by simp_all
qed

lemma dec_enc_chunk:
  assumes "0 < length c" and "length c \<le> 3"
  shows "dec_chunk (enc_chunk c) = Some c"
proof -
  consider (one) a where "c = [a]" | (two) a b where "c = [a, b]" | (three) a b d where "c = [a, b, d]"
    using assms by (cases c; cases "tl c"; cases "tl (tl c)") auto
  then show ?thesis
    by cases (simp_all add: enc_chunk_def Let_def dec_chunk_full dec_chunk_pad1 dec_chunk_pad2 octets_of
        del: take_bit_or drop_bit_or)
qed

lemma enc_chunk_shape: "length (enc_chunk c) = 4" "\<forall>x \<in> set (enc_chunk c). printable x"
  by (simp_all add: enc_chunk_def Let_def) (simp add: printable_def)

lemma dec_chunks_enc:
  "\<forall>c \<in> set cs. 0 < length c \<and> length c \<le> 3 \<Longrightarrow> dec_chunks (map enc_chunk cs) = Some (concat cs)"
  by (induction cs) (simp_all add: dec_enc_chunk)

lemma base64_encode_printable: "\<forall>c \<in> set (base64_encode bs). printable c"
  using enc_chunk_shape(2) by (auto simp: base64_encode_def)

lemma length_base64_encode: "length (base64_encode bs) = 4 * length (chunks 3 bs)"
  by (simp add: base64_encode_def length_concat comp_def enc_chunk_shape(1) sum_list_triv)

lemma base64_decode_encode: "base64_decode (base64_encode bs) = Some bs"
proof -
  have "chunks 4 (base64_encode bs) = map enc_chunk (chunks 3 bs)"
    unfolding base64_encode_def by (rule chunks_concat) (auto simp: enc_chunk_shape)
  moreover have "dec_chunks (map enc_chunk (chunks 3 bs)) = Some bs"
    using dec_chunks_enc [of "chunks 3 bs"] chunks_part [of 3 _ bs] by (simp add: concat_chunks)
  ultimately show ?thesis
    using length_base64_encode [of bs]
    by (auto simp: base64_decode_def Let_def trim_printable [OF base64_encode_printable])
qed

section \<open>Correctness of percent-encoding\<close>

lemma hex_digit_upper: "d < 16 \<Longrightarrow> to_digit 16 (upper_char (digit_char d)) = Some d"
proof -
  have "list_all (\<lambda>d. to_digit 16 (upper_char (digit_char d)) = Some d) [0..<16]" by code_simp
  then show "d < 16 \<Longrightarrow> ?thesis" by (simp add: list_all_iff)
qed

lemma unreserved_percent: "\<not> unreserved CHR ''%''"
  by code_simp

lemma percent_decode_byte:
  "percent_decode (percent_byte b @ s) = map_option ((#) b) (percent_decode s)"
proof (cases "unreserved b")
  case True
  with unreserved_percent have "b \<noteq> CHR ''%''" by blast
  with True show ?thesis by (simp add: percent_byte_def)
next
  case False
  have "code b div 16 < 16" using code_less [of b] by (simp add: less_mult_imp_div_less)
  moreover have "16 * (code b div 16) + code b mod 16 = code b" by simp
  ultimately show ?thesis using False by (simp add: percent_byte_def hex_digit_upper)
qed

lemma percent_decode_encode: "percent_decode (percent_encode bs) = Some bs"
  by (induction bs) (simp_all add: percent_encode_def percent_decode_byte)

text \<open>What can occur in an encoded string: no delimiter of a URL does.\<close>

definition pct_char :: "byte \<Rightarrow> bool" where
  "pct_char c \<longleftrightarrow> unreserved c \<or> c = CHR ''%''"

lemma upper_digit_unreserved: "d < 16 \<Longrightarrow> unreserved (upper_char (digit_char d))"
proof -
  have "list_all (\<lambda>d. unreserved (upper_char (digit_char d))) [0..<16]" by code_simp
  then show "d < 16 \<Longrightarrow> ?thesis" by (simp add: list_all_iff)
qed

lemma percent_encode_chars: "\<forall>c \<in> set (percent_encode bs). pct_char c"
proof -
  have "\<forall>c \<in> set (percent_byte b). pct_char c" for b
  proof -
    have "code b div 16 < 16" using code_less [of b] by (simp add: less_mult_imp_div_less)
    then show ?thesis by (simp add: percent_byte_def pct_char_def upper_digit_unreserved)
  qed
  then show ?thesis by (auto simp: percent_encode_def)
qed

interpretation b64: codec base64_encode base64_decode
  by unfold_locales (rule base64_decode_encode)

interpretation pct: codec percent_encode percent_decode
  by unfold_locales (rule percent_decode_encode)

section \<open>Correctness of replace-all\<close>

text \<open>
  The pieces between the leftmost non-overlapping occurrences of the needle: in every piece
  but the last the first occurrence is the one that ends it, and the last piece has none.
\<close>

definition leftmost_pieces :: "byte list \<Rightarrow> byte list list \<Rightarrow> bool" where
  "leftmost_pieces needle ps \<longleftrightarrow>
    ps \<noteq> [] \<and> (\<forall>p \<in> set (butlast ps). find_sub needle (p @ needle) = Some (length p)) \<and>
    find_sub needle (last ps) = None"

lemma join_with_Cons_Cons: "join_with sep ((x # p) # ps) = x # join_with sep (p # ps)"
  by (cases ps) simp_all

lemma join_with_Nil_Cons: "ps \<noteq> [] \<Longrightarrow> join_with sep ([] # ps) = sep @ join_with sep ps"
  by (cases ps) simp_all

lemma leftmost_pieces_Nil:
  "needle \<noteq> [] \<Longrightarrow> leftmost_pieces needle ps \<Longrightarrow> leftmost_pieces needle ([] # ps)"
  by (cases needle) (auto simp: leftmost_pieces_def)

lemma leftmost_pieces_Cons:
  assumes "leftmost_pieces needle (p # ps)" and "\<not> prefix needle (x # join_with needle (p # ps))"
  shows "leftmost_pieces needle ((x # p) # ps)"
proof (cases ps)
  case Nil
  with assms show ?thesis by (simp add: leftmost_pieces_def)
next
  case (Cons q qs)
  have "\<not> prefix needle (x # p @ needle)"
  proof
    assume "prefix needle (x # p @ needle)"
    then have "prefix needle ((x # p @ needle) @ join_with needle (q # qs))" by (rule prefix_prefix)
    with assms(2) Cons show False by simp
  qed
  with assms(1) Cons show ?thesis by (auto simp: leftmost_pieces_def)
qed

lemma replace_loop_pieces:
  "needle \<noteq> [] \<Longrightarrow>
   \<exists>ps. leftmost_pieces needle ps \<and> hay = join_with needle ps \<and>
        replace_loop needle repl hay = (join_with repl ps, length ps - 1)"
proof (induction needle repl hay rule: replace_loop.induct)
  case (1 needle repl hay)
  show ?case
  proof (cases hay)
    case Nil
    with "1.prems" show ?thesis
      by (intro exI [of _ "[[]]"]) (simp add: leftmost_pieces_def replace_loop.simps)
  next
    case (Cons x xs)
    show ?thesis
    proof (cases "prefix needle hay")
      case True
      with "1.IH"(1) "1.prems" Cons obtain ps where ps: "leftmost_pieces needle ps"
        "drop (length needle) hay = join_with needle ps"
        "replace_loop needle repl (drop (length needle) hay) = (join_with repl ps, length ps - 1)"
        by auto
      from ps(1) have "ps \<noteq> []" by (simp add: leftmost_pieces_def)
      moreover from True ps(2) have "hay = needle @ join_with needle ps" by (auto simp: prefix_def)
      ultimately show ?thesis using ps(1,3) True "1.prems" Cons
        by (intro exI [of _ "[] # ps"])
          (subst replace_loop.simps, simp add: leftmost_pieces_Nil join_with_Nil_Cons)
    next
      case False
      with "1.IH"(2) "1.prems" Cons obtain ps where ps: "leftmost_pieces needle ps"
        "xs = join_with needle ps"
        "replace_loop needle repl xs = (join_with repl ps, length ps - 1)"
        by auto
      then obtain p qs where "ps = p # qs" by (cases ps) (auto simp: leftmost_pieces_def)
      with ps False "1.prems" Cons show ?thesis
        by (intro exI [of _ "(x # p) # qs"])
          (subst replace_loop.simps, simp add: leftmost_pieces_Cons join_with_Cons_Cons)
    qed
  qed
qed

section \<open>Properties\<close>

lemma join_with_single: "ps \<noteq> [] \<Longrightarrow> length ps - 1 = 0 \<Longrightarrow> join_with sep ps = hd ps"
  by (cases ps) auto

lemma leftmost_pieces_None:
  assumes "leftmost_pieces needle ps"
  shows "length ps - 1 = 0 \<longleftrightarrow> find_sub needle (join_with needle ps) = None"
proof (cases ps)
  case (Cons p qs)
  show ?thesis
  proof (cases qs)
    case Nil
    with Cons assms show ?thesis by (simp add: leftmost_pieces_def)
  next
    case (Cons q rs)
    with \<open>ps = p # qs\<close> have "join_with needle ps = p @ needle @ join_with needle qs" by simp
    then show ?thesis using Cons \<open>ps = p # qs\<close> find_sub_None [of needle "join_with needle ps"] by auto
  qed
qed (use assms in \<open>simp add: leftmost_pieces_def\<close>)

lemma replace_all_none:
  assumes "needle \<noteq> []"
  shows "snd (replace_all hay needle repl) = 0 \<longleftrightarrow> find_sub needle hay = None"
    and "snd (replace_all hay needle repl) = 0 \<Longrightarrow> fst (replace_all hay needle repl) = hay"
proof -
  obtain ps where ps: "leftmost_pieces needle ps" "hay = join_with needle ps"
    "replace_all hay needle repl = (join_with repl ps, length ps - 1)"
    using replace_loop_pieces [OF assms, of hay repl] assms by (auto simp: replace_all_def)
  from ps leftmost_pieces_None show "snd (replace_all hay needle repl) = 0 \<longleftrightarrow> find_sub needle hay = None"
    by auto
  show "snd (replace_all hay needle repl) = 0 \<Longrightarrow> fst (replace_all hay needle repl) = hay"
    using ps join_with_single [of ps repl] join_with_single [of ps needle] by (simp add: leftmost_pieces_def)
qed

text \<open>Decoding what the base64 encoder produced gives the bytes back, for every input.\<close>

theorem base64_roundtrip: "base64_decode (base64_encode bs) = Some bs"
  by (rule b64.dec_enc)

text \<open>
  A percent-encoded value decodes to the original bytes, and it contains nothing but
  unreserved characters and the percent sign: no substituted secret can introduce a
  delimiter into a path or a query.
\<close>

theorem percent_roundtrip:
  "percent_decode (percent_encode bs) = Some bs \<and> list_all (\<lambda>c. unreserved c \<or> c = CHR ''%'') (percent_encode bs)"
  using pct.dec_enc percent_encode_chars by (simp add: list_all_iff pct_char_def)

text \<open>
  Replace-all cuts the haystack at the leftmost non-overlapping occurrences of the needle,
  joins the pieces with the replacement, and counts the cuts.
\<close>

theorem replace_all_leftmost:
  assumes "needle \<noteq> []"
  shows "\<exists>ps. leftmost_pieces needle ps \<and> haystack = join_with needle ps \<and>
    replace_all haystack needle replacement = (join_with replacement ps, length ps - 1)"
  using replace_loop_pieces [OF assms] assms by (simp add: replace_all_def)

theorem replace_all_leftmost_witness:
  "''aa'' \<noteq> '''' \<and> (\<exists>ps. leftmost_pieces ''aa'' ps \<and> ''aaab'' = join_with ''aa'' ps \<and>
     replace_all ''aaab'' ''aa'' ''x'' = (join_with ''x'' ps, length ps - 1)) \<and>
   replace_all ''aaab'' ''aa'' ''x'' = (''xab'', 1)"
proof (intro conjI)
  show "''aa'' \<noteq> ''''" by simp
  then show "\<exists>ps. leftmost_pieces ''aa'' ps \<and> ''aaab'' = join_with ''aa'' ps \<and>
     replace_all ''aaab'' ''aa'' ''x'' = (join_with ''x'' ps, length ps - 1)"
    by (rule replace_all_leftmost)
  show "replace_all ''aaab'' ''aa'' ''x'' = (''xab'', 1)" by code_simp
qed

text \<open>
  The decoder accepts padding in a chunk that is not the last one, and a padding sign
  followed by a data character: standard base64 rejects all three.
\<close>

lemma base64_decode_lax:
  "base64_decode ''QQ==QQ=='' = Some ''AA''"
  "base64_decode ''QUI=QUI='' = Some ''ABAB''"
  "base64_decode ''QQ=Q'' = Some [CHR ''A'', CHR 0x00]"
  by code_simp+

end
