(* ===== verification/Secrets.thy ===== *)
theory Secrets
  imports Transforms Codec
begin

text \<open>
  Secrets: \<open>crates/hematite-kernel/src/secret.rs\<close> (the opaque value, the source references,
  the resolver seam) and \<open>secrets.rs\<close> (the swap engine and the \<open>secrets\<close> transform). The
  resolver is a function on its own state, so a cache that changes from one request to the
  next is part of what the transform threads through.
\<close>

section \<open>Secrets and their sources\<close>

datatype secret = Secret bytes

fun expose_for_swap :: "secret \<Rightarrow> (bytes \<Rightarrow> 'r) \<Rightarrow> 'r" where
  "expose_for_swap (Secret bs) f = f bs"

fun Secret_debug :: "secret \<Rightarrow> string" where
  "Secret_debug (Secret _) = ''Secret(<redacted>)''"

datatype source_kind = Env string | File string

text \<open>Durations are in nanoseconds.\<close>

record source_ref =
  sr_kind :: source_kind
  sr_json_key :: "string option"
  sr_ttl :: "nat option"
  sr_failure_ttl :: "nat option"

definition SourceRef_name :: "source_ref \<Rightarrow> string" where
  "SourceRef_name r = (case sr_kind r of Env var \<Rightarrow> var | File path \<Rightarrow> path)"

record resolve_error =
  re_source :: source_ref
  re_reason :: message

definition ResolveError_display :: "resolve_error \<Rightarrow> message" where
  "ResolveError_display e =
    [Lit ''secret source '', Debug (SourceRef_name (re_source e)), Lit '' failed to resolve: ''] @ re_reason e"

type_synonym 's resolver = "'s \<Rightarrow> source_ref \<Rightarrow> (resolve_error + secret) \<times> 's"

section \<open>The swap engine\<close>

record configured_secret =
  cs_source :: source_ref
  cs_source_name :: string
  cs_proxy_value :: bytes
  cs_match_headers :: "header_name_entry list option"
  cs_match_query :: bool
  cs_match_path :: bool
  cs_match_body :: bool
  cs_require :: bool
  cs_rules :: "rule list"

record secret_spec =
  ss_source :: source_ref
  ss_proxy_value :: string
  ss_match_headers :: "header_name_entry list option"
  ss_match_query :: bool
  ss_match_path :: bool
  ss_match_body :: bool
  ss_require :: bool
  ss_rules :: "rule list"

definition configure :: "secret_spec \<Rightarrow> configured_secret" where
  "configure s =
    \<lparr>cs_source = ss_source s, cs_source_name = SourceRef_name (ss_source s), cs_proxy_value = ss_proxy_value s,
     cs_match_headers = ss_match_headers s, cs_match_query = ss_match_query s, cs_match_path = ss_match_path s,
     cs_match_body = ss_match_body s, cs_require = ss_require s, cs_rules = ss_rules s\<rparr>"

definition swap_header_value :: "string \<Rightarrow> bytes \<Rightarrow> bytes \<Rightarrow> string \<times> bool" where
  "swap_header_value val proxy sec =
    (let plain = (let (new, n) = replace_all val proxy sec
                  in if 0 < n then (from_utf8_lossy new, True) else (val, False))
     in case strip_prefix ''Basic '' val of
          Some b64 \<Rightarrow>
            (case base64_decode b64 of
               Some decoded \<Rightarrow>
                 (let (new_decoded, n) = replace_all decoded proxy sec
                  in if 0 < n then (''Basic '' @ base64_encode new_decoded, True) else (val, False))
             | None \<Rightarrow> plain)
        | None \<Rightarrow> plain)"

text \<open>One pair of the query, and whether the token was found in its value.\<close>

definition swap_pair :: "bytes \<Rightarrow> string \<Rightarrow> string \<Rightarrow> string \<times> bool" where
  "swap_pair proxy repl pair =
    (case split_once CHR ''='' pair of
       Some (k, v) \<Rightarrow>
         (let (new_v, n) = replace_all v proxy repl in (k @ ''='' @ from_utf8_lossy new_v, 0 < n))
     | None \<Rightarrow> (pair, False))"

definition swap_query :: "string \<Rightarrow> bytes \<Rightarrow> bytes \<Rightarrow> string option" where
  "swap_query query proxy sec =
    (let repl = percent_encode sec;
         pairs = map (swap_pair proxy repl) (split_on CHR ''&'' query)
     in if list_ex snd pairs then Some (join_with ''&'' (map fst pairs)) else None)"

definition header_selected :: "configured_secret \<Rightarrow> string \<Rightarrow> bool" where
  "header_selected sec name =
    (case cs_match_headers sec of
       None \<Rightarrow> True
     | Some entries \<Rightarrow> list_ex (\<lambda>e. HeaderNameEntry_matches e name) entries)"

text \<open>The closure passed to \<open>map_values\<close>; its state is the list of locations.\<close>

definition swap_header ::
  "configured_secret \<Rightarrow> bytes \<Rightarrow> string list \<Rightarrow> string \<Rightarrow> string \<Rightarrow> string option \<times> string list" where
  "swap_header sec sb locations name val =
    (if \<not> header_selected sec name then (None, locations)
     else
       (let (new_value, swapped) = swap_header_value val (cs_proxy_value sec) sb
        in if swapped then (Some new_value, locations @ [header_key name]) else (None, locations)))"

definition scan_and_swap ::
  "request_summary \<Rightarrow> configured_secret \<Rightarrow> bytes \<Rightarrow> request_summary \<times> string list" where
  "scan_and_swap req0 sec sb =
    (let proxy = cs_proxy_value sec;
         (hs, locs1) = Headers_map_values (swap_header sec sb) [] (rq_headers req0);
         req1 = req0\<lparr>rq_headers := hs\<rparr>;
         (req2, locs2) =
           (if cs_match_query sec \<and> rq_query req1 \<noteq> [] then
              case swap_query (rq_query req1) proxy sb of
                Some new_query \<Rightarrow> (req1\<lparr>rq_query := new_query\<rparr>, locs1 @ [''query''])
              | None \<Rightarrow> (req1, locs1)
            else (req1, locs1));
         (req3, locs3) =
           (if cs_match_path sec then
              let (new_path, n) = replace_all (rq_path req2) proxy (percent_encode sb)
              in if 0 < n then (req2\<lparr>rq_path := from_utf8_lossy new_path\<rparr>, locs2 @ [''path''])
                 else (req2, locs2)
            else (req2, locs2));
         (req4, locs4) =
           (if cs_match_body sec then
              let (new_body, n) = replace_all (bd_bytes (rq_body req3)) proxy sb
              in if 0 < n then
                   (case Body_replace (rq_body req3) new_body of
                      Inr b \<Rightarrow> req3\<lparr>rq_body := b\<rparr>
                    | Inl _ \<Rightarrow> req3, locs3 @ [''body''])
                 else (req3, locs3)
            else (req3, locs3))
     in (req4, locs4))"

section \<open>The transform\<close>

definition swapped_entry :: "string \<Rightarrow> string list \<Rightarrow> json" where
  "swapped_entry name locations =
    JObject [(''locations'', json_strings locations), (''secret'', JString name)]"

fun secrets_loop ::
  "'s resolver \<Rightarrow> configured_secret list \<Rightarrow> json list \<Rightarrow> string list \<Rightarrow> 's on_request" where
  "secrets_loop resolve [] swapped unavailable s ctx req =
    (let ctx1 = (if swapped \<noteq> [] then annotate ''swapped'' (JArray swapped) ctx else ctx);
         ctx2 = (if unavailable \<noteq> [] then annotate ''secret_unavailable'' (json_strings unavailable) ctx1 else ctx1)
     in (Inr Verdict_Continue, ctx2, req, s))"
| "secrets_loop resolve (sec # secs) swapped unavailable s ctx req =
    (if \<not> any_rule_matches (cs_rules sec) (rq_host req) (rq_method req) (rq_path req)
     then secrets_loop resolve secs swapped unavailable s ctx req
     else
       (case resolve s (cs_source sec) of
          (Inl e, s') \<Rightarrow>
            if cs_require sec then (Inr (Verdict_Reject None), ctx, req, s')
            else secrets_loop resolve secs swapped (unavailable @ [cs_source_name sec]) s' ctx req
        | (Inr resolved, s') \<Rightarrow>
            if cs_match_body sec \<and> bd_over_cap (rq_body req) then
              (Inl (TransformError [Lit ''secret '', Debug (cs_source_name sec),
                                    Lit '': cannot swap in an over-cap body'']), ctx, req, s')
            else
              (let (req', locations) = expose_for_swap resolved (scan_and_swap req sec)
               in if cs_require sec \<and> locations = [] then (Inr (Verdict_Reject None), ctx, req', s')
                  else secrets_loop resolve secs
                         (if locations \<noteq> [] then swapped @ [swapped_entry (cs_source_name sec) locations]
                          else swapped)
                         unavailable s' ctx req')))"

definition Secrets_on_request :: "'s resolver \<Rightarrow> configured_secret list \<Rightarrow> 's on_request" where
  "Secrets_on_request resolve secs s ctx req = secrets_loop resolve secs [] [] s ctx req"

definition Secrets :: "'s resolver \<Rightarrow> configured_secret list \<Rightarrow> 's transform" where
  "Secrets resolve secs =
    \<lparr>tr_name = ''secrets'', on_request = Secrets_on_request resolve secs, on_response = default_on_response\<rparr>"

definition Secrets_build :: "secret_spec list \<Rightarrow> 's resolver \<Rightarrow> 's transform" where
  "Secrets_build specs resolve = Secrets resolve (map configure specs)"

section \<open>Where a token occurs\<close>

text \<open>
  The places a secret's token occurs in, written without any reference to the secret: the
  specification of what the scan reports.
\<close>

definition contains :: "bytes \<Rightarrow> bytes \<Rightarrow> bool" where
  "contains tok s \<longleftrightarrow> tok \<noteq> [] \<and> find_sub tok s \<noteq> None"

definition header_hit :: "bytes \<Rightarrow> string \<Rightarrow> bool" where
  "header_hit tok v =
    (case strip_prefix ''Basic '' v of
       Some b64 \<Rightarrow> (case base64_decode b64 of Some d \<Rightarrow> contains tok d | None \<Rightarrow> contains tok v)
     | None \<Rightarrow> contains tok v)"

definition query_hit :: "bytes \<Rightarrow> string \<Rightarrow> bool" where
  "query_hit tok q =
    list_ex (\<lambda>pair. case split_once CHR ''='' pair of Some (k, v) \<Rightarrow> contains tok v | None \<Rightarrow> False)
      (split_on CHR ''&'' q)"

definition hits :: "configured_secret \<Rightarrow> request_summary \<Rightarrow> string list" where
  "hits sec req =
    map (header_key \<circ> fst)
      (filter (\<lambda>(n, v). header_selected sec n \<and> header_hit (cs_proxy_value sec) v) (rq_headers req))
    @ (if cs_match_query sec \<and> query_hit (cs_proxy_value sec) (rq_query req) then [''query''] else [])
    @ (if cs_match_path sec \<and> contains (cs_proxy_value sec) (rq_path req) then [''path''] else [])
    @ (if cs_match_body sec \<and> contains (cs_proxy_value sec) (bd_bytes (rq_body req)) then [''body''] else [])"

lemma replace_all_count: "0 < snd (replace_all hay tok repl) \<longleftrightarrow> contains tok hay"
  using replace_all_none(1) [of tok hay repl] by (cases "tok = []") (auto simp: contains_def replace_all_def)

lemma replace_all_absent: "\<not> contains tok hay \<Longrightarrow> fst (replace_all hay tok repl) = hay"
  using replace_all_none [of tok hay repl] by (cases "tok = []") (auto simp: contains_def replace_all_def)

lemma contains_Nil [simp]: "\<not> contains tok []"
  by (simp add: contains_def)

lemma snd_swap_header_value: "snd (swap_header_value v tok sb) \<longleftrightarrow> header_hit tok v"
  by (simp add: swap_header_value_def header_hit_def Let_def case_prod_beta replace_all_count split: option.split)

lemma fst_swap_header_value: "\<not> header_hit tok v \<Longrightarrow> fst (swap_header_value v tok sb) = v"
  by (auto simp: swap_header_value_def header_hit_def Let_def case_prod_beta replace_all_count split: option.splits)

lemma snd_swap_pair:
  "snd (swap_pair tok repl pair) \<longleftrightarrow>
    (case split_once CHR ''='' pair of Some (k, v) \<Rightarrow> contains tok v | None \<Rightarrow> False)"
  by (simp add: swap_pair_def Let_def case_prod_beta replace_all_count split: option.split)

lemma swap_query_None: "swap_query q tok sb = None \<longleftrightarrow> \<not> query_hit tok q"
  by (simp add: swap_query_def query_hit_def Let_def list_ex_iff snd_swap_pair)

lemma query_hit_Nil [simp]: "\<not> query_hit tok []"
  by (simp add: query_hit_def)

section \<open>What the scan does\<close>

definition swapped_value :: "configured_secret \<Rightarrow> bytes \<Rightarrow> string \<times> string \<Rightarrow> string \<times> string" where
  "swapped_value sec sb h =
    (fst h, if header_selected sec (fst h) then fst (swap_header_value (snd h) (cs_proxy_value sec) sb) else snd h)"

lemma Headers_map_values_swap:
  "Headers_map_values (swap_header sec sb) locs hs =
    (map (swapped_value sec sb) hs,
     locs @ map (header_key \<circ> fst)
       (filter (\<lambda>(n, v). header_selected sec n \<and> header_hit (cs_proxy_value sec) v) hs))"
proof (induction hs arbitrary: locs)
  case (Cons h hs)
  obtain n v where h: "h = (n, v)" by (cases h)
  have "swap_header sec sb locs n v =
    (if header_selected sec n \<and> header_hit (cs_proxy_value sec) v
     then (Some (fst (swap_header_value v (cs_proxy_value sec) sb)), locs @ [header_key n]) else (None, locs))"
    by (auto simp: swap_header_def snd_swap_header_value [of v "cs_proxy_value sec" sb, symmetric] split: prod.splits)
  with Cons h show ?case
    by (auto simp: Let_def swapped_value_def fst_swap_header_value)
qed simp

definition swapped_query :: "configured_secret \<Rightarrow> bytes \<Rightarrow> string \<Rightarrow> string" where
  "swapped_query sec sb q = (if cs_match_query sec then unwrap_or (swap_query q (cs_proxy_value sec) sb) q else q)"

definition swapped_path :: "configured_secret \<Rightarrow> bytes \<Rightarrow> string \<Rightarrow> string" where
  "swapped_path sec sb p =
    (if cs_match_path sec \<and> contains (cs_proxy_value sec) p
     then from_utf8_lossy (fst (replace_all p (cs_proxy_value sec) (percent_encode sb))) else p)"

definition swapped_body :: "configured_secret \<Rightarrow> bytes \<Rightarrow> body \<Rightarrow> body" where
  "swapped_body sec sb b =
    (if cs_match_body sec \<and> \<not> bd_over_cap b
     then b\<lparr>bd_bytes := fst (replace_all (bd_bytes b) (cs_proxy_value sec) sb)\<rparr> else b)"

lemma body_step:
  "(if cs_match_body sec then
      let (new_body, n) = replace_all (bd_bytes (rq_body r)) (cs_proxy_value sec) sb
      in if 0 < n then
           (case Body_replace (rq_body r) new_body of Inr b \<Rightarrow> r\<lparr>rq_body := b\<rparr> | Inl _ \<Rightarrow> r, locs @ [''body''])
         else (r, locs)
    else (r, locs)) =
   (r\<lparr>rq_body := swapped_body sec sb (rq_body r)\<rparr>,
    locs @ (if cs_match_body sec \<and> contains (cs_proxy_value sec) (bd_bytes (rq_body r)) then [''body''] else []))"
proof -
  obtain new n where e: "replace_all (bd_bytes (rq_body r)) (cs_proxy_value sec) sb = (new, n)" by fastforce
  have n: "0 < n \<longleftrightarrow> contains (cs_proxy_value sec) (bd_bytes (rq_body r))"
    using replace_all_count [of "bd_bytes (rq_body r)" "cs_proxy_value sec" sb] e by simp
  have new: "\<not> 0 < n \<Longrightarrow> new = bd_bytes (rq_body r)"
    using replace_all_absent [of "cs_proxy_value sec" "bd_bytes (rq_body r)" sb] e n by simp
  show ?thesis
    using n new by (auto simp: e swapped_body_def Body_replace_def)
qed

lemma path_step:
  "(if cs_match_path sec then
      let (new_path, n) = replace_all (rq_path r) (cs_proxy_value sec) (percent_encode sb)
      in if 0 < n then (r\<lparr>rq_path := from_utf8_lossy new_path\<rparr>, locs @ [''path'']) else (r, locs)
    else (r, locs)) =
   (r\<lparr>rq_path := swapped_path sec sb (rq_path r)\<rparr>,
    locs @ (if cs_match_path sec \<and> contains (cs_proxy_value sec) (rq_path r) then [''path''] else []))"
proof -
  obtain new n where e: "replace_all (rq_path r) (cs_proxy_value sec) (percent_encode sb) = (new, n)" by fastforce
  have "0 < n \<longleftrightarrow> contains (cs_proxy_value sec) (rq_path r)"
    using replace_all_count [of "rq_path r" "cs_proxy_value sec" "percent_encode sb"] e by simp
  then show ?thesis by (simp add: e swapped_path_def)
qed

lemma query_step:
  "(if cs_match_query sec \<and> rq_query r \<noteq> [] then
      case swap_query (rq_query r) (cs_proxy_value sec) sb of
        Some new_query \<Rightarrow> (r\<lparr>rq_query := new_query\<rparr>, locs @ [''query'']) | None \<Rightarrow> (r, locs)
    else (r, locs)) =
   (r\<lparr>rq_query := swapped_query sec sb (rq_query r)\<rparr>,
    locs @ (if cs_match_query sec \<and> query_hit (cs_proxy_value sec) (rq_query r) then [''query''] else []))"
  using swap_query_None [of "rq_query r" "cs_proxy_value sec" sb] swap_query_None [of "[]" "cs_proxy_value sec" sb]
  by (auto simp: swapped_query_def split: option.splits)

lemma scan_and_swap_eq:
  "scan_and_swap req sec sb =
    (req\<lparr>rq_headers := map (swapped_value sec sb) (rq_headers req),
         rq_query := swapped_query sec sb (rq_query req),
         rq_path := swapped_path sec sb (rq_path req),
         rq_body := swapped_body sec sb (rq_body req)\<rparr>, hits sec req)"
  unfolding scan_and_swap_def Let_def [of "cs_proxy_value sec"] Headers_map_values_swap
    Let_def [of "(_, _)"] prod.case append_Nil query_step path_step body_step hits_def
  by (simp add: Let_def)

lemma scan_keeps: "same_destination req (fst (scan_and_swap req sec sb))"
  by (simp add: scan_and_swap_eq same_destination_def swapped_body_def)

lemma scan_header_names: "map fst (rq_headers (fst (scan_and_swap req sec sb))) = map fst (rq_headers req)"
  by (simp add: scan_and_swap_eq swapped_value_def comp_def)

lemma scan_no_hits:
  assumes "hits sec req = []"
  shows "fst (scan_and_swap req sec sb) = req"
proof -
  have "swapped_value sec sb h = h" if "h \<in> set (rq_headers req)" for h
    using assms that fst_swap_header_value [of "cs_proxy_value sec" "snd h" sb]
    by (cases h) (auto simp: hits_def swapped_value_def filter_empty_conv)
  then have "map (swapped_value sec sb) (rq_headers req) = rq_headers req" by (simp add: map_idI)
  moreover have "swapped_query sec sb (rq_query req) = rq_query req"
    using assms swap_query_None [of "rq_query req" "cs_proxy_value sec" sb]
    by (auto simp: hits_def swapped_query_def split: if_splits)
  moreover have "swapped_path sec sb (rq_path req) = rq_path req"
    using assms by (auto simp: hits_def swapped_path_def split: if_splits)
  moreover have "swapped_body sec sb (rq_body req) = rq_body req"
    using assms replace_all_absent [of "cs_proxy_value sec" "bd_bytes (rq_body req)" sb]
    by (auto simp: hits_def swapped_body_def split: if_splits)
  ultimately show ?thesis by (simp add: scan_and_swap_eq)
qed

section \<open>What the transform decides\<close>

text \<open>The ways a secret is passed, and the ways it stops the request.\<close>

inductive pass1 ::
  "'s resolver \<Rightarrow> configured_secret \<Rightarrow> 's \<Rightarrow> request_summary \<Rightarrow> request_summary \<Rightarrow> 's \<Rightarrow> bool" where
  pass_skip:
    "\<not> any_rule_matches (cs_rules sec) (rq_host req) (rq_method req) (rq_path req) \<Longrightarrow>
     pass1 resolve sec s req req s"
| pass_unavailable:
    "any_rule_matches (cs_rules sec) (rq_host req) (rq_method req) (rq_path req) \<Longrightarrow>
     resolve s (cs_source sec) = (Inl e, s') \<Longrightarrow> \<not> cs_require sec \<Longrightarrow> pass1 resolve sec s req req s'"
| pass_swap:
    "any_rule_matches (cs_rules sec) (rq_host req) (rq_method req) (rq_path req) \<Longrightarrow>
     resolve s (cs_source sec) = (Inr (Secret sb), s') \<Longrightarrow> \<not> (cs_match_body sec \<and> bd_over_cap (rq_body req)) \<Longrightarrow>
     (cs_require sec \<Longrightarrow> hits sec req \<noteq> []) \<Longrightarrow> pass1 resolve sec s req (fst (scan_and_swap req sec sb)) s'"

inductive passes ::
  "'s resolver \<Rightarrow> configured_secret list \<Rightarrow> 's \<Rightarrow> request_summary \<Rightarrow> request_summary \<Rightarrow> 's \<Rightarrow> bool" for resolve where
  passes_Nil: "passes resolve [] s req req s"
| passes_Cons:
    "pass1 resolve sec s req req' s' \<Longrightarrow> passes resolve secs s' req' req'' s'' \<Longrightarrow>
     passes resolve (sec # secs) s req req'' s''"

inductive refuse1 ::
  "'s resolver \<Rightarrow> configured_secret \<Rightarrow> 's \<Rightarrow> request_summary \<Rightarrow> transform_error + verdict \<Rightarrow> 's \<Rightarrow> bool" where
  refuse_unavailable:
    "any_rule_matches (cs_rules sec) (rq_host req) (rq_method req) (rq_path req) \<Longrightarrow>
     resolve s (cs_source sec) = (Inl e, s') \<Longrightarrow> cs_require sec \<Longrightarrow>
     refuse1 resolve sec s req (Inr (Verdict_Reject None)) s'"
| refuse_over_cap:
    "any_rule_matches (cs_rules sec) (rq_host req) (rq_method req) (rq_path req) \<Longrightarrow>
     resolve s (cs_source sec) = (Inr v, s') \<Longrightarrow> cs_match_body sec \<Longrightarrow> bd_over_cap (rq_body req) \<Longrightarrow>
     refuse1 resolve sec s req
       (Inl (TransformError [Lit ''secret '', Debug (cs_source_name sec), Lit '': cannot swap in an over-cap body''])) s'"
| refuse_absent:
    "any_rule_matches (cs_rules sec) (rq_host req) (rq_method req) (rq_path req) \<Longrightarrow>
     resolve s (cs_source sec) = (Inr v, s') \<Longrightarrow> \<not> (cs_match_body sec \<and> bd_over_cap (rq_body req)) \<Longrightarrow>
     cs_require sec \<Longrightarrow> hits sec req = [] \<Longrightarrow>
     refuse1 resolve sec s req (Inr (Verdict_Reject None)) s'"

lemma secret_step:
  obtains (pass) req1 s1 where "pass1 resolve sec s req req1 s1"
      "\<And>secs swapped unavailable ctx. \<exists>sw un.
        secrets_loop resolve (sec # secs) swapped unavailable s ctx req = secrets_loop resolve secs sw un s1 ctx req1"
  | (refuse) r s1 where "refuse1 resolve sec s req r s1"
      "\<And>secs swapped unavailable ctx.
        secrets_loop resolve (sec # secs) swapped unavailable s ctx req = (r, ctx, req, s1)"
proof (cases "any_rule_matches (cs_rules sec) (rq_host req) (rq_method req) (rq_path req)")
  case False
  with pass [of req s] pass_skip show thesis by fastforce
next
  case True
  obtain res s1 where res: "resolve s (cs_source sec) = (res, s1)" by fastforce
  show thesis
  proof (cases res)
    case (Inl e)
    show thesis
    proof (cases "cs_require sec")
      case True
      with refuse [OF refuse_unavailable] \<open>any_rule_matches _ _ _ _\<close> res Inl show thesis by simp
    next
      case False
      with pass [OF pass_unavailable] True res Inl show thesis by fastforce
    qed
  next
    case (Inr v)
    obtain sb where sb: "v = Secret sb" by (cases v)
    consider (cap) "cs_match_body sec \<and> bd_over_cap (rq_body req)"
      | (absent) "\<not> (cs_match_body sec \<and> bd_over_cap (rq_body req))" "cs_require sec" "hits sec req = []"
      | (swap) "\<not> (cs_match_body sec \<and> bd_over_cap (rq_body req))" "cs_require sec \<Longrightarrow> hits sec req \<noteq> []"
      by blast
    then show thesis
    proof cases
      case cap
      with refuse [OF refuse_over_cap] True res Inr show thesis by simp
    next
      case absent
      have "scan_and_swap req sec sb = (req, [])"
        using scan_no_hits [OF absent(3), of sb] absent(3) by (simp add: scan_and_swap_eq)
      with absent refuse [OF refuse_absent] True res Inr show thesis by (simp add: sb)
    next
      case swap
      show thesis
      proof (rule pass)
        show "pass1 resolve sec s req (fst (scan_and_swap req sec sb)) s1"
          using swap True res Inr sb by (intro pass_swap) auto
        show "\<exists>sw un. secrets_loop resolve (sec # secs) swapped unavailable s ctx req =
            secrets_loop resolve secs sw un s1 ctx (fst (scan_and_swap req sec sb))" for secs swapped unavailable ctx
          using swap True res Inr sb by (auto simp: scan_and_swap_eq)
      qed
    qed
  qed
qed

lemma secrets_loop_cases:
  assumes "secrets_loop resolve secs swapped unavailable s ctx req = (r, ctx', req', s')"
  shows "r = Inr Verdict_Continue \<and> passes resolve secs s req req' s' \<or>
    (\<exists>as sec bs st. secs = as @ sec # bs \<and> passes resolve as s req req' st \<and> refuse1 resolve sec st req' r s' \<and> ctx' = ctx)"
  using assms
proof (induction secs arbitrary: swapped unavailable s req)
  case Nil
  then show ?case by (auto simp: Let_def intro: passes_Nil)
next
  case (Cons sec secs)
  show ?case
  proof (rule secret_step [of resolve sec s req], goal_cases pass refuse)
    case (pass req1 s1)
    from pass(2) Cons.prems obtain sw un where
      "secrets_loop resolve secs sw un s1 ctx req1 = (r, ctx', req', s')" by metis
    from Cons.IH [OF this] show ?thesis
    proof (elim disjE exE conjE)
      fix as sec' bs st
      assume "secs = as @ sec' # bs" "passes resolve as s1 req1 req' st" "refuse1 resolve sec' st req' r s'" "ctx' = ctx"
      with pass(1) have "sec # secs = (sec # as) @ sec' # bs \<and> passes resolve (sec # as) s req req' st \<and>
        refuse1 resolve sec' st req' r s' \<and> ctx' = ctx" by (simp add: passes_Cons)
      then show ?thesis by blast
    qed (use pass(1) in \<open>auto intro: passes_Cons\<close>)
  next
    case (refuse r1 s1)
    from refuse(2) [of secs swapped unavailable ctx] Cons.prems
    have "r1 = r \<and> ctx = ctx' \<and> req = req' \<and> s1 = s'" by (simp del: secrets_loop.simps)
    with refuse(1) have "sec # secs = [] @ sec # secs \<and> passes resolve [] s req req' s \<and>
      refuse1 resolve sec s req' r s' \<and> ctx' = ctx" by (simp add: passes_Nil)
    then show ?thesis by blast
  qed
qed

lemma pass1_keeps: "pass1 resolve sec s req req' s' \<Longrightarrow> same_destination req req'"
  by (induction rule: pass1.induct) (simp_all add: scan_keeps)

lemma passes_keeps: "passes resolve secs s req req' s' \<Longrightarrow> same_destination req req'"
  by (induction rule: passes.induct) (auto dest: pass1_keeps intro: same_destination_trans)

interpretation secrets: destination_keeper "Secrets resolve secs" for resolve secs
  by unfold_locales
    (auto simp: Secrets_def Secrets_on_request_def default_on_response_def dest!: secrets_loop_cases dest: passes_keeps)

section \<open>Exact substitution\<close>

lemma utf8_valid_join: "utf8_valid n \<Longrightarrow> \<forall>p \<in> set ps. utf8_valid p \<Longrightarrow> utf8_valid (join_with n ps)"
  by (induction n ps rule: join_with.induct) (simp_all add: utf8_valid_append)

lemma unreserved_ascii: "unreserved c \<Longrightarrow> code c < 0x80"
  by (auto simp: unreserved_def is_alnum_def is_upper_def is_lower_def is_digit_def)

lemma percent_encode_valid: "utf8_valid (percent_encode bs)"
  using percent_encode_chars [of bs] by (intro utf8_valid_ascii) (auto simp: pct_char_def dest: unreserved_ascii)

text \<open>A valid token in a valid string: the pieces are valid, so decoding changes nothing.\<close>

lemma replace_all_pieces:
  assumes "tok \<noteq> []"
  obtains ps where "leftmost_pieces tok ps" "hay = join_with tok ps" "fst (replace_all hay tok repl) = join_with repl ps"
  using replace_loop_pieces [OF assms, of hay repl] assms by (auto simp: replace_all_def)

lemma replace_all_valid:
  assumes "utf8_valid hay" and "utf8_valid tok" and "utf8_valid repl"
  shows "from_utf8_lossy (fst (replace_all hay tok repl)) = fst (replace_all hay tok repl)"
proof (cases "tok = []")
  case True
  with assms(1) show ?thesis by (simp add: replace_all_def from_utf8_lossy_id)
next
  case False
  obtain ps where ps: "hay = join_with tok ps" "fst (replace_all hay tok repl) = join_with repl ps"
    using replace_all_pieces [OF False] by blast
  from ps(1) assms(1,2) False have "\<forall>p \<in> set ps. utf8_valid p" by (simp add: utf8_valid_pieces)
  with assms(3) ps(2) show ?thesis by (simp add: utf8_valid_join from_utf8_lossy_id)
qed

lemma set_join_with: "set (join_with sep ps) \<subseteq> set sep \<union> (\<Union>p \<in> set ps. set p)"
  by (induction sep ps rule: join_with.induct) auto

lemma set_pieces: "p \<in> set ps \<Longrightarrow> set p \<subseteq> set (join_with sep ps)"
  by (induction sep ps rule: join_with.induct) auto

lemma set_replace_all: "set (fst (replace_all hay tok repl)) \<subseteq> set hay \<union> set repl"
proof (cases "tok = []")
  case False
  obtain ps where ps: "hay = join_with tok ps" "fst (replace_all hay tok repl) = join_with repl ps"
    using replace_all_pieces [OF False] by blast
  from ps(1) have "\<forall>p \<in> set ps. set p \<subseteq> set hay" using set_pieces by blast
  then show ?thesis using set_join_with [of repl ps] unfolding ps(2) by blast
qed (simp add: replace_all_def)

lemma split_join: "ps \<noteq> [] \<Longrightarrow> \<forall>p \<in> set ps. c \<notin> set p \<Longrightarrow> split_on c (join_with [c] ps) = ps"
  by (induction "[c]" ps rule: join_with.induct) (simp_all add: split_on_fresh split_on_append)

lemma unreserved_no_delim: "\<not> pct_char CHR ''&''" "\<not> pct_char CHR ''=''" "\<not> pct_char CHR ''/''" "\<not> pct_char CHR ''?''"
    "\<not> pct_char CHR ''#''"
  by code_simp+

text \<open>
  A text with every leftmost occurrence of a token replaced, and a pair of a query with that done to its value; a pair
  without an equals sign stays as it is.
\<close>

definition substituted :: "string \<Rightarrow> string \<Rightarrow> string \<Rightarrow> string \<Rightarrow> bool" where
  "substituted tok repl old new \<longleftrightarrow>
    (\<exists>ps. leftmost_pieces tok ps \<and> old = join_with tok ps \<and> new = join_with repl ps)"

definition pair_substituted :: "string \<Rightarrow> string \<Rightarrow> string \<Rightarrow> string \<Rightarrow> bool" where
  "pair_substituted tok repl old new \<longleftrightarrow>
    (case split_once CHR ''='' old of
       None \<Rightarrow> new = old
     | Some (k, v) \<Rightarrow> \<exists>v'. split_once CHR ''='' new = Some (k, v') \<and> substituted tok repl v v')"

lemma replace_all_substituted: "tok \<noteq> [] \<Longrightarrow> substituted tok repl hay (fst (replace_all hay tok repl))"
  unfolding substituted_def by (rule replace_all_pieces [of tok hay repl]) auto

lemma swap_pair_structure:
  assumes "utf8_valid pair" and "utf8_valid tok" and "tok \<noteq> []" and "CHR ''&'' \<notin> set pair"
  shows "CHR ''&'' \<notin> set (fst (swap_pair tok (percent_encode sb) pair)) \<and>
    pair_substituted tok (percent_encode sb) pair (fst (swap_pair tok (percent_encode sb) pair)) \<and>
    (\<not> snd (swap_pair tok (percent_encode sb) pair) \<longrightarrow> fst (swap_pair tok (percent_encode sb) pair) = pair)"
proof (cases "split_once CHR ''='' pair")
  case None
  then show ?thesis using assms(4) by (simp add: swap_pair_def pair_substituted_def)
next
  case (Some kv)
  obtain k v where kv: "kv = (k, v)" by (cases kv)
  with Some have p: "pair = k @ CHR ''='' # v" "CHR ''='' \<notin> set k" by (simp_all add: split_once_Some)
  define w where "w = fst (replace_all v tok (percent_encode sb))"
  have "utf8_valid v" using utf8_valid_infix [of k "''=''" v] assms(1) p(1)
    by (simp add: utf8_valid_ascii)
  then have w: "from_utf8_lossy w = w" unfolding w_def
    using replace_all_valid assms(2) percent_encode_valid by blast
  have new: "fst (swap_pair tok (percent_encode sb) pair) = k @ CHR ''='' # w"
    using Some kv w by (simp add: swap_pair_def w_def case_prod_beta)
  have "CHR ''&'' \<notin> set w"
    using set_replace_all [of v tok "percent_encode sb"] percent_encode_chars [of sb] unreserved_no_delim(1) assms(4) p(1)
    unfolding w_def by auto
  moreover have "split_once CHR ''='' (k @ CHR ''='' # w) = Some (k, w)" using p(2) by (simp add: split_once_Some)
  moreover have "substituted tok (percent_encode sb) v w" unfolding w_def using assms(3) by (rule replace_all_substituted)
  moreover have "w = v" if "\<not> snd (swap_pair tok (percent_encode sb) pair)"
    using that Some kv replace_all_count [of v tok "percent_encode sb"] replace_all_absent [of tok v "percent_encode sb"]
    by (simp add: swap_pair_def case_prod_beta w_def)
  ultimately show ?thesis using new Some kv assms(4) p by (auto simp: pair_substituted_def)
qed

lemma swap_query_structure:
  assumes "utf8_valid q" and "utf8_valid tok" and "tok \<noteq> []"
  shows "list_all2 (pair_substituted tok (percent_encode sb)) (split_on CHR ''&'' q)
    (split_on CHR ''&'' (unwrap_or (swap_query q tok sb) q))"
proof -
  let ?ps = "split_on CHR ''&'' q"
  let ?sw = "swap_pair tok (percent_encode sb)"
  have "\<forall>p \<in> set ?ps. utf8_valid p"
    using assms(1) utf8_valid_pieces [of "''&''" ?ps] by (simp add: join_split_on utf8_valid_ascii)
  then have st: "CHR ''&'' \<notin> set (fst (?sw p)) \<and> pair_substituted tok (percent_encode sb) p (fst (?sw p)) \<and>
      (\<not> snd (?sw p) \<longrightarrow> fst (?sw p) = p)" if "p \<in> set ?ps" for p
    using that swap_pair_structure [OF _ assms(2,3)] split_on_part by blast
  have "map (fst \<circ> ?sw) ?ps = ?ps" if "\<not> list_ex snd (map ?sw ?ps)"
    using that st by (intro map_idI) (auto simp: list_ex_iff)
  then have q': "unwrap_or (swap_query q tok sb) q = join_with ''&'' (map (fst \<circ> ?sw) ?ps)"
    using join_split_on [of "CHR ''&''" q] by (auto simp: swap_query_def Let_def)
  have "split_on CHR ''&'' (join_with ''&'' (map (fst \<circ> ?sw) ?ps)) = map (fst \<circ> ?sw) ?ps"
    using st by (intro split_join) auto
  with q' st show ?thesis by (simp add: list_all2_map2 list_all2_same)
qed

section \<open>Independence of the value\<close>

text \<open>Requests that differ in values only: same destination, same header names.\<close>

definition similar :: "request_summary \<Rightarrow> request_summary \<Rightarrow> bool" where
  "similar a b \<longleftrightarrow> same_destination a b \<and> map fst (rq_headers a) = map fst (rq_headers b)"

lemma similar_refl [simp]: "similar a a"
  by (simp add: similar_def)

locale value_blind =
  fixes t :: "'s transform"
  assumes blind: "similar a b \<Longrightarrow> on_request t s ctx a = (r, ctx', a', s') \<Longrightarrow>
    \<exists>b'. on_request t s ctx b = (r, ctx', b', s') \<and> similar a' b'"

interpretation allowlist_blind: value_blind "Allowlist a" for a
  by unfold_locales
    (auto simp: Allowlist_def Allowlist_on_request_def similar_def same_destination_def split: if_splits)

lemma retain_names:
  "map fst (fst (Headers_retain keep hs)) = filter keep (map fst hs)"
  "snd (Headers_retain keep hs) = map canonical_name (filter (\<lambda>n. \<not> keep n) (map fst hs))"
  by (induction hs) (auto simp: Headers_retain_def)

text \<open>Rules without path patterns do not look at the path, which a swap may change.\<close>

definition path_free :: "rule list \<Rightarrow> bool" where
  "path_free rules \<longleftrightarrow> list_all (\<lambda>r. rl_paths r = None) rules"

lemma path_free_matches: "path_free rules \<Longrightarrow> any_rule_matches rules h m p = any_rule_matches rules h m p'"
  by (auto simp: path_free_def any_rule_matches_iff Rule_matches_iff list_all_iff)

lemma HeaderAllowlist_names:
  "on_request (HeaderAllowlist h) s ctx req =
    (if filter_applies h req then
       (Inr Verdict_Continue,
        (let removed = map canonical_name (filter (\<lambda>n. \<not> header_kept h n) (map fst (rq_headers req)))
         in if removed \<noteq> [] then annotate ''stripped_headers'' (json_strings (remdups_adj (sort removed))) ctx else ctx),
        req\<lparr>rq_headers := fst (Headers_retain (header_kept h) (rq_headers req))\<rparr>, s)
     else (Inr Verdict_Continue, ctx, req, s))"
  unfolding HeaderAllowlist_def HeaderAllowlist_on_request_def filter_applies_def retain_names(2) [symmetric]
  by (simp add: Let_def case_prod_beta split: option.split)

lemma header_allowlist_blind:
  assumes "case ha_rules h of None \<Rightarrow> True | Some rules \<Rightarrow> path_free rules"
  shows "value_blind (HeaderAllowlist h)"
proof
  fix a b s ctx r ctx' a' s'
  assume sim: "similar a b" and e: "on_request (HeaderAllowlist h) s ctx a = (r, ctx', a', s')"
  have app: "filter_applies h a = filter_applies h b"
    using assms sim path_free_matches
    by (auto simp: filter_applies_def similar_def same_destination_def split: option.splits)
  have names: "map fst (rq_headers a) = map fst (rq_headers b)" using sim by (simp add: similar_def)
  show "\<exists>b'. on_request (HeaderAllowlist h) s ctx b = (r, ctx', b', s') \<and> similar a' b'"
  proof (cases "filter_applies h b")
    case True
    with e app have "r = Inr Verdict_Continue" "s' = s"
      "a' = a\<lparr>rq_headers := fst (Headers_retain (header_kept h) (rq_headers a))\<rparr>"
      by (simp_all add: HeaderAllowlist_names)
    moreover have "similar (a\<lparr>rq_headers := fst (Headers_retain (header_kept h) (rq_headers a))\<rparr>)
        (b\<lparr>rq_headers := fst (Headers_retain (header_kept h) (rq_headers b))\<rparr>)"
      using sim names by (simp add: similar_def same_destination_def retain_names)
    ultimately show ?thesis using e True app by (simp add: HeaderAllowlist_names names)
  next
    case False
    with e app sim show ?thesis by (simp add: HeaderAllowlist_names)
  qed
qed

lemma request_loop_blind:
  assumes "\<forall>t \<in> set ts. value_blind t" and "similar a b"
    and "request_loop ts s a traces capture = (oc, traces', capture', a', s')"
  shows "\<exists>b'. request_loop ts s b traces capture = (oc, traces', capture', b', s') \<and> similar a' b'"
  using assms
proof (induction ts arbitrary: s a b traces capture)
  case (Cons t ts)
  obtain r ctx a1 s1 where o: "on_request t s Ctx_default a = (r, ctx, a1, s1)" by (metis prod_cases4)
  with Cons.prems(1,2) value_blind.blind obtain b1 where
    ob: "on_request t s Ctx_default b = (r, ctx, b1, s1)" "similar a1 b1" by (metis list.set_intros(1))
  show ?case
  proof (cases r rule: verdict_cases)
    case Continue
    then show ?thesis using Cons.IH [OF _ ob(2)] Cons.prems o ob(1) by (simp add: Let_def)
  qed (use Cons.prems o ob in \<open>auto simp: Let_def\<close>)
qed auto

lemma request_loop_append:
  "request_loop (as @ bs) s req traces capture =
    (let (oc, traces', capture', req', s') = request_loop as s req traces capture
     in if is_allowed oc then request_loop bs s' req' traces' capture' else (oc, traces', capture', req', s'))"
proof (induction as arbitrary: s req traces capture)
  case (Cons t as)
  obtain r ctx a1 s1 where o: "on_request t s Ctx_default req = (r, ctx, a1, s1)" by (metis prod_cases4)
  show ?case by (cases r rule: verdict_cases) (simp_all add: o Cons Let_def)
qed simp

text \<open>Two resolvers that differ in the value of a source only.\<close>

definition agree :: "'s resolver \<Rightarrow> 's resolver \<Rightarrow> source_ref \<Rightarrow> bool" where
  "agree r1 r2 src \<longleftrightarrow>
    (\<forall>s. snd (r1 s src) = snd (r2 s src) \<and>
         (case fst (r1 s src) of Inl e \<Rightarrow> fst (r2 s src) = Inl e | Inr _ \<Rightarrow> \<exists>v. fst (r2 s src) = Inr v))"

lemma Secrets_single:
  assumes "r s (cs_source sec) = (Inr (Secret x), s1)"
  shows "on_request (Secrets r [sec]) s ctx req =
    (if \<not> any_rule_matches (cs_rules sec) (rq_host req) (rq_method req) (rq_path req)
     then (Inr Verdict_Continue, ctx, req, s)
     else if cs_match_body sec \<and> bd_over_cap (rq_body req) then
       (Inl (TransformError [Lit ''secret '', Debug (cs_source_name sec), Lit '': cannot swap in an over-cap body'']),
        ctx, req, s1)
     else if cs_require sec \<and> hits sec req = []
     then (Inr (Verdict_Reject None), ctx, fst (scan_and_swap req sec x), s1)
     else (Inr Verdict_Continue,
           (if hits sec req = [] then ctx
            else annotate ''swapped'' (JArray [swapped_entry (cs_source_name sec) (hits sec req)]) ctx),
           fst (scan_and_swap req sec x), s1))"
  by (simp add: Secrets_def Secrets_on_request_def assms Let_def case_prod_beta scan_and_swap_eq)

lemma secrets_single_blind:
  assumes "agree r1 r2 (cs_source sec)" and "on_request (Secrets r1 [sec]) s ctx req = (r, ctx', a', s')"
  shows "\<exists>b'. on_request (Secrets r2 [sec]) s ctx req = (r, ctx', b', s') \<and> similar a' b'"
proof -
  obtain res1 s1 where res1: "r1 s (cs_source sec) = (res1, s1)" by fastforce
  obtain res2 s2 where res2: "r2 s (cs_source sec) = (res2, s2)" by fastforce
  from assms(1) have "snd (r1 s (cs_source sec)) = snd (r2 s (cs_source sec))"
    and ag: "case fst (r1 s (cs_source sec)) of Inl e \<Rightarrow> fst (r2 s (cs_source sec)) = Inl e
      | Inr _ \<Rightarrow> \<exists>v. fst (r2 s (cs_source sec)) = Inr v"
    unfolding agree_def by blast+
  with res1 res2 have s: "s1 = s2" by simp
  have sim: "similar (fst (scan_and_swap req sec x)) (fst (scan_and_swap req sec y))" for x y
    by (simp add: similar_def scan_and_swap_eq same_destination_def swapped_body_def swapped_value_def comp_def)
  show ?thesis
  proof (cases res1)
    case (Inl e)
    then have "res2 = Inl e" using ag res1 res2 by simp
    with Inl assms(2) res1 res2 s show ?thesis
      by (auto simp: Secrets_def Secrets_on_request_def Let_def split: if_splits)
  next
    case (Inr v1)
    obtain x where x: "v1 = Secret x" by (cases v1)
    from Inr ag res1 res2 obtain v2 where "res2 = Inr v2" by auto
    then obtain y where y: "res2 = Inr (Secret y)" by (cases v2) simp
    have "r1 s (cs_source sec) = (Inr (Secret x), s1)" "r2 s (cs_source sec) = (Inr (Secret y), s1)"
      using res1 res2 s Inr x y by simp_all
    then show ?thesis
      using assms(2) sim [of x y] Secrets_single [of r1 s sec x s1 ctx req] Secrets_single [of r2 s sec y s1 ctx req]
      by (auto split: if_splits)
  qed
qed

lemma evaluate_request_value_free:
  assumes "agree r1 r2 (cs_source sec)" and "\<forall>t \<in> set post. value_blind t"
  shows "\<exists>po a b s'. evaluate_request (pre @ Secrets r1 [sec] # post) s req = (po, a, s') \<and>
    evaluate_request (pre @ Secrets r2 [sec] # post) s req = (po, b, s') \<and> similar a b"
proof -
  obtain oc tr cap rq st where pre: "request_loop pre s req [] None = (oc, tr, cap, rq, st)"
    by (metis prod_cases5)
  show ?thesis
  proof (cases "is_allowed oc")
    case False
    then show ?thesis by (simp add: evaluate_request_def request_loop_append pre Let_def)
  next
    case True
    obtain r ctx a1 s1 where o: "on_request (Secrets r1 [sec]) st Ctx_default rq = (r, ctx, a1, s1)"
      by (metis prod_cases4)
    from secrets_single_blind [OF assms(1) o] obtain b1 where
      ob: "on_request (Secrets r2 [sec]) st Ctx_default rq = (r, ctx, b1, s1)" "similar a1 b1" by blast
    have name: "tr_name (Secrets r1 [sec]) = tr_name (Secrets r2 [sec])" by (simp add: Secrets_def)
    show ?thesis
    proof (cases r rule: verdict_cases)
      case Continue
      obtain oc' tr' cap' a' s' where l: "request_loop post s1 a1
        (tr @ [mk_trace (tr_name (Secrets r2 [sec])) TraceVerdict_Continue None (cx_annotations ctx)])
        (if cx_body_capture ctx \<noteq> None then cx_body_capture ctx else cap) = (oc', tr', cap', a', s')"
        by (metis prod_cases5)
      from request_loop_blind [OF assms(2) ob(2) l] True o ob l Continue show ?thesis
        by (auto simp: evaluate_request_def request_loop_append pre Let_def name)
    qed (use True o ob in \<open>auto simp: evaluate_request_def request_loop_append pre Let_def name\<close>)
  qed
qed

section \<open>Properties\<close>

text \<open>
  C18. The verdict of the transform: it continues exactly when every secret in turn was
  skipped because no rule matched, skipped as unavailable and not required, or swapped in,
  a required one in at least one place; otherwise the first secret that was not passed
  rejects the request (required and unavailable, or required and its token absent) or fails
  it (the body cannot be rewritten because it was cut).
\<close>

theorem secrets_verdict:
  assumes "on_request (Secrets resolve secs) s ctx req = (r, ctx', req', s')"
  shows "r = Inr Verdict_Continue \<and> passes resolve secs s req req' s' \<or>
    (\<exists>as sec bs st. secs = as @ sec # bs \<and> passes resolve as s req req' st \<and> refuse1 resolve sec st req' r s' \<and> ctx' = ctx)"
  using assms secrets_loop_cases [of resolve secs "[]" "[]" s ctx req r ctx' req' s']
  by (simp add: Secrets_def Secrets_on_request_def)

definition example_request :: request_summary where
  "example_request =
    \<lparr>rq_mode = Http, rq_method = ''GET'', rq_host = ''api.example.com'', rq_port = 80, rq_path = ''/v1'',
     rq_query = ''key=tok'', rq_headers = [(''X-Key'', ''tok'')],
     rq_body = \<lparr>bd_bytes = [], bd_over_cap = False\<rparr>, rq_sni = None, rq_remote_addr = None\<rparr>"

definition example_secret :: configured_secret where
  "example_secret =
    \<lparr>cs_source = \<lparr>sr_kind = Env ''K'', sr_json_key = None, sr_ttl = None, sr_failure_ttl = None\<rparr>,
     cs_source_name = ''K'', cs_proxy_value = ''tok'', cs_match_headers = None, cs_match_query = True,
     cs_match_path = False, cs_match_body = False, cs_require = True,
     cs_rules = [\<lparr>rl_host = Glob \<lparr>dg_suffix = ''example.com'', dg_wildcard = True\<rparr>, rl_methods = None, rl_paths = None\<rparr>]\<rparr>"

definition example_resolver :: "bytes \<Rightarrow> unit resolver" where
  "example_resolver v s src = (Inr (Secret v), s)"

lemma example_hits: "hits example_secret example_request = [''header:X-Key'', ''query'']"
  by code_simp

lemma example_matches:
  "any_rule_matches (cs_rules example_secret) (rq_host example_request) (rq_method example_request) (rq_path example_request)"
  by code_simp

lemma example_run:
  "on_request (Secrets (example_resolver v) [example_secret]) () ctx example_request =
    (Inr Verdict_Continue,
     annotate ''swapped'' (JArray [swapped_entry ''K'' [''header:X-Key'', ''query'']]) ctx,
     fst (scan_and_swap example_request example_secret v), ())"
proof -
  have "example_resolver v () (cs_source example_secret) = (Inr (Secret v), ())" by (simp add: example_resolver_def)
  from Secrets_single [of "example_resolver v" "()" example_secret v "()", OF this] show ?thesis
    by (simp add: example_hits example_matches) (simp add: example_secret_def example_request_def)
qed

theorem secrets_verdict_witness:
  "passes (example_resolver ''S'') [example_secret] () example_request
     (fst (scan_and_swap example_request example_secret ''S'')) ()"
  using secrets_verdict [OF example_run, of "''S''" Ctx_default] by (auto elim: refuse1.cases)

text \<open>
  What a scan reports and what it may touch: the locations are the opted-in places the
  token occurs in, a function of the request alone and not of the secret; the destination
  and the header names stay as they are; a request without the token is forwarded
  unchanged.
\<close>

theorem scan_reports_hits:
  "snd (scan_and_swap req sec sb) = hits sec req \<and>
   same_destination req (fst (scan_and_swap req sec sb)) \<and>
   map fst (rq_headers (fst (scan_and_swap req sec sb))) = map fst (rq_headers req) \<and>
   (hits sec req = [] \<longrightarrow> fst (scan_and_swap req sec sb) = req)"
  using scan_keeps scan_header_names scan_no_hits by (simp add: scan_and_swap_eq)

theorem scan_reports_hits_witness:
  "hits (example_secret\<lparr>cs_proxy_value := ''absent''\<rparr>) example_request = [] \<and>
   fst (scan_and_swap example_request (example_secret\<lparr>cs_proxy_value := ''absent''\<rparr>) ''S'') = example_request"
proof -
  have h: "hits (example_secret\<lparr>cs_proxy_value := ''absent''\<rparr>) example_request = []" by code_simp
  with scan_reports_hits [of example_request "example_secret\<lparr>cs_proxy_value := ''absent''\<rparr>" "''S''"] show ?thesis
    by blast
qed

text \<open>
  C29. A swap in the path or the query never changes the structure of the URL, and swaps: with matching on for the path, the path is
  the original one with every leftmost occurrence of the token replaced by the percent-encoded
  secret, byte for byte; with matching on for the query, the query has the same pairs with the same keys, and each value is
  the original one with the token replaced in the same way. Without matching the path or the query stays as it is.
\<close>

theorem swap_keeps_url_structure:
  assumes "utf8_valid (rq_path req)" and "utf8_valid (rq_query req)"
    and "utf8_valid (cs_proxy_value sec)" and "cs_proxy_value sec \<noteq> []"
  shows "(if cs_match_path sec
      then substituted (cs_proxy_value sec) (percent_encode sb) (rq_path req) (rq_path (fst (scan_and_swap req sec sb)))
      else rq_path (fst (scan_and_swap req sec sb)) = rq_path req) \<and>
    (if cs_match_query sec
     then list_all2 (pair_substituted (cs_proxy_value sec) (percent_encode sb)) (split_on CHR ''&'' (rq_query req))
       (split_on CHR ''&'' (rq_query (fst (scan_and_swap req sec sb))))
     else rq_query (fst (scan_and_swap req sec sb)) = rq_query req)"
proof -
  have "cs_match_path sec \<Longrightarrow> rq_path (fst (scan_and_swap req sec sb)) =
    fst (replace_all (rq_path req) (cs_proxy_value sec) (percent_encode sb))"
    using replace_all_valid [OF assms(1,3) percent_encode_valid] replace_all_absent
    by (auto simp: scan_and_swap_eq swapped_path_def)
  then show ?thesis
    using swap_query_structure [OF assms(2,3,4), of sb] replace_all_substituted [OF assms(4)]
    by (auto simp: scan_and_swap_eq swapped_path_def swapped_query_def)
qed

theorem swap_keeps_url_structure_witness:
  "\<exists>v. split_on CHR ''&'' (rq_query (fst (scan_and_swap example_request example_secret ''a&b=c''))) = [''key='' @ v] \<and>
     substituted ''tok'' ''a%26b%3Dc'' ''tok'' v \<and>
     rq_query (fst (scan_and_swap example_request example_secret ''a&b=c'')) = ''key=a%26b%3Dc''"
proof -
  have v: "utf8_valid (rq_path example_request)" "utf8_valid (rq_query example_request)"
    "utf8_valid (cs_proxy_value example_secret)" "cs_proxy_value example_secret \<noteq> []"
    by (auto simp: example_request_def example_secret_def intro!: utf8_valid_ascii)
  have ex: "split_on CHR ''&'' (rq_query example_request) = [''key=tok'']" "split_once CHR ''='' ''key=tok'' = Some (''key'', ''tok'')"
    "cs_match_query example_secret" "cs_proxy_value example_secret = ''tok''" "percent_encode ''a&b=c'' = ''a%26b%3Dc''"
    by code_simp+
  have "rq_query (fst (scan_and_swap example_request example_secret ''a&b=c'')) = ''key=a%26b%3Dc''" by code_simp
  with swap_keeps_url_structure [OF v, of "''a&b=c''"] show ?thesis
    unfolding ex by (auto simp: ex list_all2_Cons1 pair_substituted_def split_once_Some)
qed

text \<open>
  A Basic credential is swapped inside its encoding: the decoded credential has its
  tokens replaced and is encoded again; a credential without the token is left alone even
  if the encoded text happens to contain it.
\<close>

theorem swap_basic_credential:
  "swap_header_value (''Basic '' @ base64_encode cred) tok sb =
    (if contains tok cred then (''Basic '' @ base64_encode (fst (replace_all cred tok sb)), True)
     else (''Basic '' @ base64_encode cred, False))"
proof -
  have "strip_prefix ''Basic '' (''Basic '' @ base64_encode cred) = Some (base64_encode cred)"
    by (simp only: strip_prefix_Some)
  then show ?thesis
    using replace_all_count [of cred tok sb]
    by (simp add: swap_header_value_def b64.dec_enc Let_def case_prod_beta del: append_Cons)
qed

text \<open>
  A secret that is not valid UTF-8 does not survive the swap into a plain header value: the
  lossy decoding replaces its bytes.
\<close>

lemma swap_header_lossy: "swap_header_value ''tok'' ''tok'' [CHR 0xFF] = (replacement, True)"
  by code_simp

end
