(* ===== verification/Kernel_Config.thy ===== *)
theory Kernel_Config
  imports Secrets
begin

text \<open>
  Building a pipeline from configuration: \<open>crates/hematite-kernel/src/config.rs\<close>. The
  structures the \<open>transforms:\<close> list is decoded into, the compilation of rules, secrets and
  transforms, the load-time lints and \<open>build_pipeline_inner\<close>.

  Decoding a JSON value into one of the structures is \<open>serde_json::from_value\<close>, code of the
  \<open>serde\<close> crates: the decoders are a record of functions, an argument of the definitions
  that use it, and what a theorem needs of them is a named hypothesis.
\<close>

section \<open>Configuration structures\<close>

datatype config_error = ConfigError message

fun from_match_error :: "match_config_error \<Rightarrow> config_error" where
  "from_match_error (MatchConfigError m) = ConfigError (Lit ''invalid matcher: '' # m)"

record transform_spec =
  ts_name :: string
  ts_config :: json

record rule_spec =
  rp_host :: string
  rp_methods :: "string list option"
  rp_paths :: "string list option"

record allowlist_config =
  lc_domains :: "string list"
  lc_cidrs :: "string list"
  lc_warn :: bool

record annotate_group_spec =
  gs_rules :: "rule_spec list"
  gs_headers :: "string list"

record header_allowlist_config =
  hc_headers :: "string list"
  hc_rules :: "rule_spec list option"

record body_capture_config =
  bp_max_request_body_bytes :: nat
  bp_rules :: "rule_spec list"

datatype source_spec =
    Source_Env string "string option"
  | Source_File string "string option" "string option" "string option"

record secret_entry =
  se_source :: source_spec
  se_proxy_value :: string
  se_match_headers :: "string list option"
  se_match_query :: bool
  se_match_path :: bool
  se_match_body :: bool
  se_require :: bool
  se_rules :: "rule_spec list"

text \<open>The decoders; the error is the text of \<open>serde_json::Error\<close>.\<close>

record decoders =
  de_allowlist :: "json \<Rightarrow> string + allowlist_config"
  de_annotate :: "json \<Rightarrow> string + annotate_group_spec list"
  de_header_allowlist :: "json \<Rightarrow> string + header_allowlist_config"
  de_body_capture :: "json \<Rightarrow> string + body_capture_config"
  de_secrets :: "json \<Rightarrow> string + secret_entry list"

definition deser :: "string \<Rightarrow> (json \<Rightarrow> string + 'a) \<Rightarrow> json \<Rightarrow> config_error + 'a" where
  "deser name de config =
    map_err (\<lambda>e. ConfigError [Lit ''transform '', Debug name, Lit '': '', Disp e]) (de config)"

section \<open>Compilation\<close>

definition compile_rule :: "rule_spec \<Rightarrow> config_error + rule" where
  "compile_rule s =
    and_then (map_err from_match_error (HostClause_parse (rp_host s))) (\<lambda>host.
    and_then (map_err from_match_error (map_transpose (try_collect PathGlob_parse) (rp_paths s))) (\<lambda>paths.
    Inr \<lparr>rl_host = host, rl_methods = map_option (map to_upper) (rp_methods s), rl_paths = paths\<rparr>))"

definition compile_rules :: "rule_spec list \<Rightarrow> config_error + rule list" where
  "compile_rules specs =
    (if specs = [] then Inl (ConfigError [Lit ''empty rule list'']) else try_collect compile_rule specs)"

text \<open>
  \<open>n * 60\<close> is a \<open>u64\<close> product, which wraps in a release build. Durations are in nanoseconds.
\<close>

definition parse_duration :: "string \<Rightarrow> config_error + nat" where
  "parse_duration s0 =
    (let s = trim s0;
         (digits, unit) = (if list_ex (\<lambda>c. \<not> is_digit c) s
                           then (takeWhile is_digit s, dropWhile is_digit s) else (s, ''s''))
     in and_then (ok_or (ConfigError [Lit ''invalid duration: '', Debug s]) (parse_u64 digits)) (\<lambda>n.
        if unit = ''ms'' then Inr (n * 10 ^ 6)
        else if unit = ''s'' then Inr (n * 10 ^ 9)
        else if unit = ''m'' then Inr (n * 60 mod 2 ^ 64 * 10 ^ 9)
        else Inl (ConfigError [Lit ''invalid duration unit '', Debug unit, Lit '' in '', Debug s])))"

fun into_ref :: "source_spec \<Rightarrow> config_error + source_ref" where
  "into_ref (Source_Env var json_key) =
    Inr \<lparr>sr_kind = Env var, sr_json_key = json_key, sr_ttl = None, sr_failure_ttl = None\<rparr>"
| "into_ref (Source_File path ttl failure_ttl json_key) =
    and_then (map_transpose parse_duration ttl) (\<lambda>t.
    and_then (map_transpose parse_duration failure_ttl) (\<lambda>f.
    Inr \<lparr>sr_kind = File path, sr_json_key = json_key, sr_ttl = t, sr_failure_ttl = f\<rparr>))"

definition build_secret_spec :: "regex_builder \<Rightarrow> secret_entry \<Rightarrow> config_error + secret_spec" where
  "build_secret_spec re_build entry =
    and_then
      (case se_match_headers entry of
         None \<Rightarrow> Inr None
       | Some hs \<Rightarrow>
           if hs = [] then Inr None
           else and_then (map_err from_match_error (try_collect (\<lambda>h. HeaderNameEntry_parse re_build h True) hs))
                  (\<lambda>es. Inr (Some es)))
      (\<lambda>match_headers.
    if se_match_path entry \<and> \<not> list_all unreserved (se_proxy_value entry) then
      Inl (ConfigError [Lit ''secrets: proxy_value must be RFC 3986 unreserved-only when match_path is set''])
    else
      and_then (into_ref (se_source entry)) (\<lambda>source.
      and_then (compile_rules (se_rules entry)) (\<lambda>rules.
      Inr \<lparr>ss_source = source, ss_proxy_value = se_proxy_value entry, ss_match_headers = match_headers,
           ss_match_query = se_match_query entry, ss_match_path = se_match_path entry,
           ss_match_body = se_match_body entry, ss_require = se_require entry, ss_rules = rules\<rparr>)))"

definition annotate_header_name :: "regex_builder \<Rightarrow> string \<Rightarrow> match_config_error + string" where
  "annotate_header_name re_build h =
    and_then (HeaderNameEntry_parse re_build h False)
      (\<lambda>e. case e of Literal l \<Rightarrow> Inr l | Regex _ \<Rightarrow> Inl (MatchConfigError [Lit ''unreachable: allow_regex = false'']))"

definition build_group :: "regex_builder \<Rightarrow> annotate_group_spec \<Rightarrow> config_error + annotate_group" where
  "build_group re_build g =
    and_then (map_err from_match_error (try_collect (annotate_header_name re_build) (gs_headers g))) (\<lambda>headers.
    and_then (compile_rules (gs_rules g)) (\<lambda>rules.
    Inr \<lparr>ag_rules = rules, ag_headers = headers\<rparr>))"

definition build_transform ::
  "decoders \<Rightarrow> regex_builder \<Rightarrow> 's resolver option \<Rightarrow> transform_spec \<Rightarrow> config_error + 's transform" where
  "build_transform de re_build resolver spec =
    (if ts_name spec = ''allowlist'' then
       and_then (deser ''allowlist'' (de_allowlist de) (ts_config spec)) (\<lambda>c.
       if lc_domains c = [] \<and> lc_cidrs c = [] then
         Inl (ConfigError [Lit (''allowlist: at least one of domains/cidrs must be non-empty (Part 04 '' @ section_sign @ ''1)'')])
       else
         and_then (map_err from_match_error (try_collect DomainGlob_parse (lc_domains c))) (\<lambda>ds.
         and_then (map_err from_match_error (try_collect Cidr_parse (lc_cidrs c))) (\<lambda>cs.
         Inr (Allowlist \<lparr>al_domains = ds, al_cidrs = cs, al_warn = lc_warn c\<rparr>))))
     else if ts_name spec = ''annotate'' then
       and_then (deser ''annotate'' (de_annotate de) (ts_config spec)) (\<lambda>c.
       and_then (try_collect (build_group re_build) c) (\<lambda>groups.
       Inr (Annotate groups)))
     else if ts_name spec = ''header_allowlist'' then
       and_then (deser ''header_allowlist'' (de_header_allowlist de) (ts_config spec)) (\<lambda>c.
       if hc_headers c = [] then
         Inl (ConfigError [Lit ''header_allowlist: headers must be non-empty''])
       else
         and_then (map_err from_match_error (try_collect (\<lambda>h. HeaderNameEntry_parse re_build h True) (hc_headers c))) (\<lambda>es.
         and_then (map_transpose compile_rules (hc_rules c)) (\<lambda>rules.
         Inr (HeaderAllowlist \<lparr>ha_entries = es, ha_rules = rules\<rparr>))))
     else if ts_name spec = ''body_capture'' then
       and_then (deser ''body_capture'' (de_body_capture de) (ts_config spec)) (\<lambda>c.
       and_then (compile_rules (bp_rules c)) (\<lambda>rules.
       Inr (BodyCaptureTransform \<lparr>bt_max_request_body_bytes = bp_max_request_body_bytes c, bt_rules = rules\<rparr>)))
     else if ts_name spec = ''secrets'' then
       and_then (ok_or (ConfigError [Lit ''the `secrets` transform is L3; build with a SecretResolver (build_pipeline_with_resolver)''])
           resolver) (\<lambda>resolve.
       and_then (deser ''secrets'' (de_secrets de) (ts_config spec)) (\<lambda>c.
       if c = [] then Inl (ConfigError [Lit ''secrets: at least one secret required''])
       else
         and_then (try_collect (build_secret_spec re_build) c) (\<lambda>specs.
         Inr (Secrets_build specs resolve))))
     else Inl (ConfigError [Lit ''unknown transform '', Debug (ts_name spec),
                            Lit ('': the v1 registry is closed (Part 03 '' @ section_sign @ ''5)'')]))"

section \<open>The lints\<close>

text \<open>\<open>iter().position(P)\<close>.\<close>

fun position :: "('a \<Rightarrow> bool) \<Rightarrow> 'a list \<Rightarrow> nat option" where
  "position P [] = None"
| "position P (x # xs) = (if P x then Some 0 else map_option Suc (position P xs))"

definition body_matching_secrets :: "transform_spec \<Rightarrow> bool" where
  "body_matching_secrets s \<longleftrightarrow>
    ts_name s = ''secrets'' \<and>
    unwrap_or (map_option (\<lambda>arr. list_ex (\<lambda>e. Option.bind (Value_get e ''match_body'') as_bool = Some True) arr)
      (Option.bind (Value_get (ts_config s) ''secrets'') as_array)) False"

definition body_capture_ordering :: "transform_spec list \<Rightarrow> config_error + unit" where
  "body_capture_ordering specs =
    (case (position body_matching_secrets specs, position (\<lambda>s. ts_name s = ''body_capture'') specs) of
       (Some secrets_i, Some capture_i) \<Rightarrow>
         if secrets_i < capture_i then
           Inl (ConfigError [Lit (''body_capture follows a secrets entry with match_body: true; the log would hold real credentials ''
             @ em_dash @ '' move body_capture before the secrets entry (Part 04 '' @ section_sign @ ''6, Part 08 ''
             @ section_sign @ ''3)'')])
         else Inr ()
     | _ \<Rightarrow> Inr ())"

datatype swap_headers = Swap_All | Swap_Some "header_name_entry list"

fun covers :: "swap_headers \<Rightarrow> string \<Rightarrow> bool" where
  "covers Swap_All name = True"
| "covers (Swap_Some entries) name = list_ex (\<lambda>e. HeaderNameEntry_matches e name) entries"

definition parsed_entries :: "regex_builder \<Rightarrow> json list \<Rightarrow> header_name_entry list" where
  "parsed_entries re_build vs =
    concat (map (\<lambda>h. case HeaderNameEntry_parse re_build h True of Inr e \<Rightarrow> [e] | Inl _ \<Rightarrow> [])
      (List.map_filter as_str vs))"

fun swap_headers_loop :: "regex_builder \<Rightarrow> json list \<Rightarrow> header_name_entry list \<Rightarrow> swap_headers" where
  "swap_headers_loop re_build [] names = Swap_Some names"
| "swap_headers_loop re_build (entry # entries) names =
    (case Value_get entry ''match_headers'' of
       None \<Rightarrow> Swap_All
     | Some (JArray vs) \<Rightarrow>
         if vs = [] then Swap_All
         else swap_headers_loop re_build entries (names @ parsed_entries re_build vs)
     | Some _ \<Rightarrow> swap_headers_loop re_build entries names)"

definition secret_swap_headers :: "regex_builder \<Rightarrow> transform_spec \<Rightarrow> swap_headers" where
  "secret_swap_headers re_build spec =
    (case Option.bind (Value_get (ts_config spec) ''secrets'') as_array of
       Some arr \<Rightarrow> swap_headers_loop re_build arr []
     | None \<Rightarrow> Swap_Some [])"

definition captured_headers :: "transform_spec \<Rightarrow> string list" where
  "captured_headers spec =
    unwrap_or (map_option
        (\<lambda>groups. map to_lower (List.map_filter as_str
           (concat (List.map_filter (\<lambda>g. Option.bind (Value_get g ''headers'') as_array) groups))))
      (Option.bind (Value_get (ts_config spec) ''annotations'') as_array)) []"

text \<open>The inner loop, over the transforms before an \<open>annotate\<close>.\<close>

fun check_priors :: "regex_builder \<Rightarrow> string list \<Rightarrow> transform_spec list \<Rightarrow> config_error + unit" where
  "check_priors re_build captured [] = Inr ()"
| "check_priors re_build captured (prior # priors) =
    (if ts_name prior \<noteq> ''secrets'' then check_priors re_build captured priors
     else case find (covers (secret_swap_headers re_build prior)) captured of
            Some name \<Rightarrow>
              Inl (ConfigError [Lit ''annotate captures header '', Debug name,
                Lit ('' that a preceding secrets entry may swap; the log would hold the real credential ''
                  @ em_dash @ '' place annotate before secrets (Part 04 '' @ section_sign @ ''2, Part 08 ''
                  @ section_sign @ ''3)'')])
          | None \<Rightarrow> check_priors re_build captured priors)"

text \<open>The outer loop; the first argument holds the transforms already seen.\<close>

fun annotate_loop :: "regex_builder \<Rightarrow> transform_spec list \<Rightarrow> transform_spec list \<Rightarrow> config_error + unit" where
  "annotate_loop re_build seen [] = Inr ()"
| "annotate_loop re_build seen (spec # specs) =
    (if ts_name spec \<noteq> ''annotate'' \<or> captured_headers spec = [] then annotate_loop re_build (seen @ [spec]) specs
     else and_then (check_priors re_build (captured_headers spec) seen)
            (\<lambda>_. annotate_loop re_build (seen @ [spec]) specs))"

definition annotate_after_secret_swap :: "regex_builder \<Rightarrow> transform_spec list \<Rightarrow> config_error + unit" where
  "annotate_after_secret_swap re_build specs = annotate_loop re_build [] specs"

section \<open>Building\<close>

record 's built_pipeline =
  bu_pipeline :: "'s pipeline"
  bu_warnings :: "string list"

definition build_pipeline_inner ::
  "decoders \<Rightarrow> regex_builder \<Rightarrow> transform_spec list \<Rightarrow> 's resolver option \<Rightarrow> config_error + 's built_pipeline" where
  "build_pipeline_inner de re_build specs resolver =
    (let allowlist_pos = position (\<lambda>s. ts_name s = ''allowlist'') specs
     in if allowlist_pos = None then
          Inl (ConfigError [Lit (''no allowlist transform: default-deny is structural (Part 04 '' @ section_sign @ ''1)'')])
        else
          (let warnings = (if allowlist_pos \<noteq> Some 0
                           then [''allowlist is present but not first in the pipeline (Part 04 '' @ section_sign @ ''1)''] else [])
           in and_then (body_capture_ordering specs) (\<lambda>_.
              and_then (annotate_after_secret_swap re_build specs) (\<lambda>_.
              and_then (try_collect (build_transform de re_build resolver) specs) (\<lambda>transforms.
              Inr \<lparr>bu_pipeline = transforms, bu_warnings = warnings\<rparr>)))))"

definition build_pipeline :: "decoders \<Rightarrow> regex_builder \<Rightarrow> transform_spec list \<Rightarrow> config_error + 's built_pipeline" where
  "build_pipeline de re_build specs = build_pipeline_inner de re_build specs None"

definition build_pipeline_with_resolver ::
  "decoders \<Rightarrow> regex_builder \<Rightarrow> transform_spec list \<Rightarrow> 's resolver \<Rightarrow> config_error + 's built_pipeline" where
  "build_pipeline_with_resolver de re_build specs resolver = build_pipeline_inner de re_build specs (Some resolver)"

section \<open>What is built\<close>

lemma position_Some:
  "position P xs = Some i \<longleftrightarrow> i < length xs \<and> P (xs ! i) \<and> (\<forall>j < i. \<not> P (xs ! j))"
proof (induction xs arbitrary: i)
  case (Cons x xs)
  then show ?case
    by (cases i) (auto simp: nth_Cons less_Suc_eq_0_disj split: if_splits nat.splits)
qed simp

lemma position_None: "position P xs = None \<longleftrightarrow> (\<forall>x \<in> set xs. \<not> P x)"
  by (induction xs) auto

lemma deser_Inr [result_simps]: "deser name de c = Inr x \<longleftrightarrow> de c = Inr x"
  by (simp add: deser_def map_err_Inr)

lemmas build_simps = build_transform_def result_simps Allowlist_def Annotate_def HeaderAllowlist_def
  BodyCaptureTransform_def Secrets_build_def Secrets_def

lemma build_transform_name:
  assumes "build_transform de re r spec = Inr t"
  shows "tr_name t = ts_name spec"
  using assms by (auto simp: build_simps split: if_split_asm)

lemma build_transform_keeper:
  assumes "build_transform de re r spec = Inr t"
  shows "destination_keeper t"
  using assms
  by (auto simp: build_transform_def result_simps Secrets_build_def split: if_split_asm
      intro: allowlist.destination_keeper_axioms annotate.destination_keeper_axioms
        header_allowlist.destination_keeper_axioms body_capture.destination_keeper_axioms
        secrets.destination_keeper_axioms)

lemma build_allowlist:
  assumes "build_transform de re r spec = Inr t" and "ts_name spec = ''allowlist''"
  shows "\<exists>c ds cs. de_allowlist de (ts_config spec) = Inr c \<and> (lc_domains c \<noteq> [] \<or> lc_cidrs c \<noteq> []) \<and>
    list_all2 (\<lambda>d g. DomainGlob_parse d = Inr g) (lc_domains c) ds \<and>
    list_all2 (\<lambda>x k. Cidr_parse x = Inr k) (lc_cidrs c) cs \<and>
    t = Allowlist \<lparr>al_domains = ds, al_cidrs = cs, al_warn = lc_warn c\<rparr>"
  using assms by (auto simp: build_transform_def result_simps split: if_split_asm)

lemma build_pipeline_innerD:
  assumes "build_pipeline_inner de re specs r = Inr b"
  shows "list_all2 (\<lambda>s t. build_transform de re r s = Inr t) specs (bu_pipeline b)"
    and "\<exists>s \<in> set specs. ts_name s = ''allowlist''"
    and "body_capture_ordering specs = Inr ()" and "annotate_after_secret_swap re specs = Inr ()"
    and "bu_warnings b = [] \<longleftrightarrow> position (\<lambda>s. ts_name s = ''allowlist'') specs = Some 0"
  using assms position_None [of "\<lambda>s. ts_name s = ''allowlist''" specs]
  by (auto simp: build_pipeline_inner_def Let_def result_simps split: if_split_asm)

lemma built_keepers:
  assumes "build_pipeline_inner de re specs r = Inr b"
  shows "\<forall>t \<in> set (bu_pipeline b). destination_keeper t"
proof
  fix t assume "t \<in> set (bu_pipeline b)"
  from list_all2_In2 [OF build_pipeline_innerD(1) [OF assms] this]
  obtain s where "build_transform de re r s = Inr t" by blast
  then show "destination_keeper t" by (rule build_transform_keeper)
qed

lemma built_names:
  assumes "build_pipeline_inner de re specs r = Inr b"
  shows "transform_names (bu_pipeline b) = map ts_name specs"
  using build_pipeline_innerD(1) [OF assms]
  by (induction rule: list_all2_induct) (auto simp: transform_names_def dest: build_transform_name)

lemma built_allowlist_guards:
  assumes "build_pipeline_inner de re specs r = Inr b" and "spec \<in> set specs" and "ts_name spec = ''allowlist''"
    and "evaluate_request (bu_pipeline b) s req = (po, req', s')" and "is_allowed (po_outcome po)"
  shows "\<exists>c. de_allowlist de (ts_config spec) = Inr c \<and>
    (lc_warn c \<or> (\<exists>d \<in> set (lc_domains c). \<exists>g. DomainGlob_parse d = Inr g \<and> DomainGlob_matches g (rq_host req)) \<or>
     (\<exists>x \<in> set (lc_cidrs c). \<exists>k. Cidr_parse x = Inr k \<and> Cidr_matches_host k (rq_host req)))"
proof -
  from list_all2_In1 [OF build_pipeline_innerD(1) [OF assms(1)] assms(2)] obtain t where
    t: "t \<in> set (bu_pipeline b)" "build_transform de re r spec = Inr t" by blast
  from build_allowlist [OF t(2) assms(3)] obtain c ds cs where c: "de_allowlist de (ts_config spec) = Inr c"
    "list_all2 (\<lambda>d g. DomainGlob_parse d = Inr g) (lc_domains c) ds"
    "list_all2 (\<lambda>x k. Cidr_parse x = Inr k) (lc_cidrs c) cs"
    "t = Allowlist \<lparr>al_domains = ds, al_cidrs = cs, al_warn = lc_warn c\<rparr>" by blast
  show ?thesis
  proof (cases "lc_warn c")
    case False
    with allowlist_guards [OF assms(4,5) built_keepers [OF assms(1)]] t(1) c(4)
    have "host_allowed \<lparr>al_domains = ds, al_cidrs = cs, al_warn = lc_warn c\<rparr> (rq_host req)" by simp
    then have "(\<exists>g \<in> set ds. DomainGlob_matches g (rq_host req)) \<or> (\<exists>k \<in> set cs. Cidr_matches_host k (rq_host req))"
      by (simp add: host_allowed_def list_ex_iff)
    with c list_all2_In2 [OF c(2)] list_all2_In2 [OF c(3)] show ?thesis by metis
  qed (use c in blast)
qed

section \<open>What the header lint guarantees\<close>

text \<open>
  What the code relies on of the decoders, for values in object form: the list of secrets is
  the array under its key, and a list of header names is what the array says; a missing or
  null \<open>match_headers\<close> is \<open>None\<close>.
\<close>

definition headers_agree :: "json \<Rightarrow> secret_entry \<Rightarrow> bool" where
  "headers_agree v e \<longleftrightarrow>
    (\<forall>kvs. v = JObject kvs \<longrightarrow>
      (case map_of kvs ''match_headers'' of
         None \<Rightarrow> se_match_headers e = None
       | Some JNull \<Rightarrow> se_match_headers e = None
       | Some w \<Rightarrow> (\<exists>hs. w = JArray (map JString hs) \<and> se_match_headers e = Some hs)))"

definition secrets_decoding :: "decoders \<Rightarrow> bool" where
  "secrets_decoding de \<longleftrightarrow>
    (\<forall>kvs es. de_secrets de (JObject kvs) = Inr es \<longrightarrow>
      (\<exists>vs. map_of kvs ''secrets'' = Some (JArray vs) \<and> list_all2 headers_agree vs es))"

definition annotate_decoding :: "decoders \<Rightarrow> bool" where
  "annotate_decoding de \<longleftrightarrow>
    (\<forall>kvs gs. de_annotate de (JObject kvs) = Inr gs \<longrightarrow>
      (\<exists>vs. map_of kvs ''annotations'' = Some (JArray vs) \<and>
        list_all2 (\<lambda>v g. \<forall>ks. v = JObject ks \<longrightarrow> map_of ks ''headers'' = Some (JArray (map JString (gs_headers g)))) vs gs))"

fun is_object :: "json \<Rightarrow> bool" where
  "is_object (JObject _) = True"
| "is_object _ = False"

text \<open>Object form throughout, and no null list of headers: where the lint sees everything.\<close>

definition plain_secrets :: "json \<Rightarrow> bool" where
  "plain_secrets v \<longleftrightarrow>
    is_object v \<and> (\<forall>vs. Value_get v ''secrets'' = Some (JArray vs) \<longrightarrow>
      list_all (\<lambda>e. is_object e \<and> Value_get e ''match_headers'' \<noteq> Some JNull) vs)"

definition plain_annotate :: "json \<Rightarrow> bool" where
  "plain_annotate v \<longleftrightarrow>
    is_object v \<and> (\<forall>vs. Value_get v ''annotations'' = Some (JArray vs) \<longrightarrow> list_all is_object vs)"

lemma map_filter_JString [simp]: "List.map_filter as_str (map JString hs) = hs"
  by (induction hs) (simp_all add: List.map_filter_simps)

lemma parsed_entries_strings:
  assumes "list_all2 (\<lambda>h e. HeaderNameEntry_parse re h True = Inr e) hs es"
  shows "parsed_entries re (map JString hs) = es"
  using assms unfolding parsed_entries_def map_filter_JString
  by (induction rule: list_all2_induct) simp_all

text \<open>The header entries of a secret, as the code compiles them.\<close>

definition selects :: "header_name_entry list option \<Rightarrow> string \<Rightarrow> bool" where
  "selects m name \<longleftrightarrow> (case m of None \<Rightarrow> True | Some es \<Rightarrow> list_ex (\<lambda>e. HeaderNameEntry_matches e name) es)"

lemma swap_headers_loop_mono:
  "covers (Swap_Some names) n \<Longrightarrow> covers (swap_headers_loop re vs names) n"
proof (induction re vs names rule: swap_headers_loop.induct)
  case (2 re entry entries names)
  show ?case
  proof (cases "Value_get entry ''match_headers''")
    case (Some w)
    with 2 show ?thesis by (cases w) auto
  qed simp
qed simp

lemma swap_headers_loop_covers:
  assumes "list_all2 headers_agree vs es" and "list_all2 (\<lambda>e s. build_secret_spec re e = Inr s) es ss"
    and "list_all (\<lambda>e. is_object e \<and> Value_get e ''match_headers'' \<noteq> Some JNull) vs"
    and "s \<in> set ss" and "selects (ss_match_headers s) n"
  shows "covers (swap_headers_loop re vs names) n"
  using assms
proof (induction vs arbitrary: es ss names)
  case (Cons v vs)
  obtain e es' where es: "es = e # es'" "headers_agree v e" "list_all2 headers_agree vs es'"
    using Cons.prems(1) by (auto simp: list_all2_Cons1)
  obtain t ss' where ss: "ss = t # ss'" "build_secret_spec re e = Inr t"
    "list_all2 (\<lambda>e s. build_secret_spec re e = Inr s) es' ss'"
    using Cons.prems(2) es(1) by (auto simp: list_all2_Cons1)
  obtain kvs where kvs: "v = JObject kvs" using Cons.prems(3) by (cases v) auto
  show ?case
  proof (cases "map_of kvs ''match_headers''")
    case None
    then show ?thesis by (simp add: kvs)
  next
    case (Some w)
    have "w \<noteq> JNull" using Cons.prems(3) Some kvs by simp
    with es(2) Some kvs obtain hs where w: "w = JArray (map JString hs)" "se_match_headers e = Some hs"
      by (cases w) (auto simp: headers_agree_def)
    show ?thesis
    proof (cases "hs = []")
      case True
      then show ?thesis by (simp add: kvs Some w)
    next
      case False
      with ss(2) w(2) obtain hes where hes: "list_all2 (\<lambda>h e. HeaderNameEntry_parse re h True = Inr e) hs hes"
        "ss_match_headers t = Some hes"
        by (auto simp: build_secret_spec_def result_simps split: if_split_asm)
      have loop: "swap_headers_loop re (v # vs) names = swap_headers_loop re vs (names @ hes)"
        using False parsed_entries_strings [OF hes(1)] by (simp add: kvs Some w)
      show ?thesis
      proof (cases "s = t")
        case True
        with Cons.prems(5) hes(2) have "covers (Swap_Some (names @ hes)) n" by (simp add: selects_def)
        then show ?thesis unfolding loop by (rule swap_headers_loop_mono)
      next
        case False
        with Cons.prems(4) ss(1) have "s \<in> set ss'" by simp
        with Cons.IH [OF es(3) ss(3)] Cons.prems(3,5) show ?thesis unfolding loop by simp
      qed
    qed
  qed
qed simp

lemma check_priors_covers:
  "check_priors re captured priors = Inr () \<Longrightarrow> p \<in> set priors \<Longrightarrow> ts_name p = ''secrets'' \<Longrightarrow>
   n \<in> set captured \<Longrightarrow> \<not> covers (secret_swap_headers re p) n"
  by (induction re captured priors rule: check_priors.induct)
    (auto simp: find_None_all split: if_split_asm option.splits)

lemma annotate_loop_covers:
  "annotate_loop re seen specs = Inr () \<Longrightarrow> specs = as @ a # bs \<Longrightarrow> ts_name a = ''annotate'' \<Longrightarrow>
   p \<in> set (seen @ as) \<Longrightarrow> ts_name p = ''secrets'' \<Longrightarrow> n \<in> set (captured_headers a) \<Longrightarrow>
   \<not> covers (secret_swap_headers re p) n"
proof (induction re seen specs arbitrary: as rule: annotate_loop.induct)
  case (2 re seen spec specs)
  show ?case
  proof (cases as)
    case Nil
    with 2 show ?thesis using check_priors_covers [of re "captured_headers a" seen p n]
      by (auto simp: result_simps split: if_split_asm)
  next
    case (Cons x xs)
    with "2.prems" have "annotate_loop re (seen @ [spec]) specs = Inr ()"
      by (auto simp: result_simps split: if_split_asm)
    with 2 Cons show ?thesis
      by (cases "ts_name spec \<noteq> ''annotate'' \<or> captured_headers spec = []") (auto simp: result_simps)
  qed
qed simp

section \<open>Decoders for values in object form\<close>

text \<open>
  Decoders that accept the object form only, field by field as the structures declare them:
  an instance of the parameter.
\<close>

fun d_str :: "json \<Rightarrow> string + string" where
  "d_str (JString s) = Inr s"
| "d_str _ = Inl ''expected a string''"

fun d_bool :: "json \<Rightarrow> string + bool" where
  "d_bool (JBool b) = Inr b"
| "d_bool _ = Inl ''expected a boolean''"

fun d_nat :: "json \<Rightarrow> string + nat" where
  "d_nat (JNumber n) = Inr n"
| "d_nat _ = Inl ''expected a number''"

fun d_list :: "(json \<Rightarrow> string + 'a) \<Rightarrow> json \<Rightarrow> string + 'a list" where
  "d_list f (JArray vs) = try_collect f vs"
| "d_list f _ = Inl ''expected an array''"

definition d_opt :: "(json \<Rightarrow> string + 'a) \<Rightarrow> json \<Rightarrow> string + 'a option" where
  "d_opt f v = (case v of JNull \<Rightarrow> Inr None | _ \<Rightarrow> and_then (f v) (\<lambda>x. Inr (Some x)))"

definition d_field :: "json_map \<Rightarrow> string \<Rightarrow> (json \<Rightarrow> string + 'a) \<Rightarrow> string + 'a" where
  "d_field kvs k f = (case map_of kvs k of None \<Rightarrow> Inl (''missing field '' @ k) | Some v \<Rightarrow> f v)"

definition d_default :: "json_map \<Rightarrow> string \<Rightarrow> 'a \<Rightarrow> (json \<Rightarrow> string + 'a) \<Rightarrow> string + 'a" where
  "d_default kvs k x f = (case map_of kvs k of None \<Rightarrow> Inr x | Some v \<Rightarrow> f v)"

definition d_object :: "string list \<Rightarrow> (json_map \<Rightarrow> string + 'a) \<Rightarrow> json \<Rightarrow> string + 'a" where
  "d_object ks f v =
    (case v of
       JObject kvs \<Rightarrow> if list_all (\<lambda>(k, _). k \<in> set ks) kvs then f kvs else Inl ''unknown field''
     | _ \<Rightarrow> Inl ''expected an object'')"

definition d_rule :: "json \<Rightarrow> string + rule_spec" where
  "d_rule = d_object [''host'', ''methods'', ''paths''] (\<lambda>kvs.
    and_then (d_field kvs ''host'' d_str) (\<lambda>h.
    and_then (d_default kvs ''methods'' None (d_opt (d_list d_str))) (\<lambda>m.
    and_then (d_default kvs ''paths'' None (d_opt (d_list d_str))) (\<lambda>p.
    Inr \<lparr>rp_host = h, rp_methods = m, rp_paths = p\<rparr>))))"

definition d_source :: "json \<Rightarrow> string + source_spec" where
  "d_source = d_object [''type'', ''var'', ''path'', ''ttl'', ''failure_ttl'', ''json_key''] (\<lambda>kvs.
    and_then (d_field kvs ''type'' d_str) (\<lambda>ty.
    and_then (d_default kvs ''json_key'' None (d_opt d_str)) (\<lambda>jk.
    if ty = ''env'' then and_then (d_field kvs ''var'' d_str) (\<lambda>v. Inr (Source_Env v jk))
    else if ty = ''file'' then
      and_then (d_field kvs ''path'' d_str) (\<lambda>p.
      and_then (d_default kvs ''ttl'' None (d_opt d_str)) (\<lambda>t.
      and_then (d_default kvs ''failure_ttl'' None (d_opt d_str)) (\<lambda>f.
      Inr (Source_File p t f jk))))
    else Inl ''unknown variant'')))"

definition d_secret :: "json \<Rightarrow> string + secret_entry" where
  "d_secret = d_object [''source'', ''proxy_value'', ''match_headers'', ''match_query'', ''match_path'', ''match_body'',
      ''require'', ''rules''] (\<lambda>kvs.
    and_then (d_field kvs ''source'' d_source) (\<lambda>so.
    and_then (d_field kvs ''proxy_value'' d_str) (\<lambda>pv.
    and_then (d_default kvs ''match_headers'' None (d_opt (d_list d_str))) (\<lambda>mh.
    and_then (d_default kvs ''match_query'' False d_bool) (\<lambda>mq.
    and_then (d_default kvs ''match_path'' False d_bool) (\<lambda>mp.
    and_then (d_default kvs ''match_body'' False d_bool) (\<lambda>mb.
    and_then (d_default kvs ''require'' False d_bool) (\<lambda>rq.
    and_then (d_field kvs ''rules'' (d_list d_rule)) (\<lambda>rs.
    Inr \<lparr>se_source = so, se_proxy_value = pv, se_match_headers = mh, se_match_query = mq, se_match_path = mp,
         se_match_body = mb, se_require = rq, se_rules = rs\<rparr>)))))))))"

definition d_group :: "json \<Rightarrow> string + annotate_group_spec" where
  "d_group = d_object [''rules'', ''headers''] (\<lambda>kvs.
    and_then (d_field kvs ''rules'' (d_list d_rule)) (\<lambda>rs.
    and_then (d_field kvs ''headers'' (d_list d_str)) (\<lambda>hs.
    Inr \<lparr>gs_rules = rs, gs_headers = hs\<rparr>)))"

definition object_decoders :: decoders where
  "object_decoders =
    \<lparr>de_allowlist = d_object [''domains'', ''cidrs'', ''warn''] (\<lambda>kvs.
       and_then (d_default kvs ''domains'' [] (d_list d_str)) (\<lambda>ds.
       and_then (d_default kvs ''cidrs'' [] (d_list d_str)) (\<lambda>cs.
       and_then (d_default kvs ''warn'' False d_bool) (\<lambda>w.
       Inr \<lparr>lc_domains = ds, lc_cidrs = cs, lc_warn = w\<rparr>)))),
     de_annotate = d_object [''annotations''] (\<lambda>kvs. d_field kvs ''annotations'' (d_list d_group)),
     de_header_allowlist = d_object [''headers'', ''rules''] (\<lambda>kvs.
       and_then (d_field kvs ''headers'' (d_list d_str)) (\<lambda>hs.
       and_then (d_default kvs ''rules'' None (d_opt (d_list d_rule))) (\<lambda>rs.
       Inr \<lparr>hc_headers = hs, hc_rules = rs\<rparr>))),
     de_body_capture = d_object [''max_request_body_bytes'', ''rules''] (\<lambda>kvs.
       and_then (d_field kvs ''max_request_body_bytes'' d_nat) (\<lambda>n.
       and_then (d_field kvs ''rules'' (d_list d_rule)) (\<lambda>rs.
       Inr \<lparr>bp_max_request_body_bytes = n, bp_rules = rs\<rparr>))),
     de_secrets = d_object [''secrets''] (\<lambda>kvs. d_field kvs ''secrets'' (d_list d_secret))\<rparr>"

lemma d_str_Inr [result_simps]: "d_str v = Inr s \<longleftrightarrow> v = JString s"
  by (cases v) auto

lemma d_list_Inr: "d_list f v = Inr xs \<longleftrightarrow> (\<exists>vs. v = JArray vs \<and> list_all2 (\<lambda>v x. f v = Inr x) vs xs)"
  by (cases v) (auto simp: try_collect_Inr)

lemma list_all2_JString: "list_all2 (\<lambda>v x. v = JString x) vs xs \<longleftrightarrow> vs = map JString xs"
  by (induction vs arbitrary: xs) (auto simp: list_all2_Cons1 list_all2_Cons2 Cons_eq_map_conv)

lemma d_strs_Inr: "d_list d_str v = Inr xs \<longleftrightarrow> v = JArray (map JString xs)"
  by (simp add: d_list_Inr d_str_Inr list_all2_JString)

lemma d_field_Inr: "d_field kvs k f = Inr x \<longleftrightarrow> (\<exists>v. map_of kvs k = Some v \<and> f v = Inr x)"
  by (auto simp: d_field_def split: option.splits)

lemma d_object_Inr: "d_object ks f (JObject kvs) = Inr x \<Longrightarrow> f kvs = Inr x"
  by (auto simp: d_object_def split: if_splits)

lemma d_secret_agrees: "d_secret v = Inr e \<Longrightarrow> headers_agree v e"
  unfolding headers_agree_def
proof (intro allI impI)
  fix kvs assume v: "d_secret v = Inr e" "v = JObject kvs"
  then have "d_default kvs ''match_headers'' None (d_opt (d_list d_str)) = Inr (se_match_headers e)"
    unfolding d_secret_def by (auto dest!: d_object_Inr simp: and_then_Inr)
  then show "case map_of kvs ''match_headers'' of None \<Rightarrow> se_match_headers e = None
      | Some JNull \<Rightarrow> se_match_headers e = None
      | Some w \<Rightarrow> \<exists>hs. w = JArray (map JString hs) \<and> se_match_headers e = Some hs"
    by (auto simp: d_default_def d_opt_def result_simps list_all2_JString split: option.splits json.splits)
qed

lemma object_secrets_decoding: "secrets_decoding object_decoders"
  unfolding secrets_decoding_def object_decoders_def
  by (auto dest!: d_object_Inr simp: d_field_Inr d_list_Inr elim!: list_all2_mono d_secret_agrees)

lemma d_group_headers:
  "d_group v = Inr g \<Longrightarrow> v = JObject ks \<Longrightarrow> map_of ks ''headers'' = Some (JArray (map JString (gs_headers g)))"
  unfolding d_group_def by (auto dest!: d_object_Inr simp: and_then_Inr d_field_Inr d_strs_Inr)

lemma object_annotate_decoding: "annotate_decoding object_decoders"
  unfolding annotate_decoding_def object_decoders_def
  by (auto dest!: d_object_Inr simp: d_field_Inr d_list_Inr elim!: list_all2_mono d_group_headers)

lemma build_group_headers:
  assumes "build_group re g = Inr c" and "h \<in> set (ag_headers c)"
  shows "\<exists>x \<in> set (gs_headers g). h = to_lower x"
proof -
  from assms(1) have "list_all2 (\<lambda>x y. annotate_header_name re x = Inr y) (gs_headers g) (ag_headers c)"
    by (auto simp: build_group_def result_simps)
  from list_all2_In2 [OF this assms(2)] obtain x where x: "x \<in> set (gs_headers g)" "annotate_header_name re x = Inr h"
    by blast
  from x(2) have "h = to_lower x"
    by (auto simp: annotate_header_name_def HeaderNameEntry_parse_def result_simps split: if_split_asm header_name_entry.splits)
  with x(1) show ?thesis by blast
qed

lemma captured_complete:
  assumes "ts_config a = JObject ka" and "map_of ka ''annotations'' = Some (JArray ws)"
    and "list_all2 (\<lambda>v g. \<forall>ks. v = JObject ks \<longrightarrow> map_of ks ''headers'' = Some (JArray (map JString (gs_headers g)))) ws gsp"
    and "list_all2 (\<lambda>g c. build_group re g = Inr c) gsp gs" and "list_all is_object ws"
    and "g \<in> set gs" and "h \<in> set (ag_headers g)"
  shows "h \<in> set (captured_headers a)"
proof -
  from list_all2_In2 [OF assms(4,6)] obtain s where s: "s \<in> set gsp" "build_group re s = Inr g" by blast
  from list_all2_In2 [OF assms(3) s(1)] obtain v where v: "v \<in> set ws"
    "\<forall>ks. v = JObject ks \<longrightarrow> map_of ks ''headers'' = Some (JArray (map JString (gs_headers s)))" by blast
  obtain ks where ks: "v = JObject ks" using assms(5) v(1) by (cases v) (auto simp: list_all_iff)
  from build_group_headers [OF s(2) assms(7)] obtain x where x: "x \<in> set (gs_headers s)" "h = to_lower x" by blast
  have "Option.bind (Value_get v ''headers'') as_array = Some (map JString (gs_headers s))"
    using v(2) ks by simp
  then have "map JString (gs_headers s) \<in> set (List.map_filter (\<lambda>g. Option.bind (Value_get g ''headers'') as_array) ws)"
    using v(1) by (auto simp: List.map_filter_def intro!: image_eqI [of _ _ v])
  then have "x \<in> set (List.map_filter as_str (concat (List.map_filter (\<lambda>g. Option.bind (Value_get g ''headers'') as_array) ws)))"
    using x(1) by (force simp: List.map_filter_def)
  with x(2) show ?thesis using assms(1,2) by (simp add: captured_headers_def)
qed

section \<open>Properties\<close>

text \<open>
  Default deny from configuration to decision: when a configuration loads and its pipeline
  allows a request, then for every allowlist of the file that does not merely warn, the host
  of the request matches one of its domain patterns or is an address in one of its blocks;
  and the request that is forwarded still has the destination the client asked for.
\<close>

theorem loaded_pipeline_default_deny:
  assumes "build_pipeline_inner de re_build specs resolver = Inr b"
    and "evaluate_request (bu_pipeline b) s req = (po, req', s')" and "is_allowed (po_outcome po)"
  shows "(\<exists>spec \<in> set specs. ts_name spec = ''allowlist'') \<and>
    (\<forall>spec \<in> set specs. ts_name spec = ''allowlist'' \<longrightarrow>
      (\<exists>c. de_allowlist de (ts_config spec) = Inr c \<and>
        (lc_warn c \<or>
         (\<exists>d \<in> set (lc_domains c). \<exists>g. DomainGlob_parse d = Inr g \<and> DomainGlob_matches g (rq_host req)) \<or>
         (\<exists>x \<in> set (lc_cidrs c). \<exists>k. Cidr_parse x = Inr k \<and> Cidr_matches_host k (rq_host req))))) \<and>
    same_destination req req'"
  using build_pipeline_innerD(2) [OF assms(1)] built_allowlist_guards [OF assms(1) _ _ assms(2,3)]
    evaluate_request_keeps [OF assms(2) built_keepers [OF assms(1)]] by blast

definition no_regex :: regex_builder where
  "no_regex p = Inl ''unsupported''"

definition allowlist_json :: "string list \<Rightarrow> json" where
  "allowlist_json ds = JObject [(''domains'', JArray (map JString ds))]"

definition rules_json :: json where
  "rules_json = JArray [JObject [(''host'', JString ''*.example.com'')]]"

theorem loaded_pipeline_default_deny_witness:
  "case build_pipeline_inner object_decoders no_regex
      [\<lparr>ts_name = ''allowlist'', ts_config = allowlist_json [''*.example.com'']\<rparr>] (Some (example_resolver ''S'')) of
     Inr b \<Rightarrow> (case evaluate_request (bu_pipeline b) () example_request of
        (po, req', _) \<Rightarrow> is_allowed (po_outcome po) \<and> same_destination example_request req')
   | Inl _ \<Rightarrow> False"
proof -
  let ?specs = "[\<lparr>ts_name = ''allowlist'', ts_config = allowlist_json [''*.example.com'']\<rparr>]"
  have d: "de_allowlist object_decoders (allowlist_json [''*.example.com'']) =
      Inr \<lparr>lc_domains = [''*.example.com''], lc_cidrs = [], lc_warn = False\<rparr>"
    by code_simp
  have g: "DomainGlob_parse ''*.example.com'' = Inr \<lparr>dg_suffix = ''example.com'', dg_wildcard = True\<rparr>"
    by code_simp
  obtain b where b: "build_pipeline_inner object_decoders no_regex ?specs (Some (example_resolver ''S'')) = Inr b"
    "bu_pipeline b = [Allowlist \<lparr>al_domains = [\<lparr>dg_suffix = ''example.com'', dg_wildcard = True\<rparr>], al_cidrs = [], al_warn = False\<rparr>]"
    by (simp add: build_pipeline_inner_def build_transform_def body_capture_ordering_def annotate_after_secret_swap_def
        deser_def d g)
  have a: "is_allowed (po_outcome (fst (evaluate_request (bu_pipeline b) () example_request)))"
    unfolding b(2) by code_simp
  obtain po req' s' where e: "evaluate_request (bu_pipeline b) () example_request = (po, req', s')"
    by (metis prod_cases3)
  from loaded_pipeline_default_deny [OF b(1) e] a e show ?thesis by (simp add: b(1))
qed

text \<open>
  The pipeline is the file: the transforms are those of the list, in its order, with an
  allowlist among them, and the only warning is that the allowlist is not the first; on the
  response path a loaded pipeline always forwards the upstream response.
\<close>

theorem loaded_pipeline_shape:
  assumes "build_pipeline_inner de re_build specs resolver = Inr b"
  shows "transform_names (bu_pipeline b) = map ts_name specs \<and> ''allowlist'' \<in> set (transform_names (bu_pipeline b)) \<and>
    (bu_warnings b = [] \<longleftrightarrow> hd (transform_names (bu_pipeline b)) = ''allowlist'') \<and>
    ro_action (fst (evaluate_response (bu_pipeline b) s req)) = Forward"
proof -
  have "specs \<noteq> []" using build_pipeline_innerD(2) [OF assms] by auto
  then have "position (\<lambda>s. ts_name s = ''allowlist'') specs = Some 0 \<longleftrightarrow> ts_name (hd specs) = ''allowlist''"
    by (cases specs) auto
  moreover have "''allowlist'' \<in> set (map ts_name specs)" using build_pipeline_innerD(2) [OF assms] by force
  ultimately show ?thesis
    using built_names [OF assms] build_pipeline_innerD(5) [OF assms] \<open>specs \<noteq> []\<close>
      response_loop_forwards [OF built_keepers [OF assms], of s req "[]"]
    by (simp add: evaluate_response_def hd_map)
qed

theorem loaded_pipeline_shape_witness:
  "\<exists>b :: unit built_pipeline. build_pipeline_inner object_decoders no_regex
      [\<lparr>ts_name = ''allowlist'', ts_config = allowlist_json [''*.example.com'']\<rparr>] None = Inr b \<and>
    transform_names (bu_pipeline b) = [''allowlist''] \<and> bu_warnings b = []"
proof -
  let ?specs = "[\<lparr>ts_name = ''allowlist'', ts_config = allowlist_json [''*.example.com'']\<rparr>]"
  have d: "de_allowlist object_decoders (allowlist_json [''*.example.com'']) =
      Inr \<lparr>lc_domains = [''*.example.com''], lc_cidrs = [], lc_warn = False\<rparr>"
    by code_simp
  have g: "DomainGlob_parse ''*.example.com'' = Inr \<lparr>dg_suffix = ''example.com'', dg_wildcard = True\<rparr>"
    by code_simp
  obtain b :: "unit built_pipeline" where b: "build_pipeline_inner object_decoders no_regex ?specs None = Inr b"
    by (simp add: build_pipeline_inner_def build_transform_def body_capture_ordering_def annotate_after_secret_swap_def
        deser_def d g)
  from loaded_pipeline_shape [OF b] b show ?thesis by auto
qed

text \<open>
  C31. The header lint: in a configuration that loads, written with objects and without a null
  \<open>match_headers\<close>, no annotation captures a header that a secret of an earlier transform may
  rewrite, so no annotation can hold a swapped-in credential.
\<close>

theorem annotate_lint_sound:
  assumes "secrets_decoding de" and "annotate_decoding de"
    and "build_pipeline_inner de re_build (as @ a # bs) (Some r) = Inr b"
    and "p \<in> set as" and "ts_name p = ''secrets''" and "plain_secrets (ts_config p)"
    and "ts_name a = ''annotate''" and "plain_annotate (ts_config a)"
  shows "\<exists>ss gs. build_transform de re_build (Some r) p = Inr (Secrets_build ss r) \<and>
    build_transform de re_build (Some r) a = Inr (Annotate gs) \<and>
    (\<forall>g \<in> set gs. \<forall>h \<in> set (ag_headers g). \<forall>s \<in> set ss. \<not> selects (ss_match_headers s) h)"
proof -
  note built = build_pipeline_innerD(1) [OF assms(3)]
  obtain tp ta where tp: "build_transform de re_build (Some r) p = Inr tp" and ta: "build_transform de re_build (Some r) a = Inr ta"
    using list_all2_In1 [OF built, of p] list_all2_In1 [OF built, of a] assms(4) by auto
  from tp assms(5) obtain es ss where ss: "de_secrets de (ts_config p) = Inr es"
    "list_all2 (\<lambda>e s. build_secret_spec re_build e = Inr s) es ss" "tp = Secrets_build ss r"
    by (auto simp: build_transform_def result_simps split: if_split_asm)
  from ta assms(7) obtain gs gsp where gs: "de_annotate de (ts_config a) = Inr gsp"
    "list_all2 (\<lambda>g c. build_group re_build g = Inr c) gsp gs" "ta = Annotate gs"
    by (auto simp: build_transform_def result_simps)
  obtain kp where kp: "ts_config p = JObject kp" using assms(6) by (cases "ts_config p") (auto simp: plain_secrets_def)
  obtain ka where ka: "ts_config a = JObject ka" using assms(8) by (cases "ts_config a") (auto simp: plain_annotate_def)
  obtain vs where vs: "map_of kp ''secrets'' = Some (JArray vs)" "list_all2 headers_agree vs es"
    using assms(1) [unfolded secrets_decoding_def, rule_format, OF ss(1) [unfolded kp]] by blast
  obtain ws where ws: "map_of ka ''annotations'' = Some (JArray ws)"
    "list_all2 (\<lambda>v g. \<forall>ks. v = JObject ks \<longrightarrow> map_of ks ''headers'' = Some (JArray (map JString (gs_headers g)))) ws gsp"
    using assms(2) [unfolded annotate_decoding_def, rule_format, OF gs(1) [unfolded ka]] by blast
  have "\<not> selects (ss_match_headers s) h" if g: "g \<in> set gs" and h: "h \<in> set (ag_headers g)" and s: "s \<in> set ss" for g h s
  proof
    assume sel: "selects (ss_match_headers s) h"
    have plain: "list_all (\<lambda>e. is_object e \<and> Value_get e ''match_headers'' \<noteq> Some JNull) vs"
      using assms(6) kp vs(1) by (simp add: plain_secrets_def)
    have "covers (secret_swap_headers re_build p) h"
      using swap_headers_loop_covers [OF vs(2) ss(2) plain s sel] kp vs(1) by (simp add: secret_swap_headers_def)
    moreover have "h \<in> set (captured_headers a)"
      using captured_complete [OF ka ws gs(2) _ g h] assms(8) by (simp add: plain_annotate_def ka ws(1))
    ultimately show False
      using annotate_loop_covers [of re_build "[]" "as @ a # bs" as a bs p h] build_pipeline_innerD(4) [OF assms(3)]
        assms(4,5,7) by (simp add: annotate_after_secret_swap_def)
  qed
  with tp ta ss(3) gs(3) show ?thesis by blast
qed

definition secret_json :: "json_map \<Rightarrow> json" where
  "secret_json extra =
    JObject [(''secrets'', JArray [JObject (extra @
      [(''proxy_value'', JString ''tok''), (''rules'', rules_json),
       (''source'', JObject [(''type'', JString ''env''), (''var'', JString ''K'')])])])]"

definition annotate_json :: "string \<Rightarrow> json" where
  "annotate_json h =
    JObject [(''annotations'', JArray [JObject [(''rules'', rules_json), (''headers'', JArray [JString h])]])]"

definition capture_json :: json where
  "capture_json = JObject [(''max_request_body_bytes'', JNumber 100), (''rules'', rules_json)]"

definition allow_spec :: transform_spec where
  "allow_spec = \<lparr>ts_name = ''allowlist'', ts_config = allowlist_json [''*.example.com'']\<rparr>"

definition secrets_spec :: "json_map \<Rightarrow> transform_spec" where
  "secrets_spec extra = \<lparr>ts_name = ''secrets'', ts_config = secret_json extra\<rparr>"

definition annotate_spec :: "string \<Rightarrow> transform_spec" where
  "annotate_spec h = \<lparr>ts_name = ''annotate'', ts_config = annotate_json h\<rparr>"

definition capture_spec :: transform_spec where
  "capture_spec = \<lparr>ts_name = ''body_capture'', ts_config = capture_json\<rparr>"

theorem annotate_lint_sound_witness:
  "\<exists>ss gs. build_transform object_decoders no_regex (Some (example_resolver ''S''))
        (secrets_spec [(''match_headers'', JArray [JString ''X-Key''])]) = Inr (Secrets_build ss (example_resolver ''S'')) \<and>
    build_transform object_decoders no_regex (Some (example_resolver ''S'')) (annotate_spec ''X-Trace'') = Inr (Annotate gs) \<and>
    (\<forall>g \<in> set gs. \<forall>h \<in> set (ag_headers g). \<forall>s \<in> set ss. \<not> selects (ss_match_headers s) h)"
proof -
  let ?p = "secrets_spec [(''match_headers'', JArray [JString ''X-Key''])]"
  let ?a = "annotate_spec ''X-Trace''"
  let ?r = "example_resolver ''S''"
  have "isl (build_pipeline_inner object_decoders no_regex ([allow_spec, ?p] @ ?a # []) (Some ?r)) = False"
    by code_simp
  then obtain b where b: "build_pipeline_inner object_decoders no_regex ([allow_spec, ?p] @ ?a # []) (Some ?r) = Inr b"
    by (cases "build_pipeline_inner object_decoders no_regex ([allow_spec, ?p] @ ?a # []) (Some ?r)") auto
  show ?thesis
    by (rule annotate_lint_sound [OF object_secrets_decoding object_annotate_decoding b])
      (simp_all add: secrets_spec_def annotate_spec_def secret_json_def annotate_json_def plain_secrets_def plain_annotate_def)
qed

section \<open>Where the lints do not reach\<close>

text \<open>
  The body lint compares the first capture with the first body-matching secret. A second
  capture after the secret passes it, runs on the swapped body and replaces the first
  capture: the record holds the value of the secret.
\<close>

definition leak_request :: request_summary where
  "leak_request = example_request\<lparr>rq_body := \<lparr>bd_bytes = ''k=tok'', bd_over_cap = False\<rparr>\<rparr>"

lemma body_lint_gap:
  "(case build_pipeline_inner object_decoders no_regex
      [allow_spec, capture_spec, secrets_spec [(''match_body'', JBool True)], capture_spec] (Some (example_resolver ''S3cret'')) of
     Inr b \<Rightarrow> map_option bc_request_body (po_body_capture (fst (evaluate_request (bu_pipeline b) () leak_request)))
   | Inl _ \<Rightarrow> None) = Some ''k=S3cret''"
  by code_simp

text \<open>
  The header lint takes a null \<open>match_headers\<close> for a list without names, the decoder takes
  it for an absent one, which means every header: the annotation holds the value.
\<close>

lemma annotate_lint_gap:
  "(case build_pipeline_inner object_decoders no_regex
      [allow_spec, secrets_spec [(''match_headers'', JNull)], annotate_spec ''X-Key''] (Some (example_resolver ''S3cret'')) of
     Inr b \<Rightarrow> map_of (t_annotations (last (po_request_traces (fst (evaluate_request (bu_pipeline b) () example_request)))))
                ''header:X-Key''
   | Inl _ \<Rightarrow> None) = Some (JString ''S3cret'')"
  by code_simp

text \<open>Minutes that do not fit: the product wraps to 44 seconds.\<close>

lemma parse_duration_wraps: "parse_duration ''307445734561825861m'' = Inr (44 * 10 ^ 9)"
  by code_simp

end
