(* ===== verification/Kernel_Audit.thy ===== *)
theory Kernel_Audit
  imports Secrets
begin

text \<open>
  The audit record of \<open>crates/hematite-kernel/src/audit.rs\<close> and the builder of the record
  the conformance harness compares.
\<close>

section \<open>Definitions\<close>

datatype action = Allow | Reject | Stub | Error | ClientCancel

record guard_denial =
  gd_denied_addr :: string
  gd_prefix :: string

record tunnel_group =
  tg_target :: string
  tg_request_transforms :: "trace list"
  tg_passthrough :: bool

record audit_record =
  ar_host :: string
  ar_method :: string
  ar_path :: string
  ar_remote_addr :: "string option"
  ar_sni :: "string option"
  ar_mode :: mode
  ar_action :: action
  ar_status_code :: "u16 option"
  ar_duration_ms :: f64
  ar_rejected_by :: "string option"
  ar_stubbed_by :: "string option"
  ar_error :: "message option"
  ar_request_transforms :: "trace list"
  ar_response_transforms :: "trace list"
  ar_tunnel :: "tunnel_group option"
  ar_guard :: "guard_denial option"
  ar_body_capture :: "body_capture option"

fun conformance_fields ::
  "outcome \<Rightarrow> action \<times> u16 option \<times> string option \<times> string option \<times> message option" where
  "conformance_fields (Outcome_Continue _) = (Allow, None, None, None, None)"
| "conformance_fields (Outcome_Reject by_name response) =
    (Reject, Some (unwrap_or (map_option rs_status response) 403), Some by_name, None, None)"
| "conformance_fields (Outcome_Stub by_name response) =
    (Stub, Some (rs_status response), None, Some by_name, None)"
| "conformance_fields (Outcome_Error _ msg) = (Error, Some 502, None, None, Some msg)"

definition conformance_record :: "request_summary \<Rightarrow> pipeline_outcome \<Rightarrow> audit_record" where
  "conformance_record summary po =
    (let (act, status_code, rejected_by, stubbed_by, err) = conformance_fields (po_outcome po)
     in \<lparr>ar_host = rq_host summary, ar_method = rq_method summary, ar_path = po_request_path po,
         ar_remote_addr = rq_remote_addr summary, ar_sni = rq_sni summary, ar_mode = rq_mode summary,
         ar_action = act, ar_status_code = status_code, ar_duration_ms = 0, ar_rejected_by = rejected_by,
         ar_stubbed_by = stubbed_by, ar_error = err, ar_request_transforms = po_request_traces po,
         ar_response_transforms = [], ar_tunnel = None, ar_guard = None,
         ar_body_capture = po_body_capture po\<rparr>)"

section \<open>Well-formed records\<close>

text \<open>
  The schema's reading of a record: at most one of the reasons is given, and it is the one
  that belongs to the action.
\<close>

definition record_wf :: "audit_record \<Rightarrow> bool" where
  "record_wf r \<longleftrightarrow>
    (ar_rejected_by r \<noteq> None \<longrightarrow> ar_action r = Reject) \<and>
    (ar_stubbed_by r \<noteq> None \<longleftrightarrow> ar_action r = Stub) \<and>
    (ar_error r \<noteq> None \<longrightarrow> ar_action r = Error) \<and>
    (ar_guard r \<noteq> None \<longrightarrow> ar_action r = Reject)"

lemma conformance_record_wf: "record_wf (conformance_record req po)"
  by (cases "po_outcome po") (simp_all add: conformance_record_def record_wf_def)

lemma conformance_record_similar: "similar a b \<Longrightarrow> conformance_record a po = conformance_record b po"
  by (simp add: conformance_record_def similar_def same_destination_def)

section \<open>Properties\<close>

text \<open>
  C6. The value of a secret does not reach the audit record: with one configured secret, any
  transforms before it, and after it only transforms that look at names and destinations,
  the whole record (host, path, action, traces with their annotations, captured body) is
  the same whatever value the resolver returns.
\<close>

theorem record_value_independent:
  assumes "agree r1 r2 (cs_source sec)" and "\<forall>t \<in> set post. value_blind t"
    and "evaluate_request (pre @ Secrets r1 [sec] # post) s req = (po1, req1, s1)"
    and "evaluate_request (pre @ Secrets r2 [sec] # post) s req = (po2, req2, s2)"
  shows "conformance_record req1 po1 = conformance_record req2 po2"
  using evaluate_request_value_free [OF assms(1,2), of pre s req] conformance_record_similar assms(3,4) by auto

theorem record_value_independent_witness:
  "let p = \<lambda>v. [Annotate []] @ Secrets (example_resolver v) [example_secret]
         # [Allowlist \<lparr>al_domains = [], al_cidrs = [], al_warn = True\<rparr>];
       run = \<lambda>v. evaluate_request (p v) () example_request
   in conformance_record (fst (snd (run ''one''))) (fst (run ''one'')) =
      conformance_record (fst (snd (run ''two''))) (fst (run ''two''))"
proof -
  let ?p = "\<lambda>v. [Annotate []] @ Secrets (example_resolver v) [example_secret]
         # [Allowlist \<lparr>al_domains = [], al_cidrs = [], al_warn = True\<rparr>]"
  have a: "agree (example_resolver ''one'') (example_resolver ''two'') (cs_source example_secret)"
    by (simp add: agree_def example_resolver_def)
  have b: "\<forall>t \<in> set [Allowlist \<lparr>al_domains = [], al_cidrs = [], al_warn = True\<rparr> :: unit transform]. value_blind t"
    by (simp add: allowlist_blind.value_blind_axioms)
  obtain po1 q1 s1 where e1: "evaluate_request (?p ''one'') () example_request = (po1, q1, s1)"
    by (metis prod_cases3)
  obtain po2 q2 s2 where e2: "evaluate_request (?p ''two'') () example_request = (po2, q2, s2)"
    by (metis prod_cases3)
  from record_value_independent [OF a b e1 e2] show ?thesis unfolding Let_def e1 e2 by simp
qed

text \<open>
  The record is a faithful account of the run: the action is Allow exactly when the
  pipeline allowed the request, it names the rejecting or stubbing transform or carries the
  error message, a refused request has its status code, and the path is the client's.
\<close>

theorem conformance_record_correct:
  assumes "evaluate_request p s req = (po, req', s')" and "conformance_record req' po = r"
  shows "record_wf r \<and> (ar_action r = Allow \<longleftrightarrow> is_allowed (po_outcome po)) \<and>
    (ar_action r = Allow \<longleftrightarrow> ar_status_code r = None) \<and>
    (ar_action r = Reject \<longleftrightarrow> ar_rejected_by r \<noteq> None) \<and> (ar_action r = Error \<longleftrightarrow> ar_error r \<noteq> None) \<and>
    ar_path r = rq_path req \<and> ar_request_transforms r = po_request_traces po"
  using assms evaluate_request_path [of p s req] conformance_record_wf [of req' po]
  by (cases "po_outcome po") (auto simp: conformance_record_def)

theorem conformance_record_correct_witness:
  "\<exists>r. r = (case evaluate_request [Allowlist \<lparr>al_domains = [], al_cidrs = [], al_warn = False\<rparr>] () example_request of
        (po, req', _) \<Rightarrow> conformance_record req' po) \<and> record_wf r \<and> ar_path r = ''/v1''"
proof -
  obtain po req' s' where
    e: "evaluate_request [Allowlist \<lparr>al_domains = [], al_cidrs = [], al_warn = False\<rparr>] () example_request = (po, req', s')"
    by (metis prod_cases3)
  from conformance_record_correct [OF e refl] e show ?thesis by (simp add: example_request_def)
qed

end
