(* ===== verification/Proxy_Audit.thy ===== *)
theory Proxy_Audit
  imports Kernel_Audit
begin

text \<open>
  Audit emission, \<open>crates/hematite-proxy/src/audit.rs\<close>: the level of a record, the sinks, and
  the guard object \<open>PendingAudit\<close> that emits a record when it is dropped without one. A sink
  is a function on its own state. A handler is modelled with the records it hands to its
  sink as a list, so what any sink makes of them is a fold.
\<close>

section \<open>Definitions\<close>

datatype level = Level_Info | Level_Warn | Level_Error

fun level_for :: "action \<Rightarrow> level" where
  "level_for Allow = Level_Info"
| "level_for Stub = Level_Info"
| "level_for ClientCancel = Level_Info"
| "level_for Reject = Level_Warn"
| "level_for Error = Level_Error"

type_synonym emission = "audit_record \<times> level"

type_synonym 'k sink = "emission \<Rightarrow> 'k \<Rightarrow> 'k"

text \<open>\<open>serde_json::to_string\<close> is a parameter; a record it cannot serialise is not written.\<close>

definition StderrSink :: "(audit_record \<Rightarrow> string option) \<Rightarrow> string list sink" where
  "StderrSink to_string e out =
    (case to_string (fst e) of Some line \<Rightarrow> out @ [line] | None \<Rightarrow> out)"

record pending_audit =
  pa_emitted :: bool
  pa_remote_addr :: "string option"

definition PendingAudit_new :: "string option \<Rightarrow> pending_audit" where
  "PendingAudit_new remote = \<lparr>pa_emitted = False, pa_remote_addr = remote\<rparr>"

definition PendingAudit_emit :: "pending_audit \<Rightarrow> audit_record \<Rightarrow> emission list \<times> pending_audit" where
  "PendingAudit_emit p r = ([(r, level_for (ar_action r))], p\<lparr>pa_emitted := True\<rparr>)"

definition terminated_record :: "string option \<Rightarrow> audit_record" where
  "terminated_record remote =
    \<lparr>ar_host = [], ar_method = [], ar_path = [], ar_remote_addr = remote, ar_sni = None, ar_mode = Http,
     ar_action = Error, ar_status_code = None, ar_duration_ms = 0, ar_rejected_by = None,
     ar_stubbed_by = None, ar_error = Some [Lit ''request handler terminated without emitting audit''],
     ar_request_transforms = [], ar_response_transforms = [], ar_tunnel = None, ar_guard = None,
     ar_body_capture = None\<rparr>"

definition PendingAudit_drop :: "pending_audit \<Rightarrow> emission list" where
  "PendingAudit_drop p =
    (if pa_emitted p then [] else [(terminated_record (pa_remote_addr p), Level_Error)])"

section \<open>Exactly one record\<close>

text \<open>
  The life of a handler that owns a pending audit: it emits some number of records, then the
  object is dropped, whether the handler returned or was unwound.
\<close>

fun emit_all :: "pending_audit \<Rightarrow> audit_record list \<Rightarrow> emission list \<times> pending_audit" where
  "emit_all p [] = ([], p)"
| "emit_all p (r # rs) =
    (let (es, p') = PendingAudit_emit p r; (es', p'') = emit_all p' rs in (es @ es', p''))"

definition lifetime :: "string option \<Rightarrow> audit_record list \<Rightarrow> emission list" where
  "lifetime remote rs = (let (es, p) = emit_all (PendingAudit_new remote) rs in es @ PendingAudit_drop p)"

lemma emit_all_eq:
  "emit_all p rs = (map (\<lambda>r. (r, level_for (ar_action r))) rs, p\<lparr>pa_emitted := pa_emitted p \<or> rs \<noteq> []\<rparr>)"
  by (induction rs arbitrary: p) (auto simp: PendingAudit_emit_def)

text \<open>
  A handler that emits at most once leaves exactly one record behind: its own record at the
  level of its action, or, when it ended without one, a record of an error with the client's
  address. In particular no handler goes unrecorded.
\<close>

theorem pending_audit_once:
  assumes "length rs \<le> 1"
  shows "lifetime remote rs =
      [case rs of [] \<Rightarrow> (terminated_record remote, Level_Error) | r # _ \<Rightarrow> (r, level_for (ar_action r))] \<and>
    record_wf (terminated_record remote) \<and> ar_action (terminated_record remote) = Error \<and>
    ar_remote_addr (terminated_record remote) = remote"
  using assms
  by (cases rs; simp add: lifetime_def emit_all_eq PendingAudit_drop_def PendingAudit_new_def)
    (simp_all add: terminated_record_def record_wf_def)

theorem pending_audit_once_witness:
  "lifetime (Some ''10.0.0.9:4711'') [] =
     [(terminated_record (Some ''10.0.0.9:4711''), Level_Error)] \<and>
   lifetime None [terminated_record None] = [(terminated_record None, Level_Error)]"
  using pending_audit_once [of "[]" "Some ''10.0.0.9:4711''"]
    pending_audit_once [of "[terminated_record None]" None]
  by (simp add: terminated_record_def)

end
