(* ===== verification/Proxy_Metrics.thy ===== *)
theory Proxy_Metrics
  imports Proxy_Audit
begin

text \<open>
  The metrics registry, \<open>crates/hematite-proxy/src/metrics.rs\<close>: counter families keyed by the
  rendered label string, the duration histogram, the counters derived from an audit record,
  and the text exposition. A family is a \<open>BTreeMap\<close>: an association list in key order. Counters
  are \<open>u64\<close> and wrap. The sum of a histogram is an exact rational; its decimal rendering is a
  parameter.
\<close>

section \<open>Definitions\<close>

datatype dial_result = Dial_Ok | Dial_GuardDenied | Dial_DnsError | Dial_ConnectError | Dial_TlsError

fun dial_result_str :: "dial_result \<Rightarrow> string" where
  "dial_result_str Dial_Ok = ''ok''"
| "dial_result_str Dial_GuardDenied = ''guard-denied''"
| "dial_result_str Dial_DnsError = ''dns-error''"
| "dial_result_str Dial_ConnectError = ''connect-error''"
| "dial_result_str Dial_TlsError = ''tls-error''"

datatype dns_outcome = DnsOutcome_Intercept | DnsOutcome_Static | DnsOutcome_Passthrough | DnsOutcome_Error

fun dns_outcome_str :: "dns_outcome \<Rightarrow> string" where
  "dns_outcome_str DnsOutcome_Intercept = ''intercept''"
| "dns_outcome_str DnsOutcome_Static = ''static''"
| "dns_outcome_str DnsOutcome_Passthrough = ''passthrough''"
| "dns_outcome_str DnsOutcome_Error = ''error''"

subsection \<open>The histogram\<close>

definition BUCKETS :: "f64 list" where
  "BUCKETS = [5 / 1000, 1 / 100, 25 / 1000, 5 / 100, 1 / 10, 25 / 100, 5 / 10, 1, 25 / 10, 5, 10, 30]"

text \<open>How \<open>format!\<close> writes the bounds.\<close>

definition BUCKET_TEXTS :: "string list" where
  "BUCKET_TEXTS = [''0.005'', ''0.01'', ''0.025'', ''0.05'', ''0.1'', ''0.25'', ''0.5'', ''1'', ''2.5'',
     ''5'', ''10'', ''30'']"

record histogram =
  hg_counts :: "u64 list"
  hg_sum :: f64
  hg_count :: u64

definition Histogram_new :: histogram where
  "Histogram_new = \<lparr>hg_counts = replicate 12 0, hg_sum = 0, hg_count = 0\<rparr>"

text \<open>The loop over the bounds, which breaks at the first that is large enough.\<close>

fun bump_bucket :: "f64 \<Rightarrow> f64 list \<Rightarrow> u64 list \<Rightarrow> u64 list" where
  "bump_bucket v (b # bs) (c # cs) = (if v \<le> b then (c + 1) # cs else c # bump_bucket v bs cs)"
| "bump_bucket v _ cs = cs"

definition observe :: "f64 \<Rightarrow> histogram \<Rightarrow> histogram" where
  "observe v h =
    \<lparr>hg_counts = bump_bucket v BUCKETS (hg_counts h), hg_sum = hg_sum h + v, hg_count = hg_count h + 1\<rparr>"

subsection \<open>The registry\<close>

type_synonym counters = "(string \<times> u64) list"

record metrics =
  me_version :: string
  me_requests :: counters
  me_duration :: "(string \<times> histogram) list"
  me_secrets :: counters
  me_dials :: counters
  me_dns :: counters
  me_tls_cache :: counters
  me_reloads :: counters

definition Metrics_new :: "string \<Rightarrow> metrics" where
  "Metrics_new version =
    \<lparr>me_version = version, me_requests = [], me_duration = [], me_secrets = [], me_dials = [], me_dns = [],
     me_tls_cache = [], me_reloads = []\<rparr>"

text \<open>\<open>*map.entry(key).or_insert(0) += n\<close>.\<close>

definition add_count :: "string \<Rightarrow> u64 \<Rightarrow> counters \<Rightarrow> counters" where
  "add_count k n m = map_insert k (unwrap_or (map_of m k) 0 + n) m"

fun mode_label :: "mode \<Rightarrow> string" where
  "mode_label Http = ''http''"
| "mode_label Https = ''https''"
| "mode_label Tunnel = ''tunnel''"

fun action_label :: "action \<Rightarrow> string" where
  "action_label Allow = ''allow''"
| "action_label Reject = ''reject''"
| "action_label Stub = ''stub''"
| "action_label Error = ''error''"
| "action_label ClientCancel = ''client-cancel''"

definition escape_char :: "char \<Rightarrow> string" where
  "escape_char c =
    (if c = CHR 0x5C then [CHR 0x5C, CHR 0x5C]
     else if c = CHR 0x22 then [CHR 0x5C, CHR 0x22]
     else if c = CHR 0x0A then [CHR 0x5C, CHR ''n'']
     else [c])"

definition escape_label :: "string \<Rightarrow> string" where
  "escape_label s = concat (map escape_char s)"

definition label :: "string \<Rightarrow> string \<Rightarrow> string" where
  "label name v = name @ ''='' @ [CHR 0x22] @ escape_label v @ [CHR 0x22]"

definition request_key :: "mode \<Rightarrow> action \<Rightarrow> string \<Rightarrow> string" where
  "request_key m a by =
    label ''mode'' (mode_label m) @ '','' @ label ''action'' (action_label a) @ '','' @ label ''rejected_by'' by"

definition duration_key :: "mode \<Rightarrow> action \<Rightarrow> string" where
  "duration_key m a = label ''mode'' (mode_label m) @ '','' @ label ''action'' (action_label a)"

definition count_array :: "string \<Rightarrow> string \<Rightarrow> trace \<Rightarrow> counters \<Rightarrow> counters" where
  "count_array key result t m =
    (case map_of (t_annotations t) key of
       Some v \<Rightarrow>
         (case as_array v of
            Some arr \<Rightarrow>
              (let n = (of_nat (length arr) :: u64) in if 0 < n then add_count (label ''result'' result) n m else m)
          | None \<Rightarrow> m)
     | None \<Rightarrow> m)"

definition observe_secrets :: "audit_record \<Rightarrow> trace \<Rightarrow> counters \<Rightarrow> counters" where
  "observe_secrets r t m =
    (if t_name t \<noteq> ''secrets'' then m
     else
       (let m1 = count_array ''swapped'' ''swapped'' t m;
            m2 = count_array ''secret_unavailable'' ''source-error'' t m1
        in if ar_rejected_by r = Some ''secrets'' \<and> t_verdict t = TraceVerdict_Reject
           then add_count (label ''result'' ''missing-required'') 1 m2
           else m2))"

definition observe_record :: "audit_record \<Rightarrow> metrics \<Rightarrow> metrics" where
  "observe_record r m =
    (let rejected_by = unwrap_or (ar_rejected_by r) [];
         req_key = request_key (ar_mode r) (ar_action r) rejected_by;
         dur_key = duration_key (ar_mode r) (ar_action r);
         hist = unwrap_or (map_of (me_duration m) dur_key) Histogram_new
     in m\<lparr>me_requests := add_count req_key 1 (me_requests m),
          me_duration := map_insert dur_key (observe (ar_duration_ms r / 1000) hist) (me_duration m),
          me_secrets := fold (observe_secrets r) (ar_request_transforms r) (me_secrets m)\<rparr>)"

definition inc_dial :: "dial_result \<Rightarrow> metrics \<Rightarrow> metrics" where
  "inc_dial result m = m\<lparr>me_dials := add_count (label ''result'' (dial_result_str result)) 1 (me_dials m)\<rparr>"

definition inc_dns :: "dns_outcome \<Rightarrow> metrics \<Rightarrow> metrics" where
  "inc_dns oc m = m\<lparr>me_dns := add_count (label ''outcome'' (dns_outcome_str oc)) 1 (me_dns m)\<rparr>"

definition inc_tls_cache :: "bool \<Rightarrow> metrics \<Rightarrow> metrics" where
  "inc_tls_cache hit m =
    m\<lparr>me_tls_cache := add_count (label ''event'' (if hit then ''hit'' else ''miss'')) 1 (me_tls_cache m)\<rparr>"

definition inc_reload :: "bool \<Rightarrow> metrics \<Rightarrow> metrics" where
  "inc_reload ok m =
    m\<lparr>me_reloads := add_count (label ''result'' (if ok then ''ok'' else ''error'')) 1 (me_reloads m)\<rparr>"

subsection \<open>Text exposition\<close>

definition show_u64 :: "u64 \<Rightarrow> string" where
  "show_u64 n = show_radix 10 (unat n)"

definition newline :: string where
  "newline = [CHR 0x0A]"

definition in_braces :: "string \<Rightarrow> string" where
  "in_braces s = ''{'' @ s @ ''}''"

fun running_totals :: "u64 \<Rightarrow> u64 list \<Rightarrow> u64 list" where
  "running_totals acc [] = []"
| "running_totals acc (c # cs) = (acc + c) # running_totals (acc + c) cs"

definition bucket_line :: "string \<Rightarrow> string \<Rightarrow> string \<Rightarrow> u64 \<Rightarrow> string" where
  "bucket_line name lbls le n =
    name @ ''_bucket'' @ in_braces (lbls @ '',le='' @ [CHR 0x22] @ le @ [CHR 0x22]) @ '' '' @ show_u64 n @ newline"

definition render_histogram :: "(f64 \<Rightarrow> string) \<Rightarrow> string \<Rightarrow> string \<Rightarrow> histogram \<Rightarrow> string" where
  "render_histogram show_f64 name lbls h =
    concat (map (\<lambda>(le, n). bucket_line name lbls le n) (zip BUCKET_TEXTS (running_totals 0 (hg_counts h))))
    @ bucket_line name lbls ''+Inf'' (hg_count h)
    @ name @ ''_sum'' @ in_braces lbls @ '' '' @ show_f64 (hg_sum h) @ newline
    @ name @ ''_count'' @ in_braces lbls @ '' '' @ show_u64 (hg_count h) @ newline"

definition render_family :: "string \<Rightarrow> counters \<Rightarrow> string" where
  "render_family name m =
    ''# TYPE '' @ name @ '' counter'' @ newline
    @ concat (map (\<lambda>(lbls, n). name @ in_braces lbls @ '' '' @ show_u64 n @ newline) m)"

definition render :: "(f64 \<Rightarrow> string) \<Rightarrow> metrics \<Rightarrow> string" where
  "render show_f64 m =
    ''# TYPE hematite_build_info gauge'' @ newline
    @ ''hematite_build_info'' @ in_braces (label ''version'' (me_version m)) @ '' 1'' @ newline
    @ render_family ''hematite_requests_total'' (me_requests m)
    @ ''# TYPE hematite_request_duration_seconds histogram'' @ newline
    @ concat (map (\<lambda>(lbls, h). render_histogram show_f64 ''hematite_request_duration_seconds'' lbls h)
        (me_duration m))
    @ render_family ''hematite_secrets_swaps_total'' (me_secrets m)
    @ render_family ''hematite_upstream_dials_total'' (me_dials m)
    @ render_family ''hematite_dns_queries_total'' (me_dns m)
    @ render_family ''hematite_tls_leaf_cache_events_total'' (me_tls_cache m)
    @ render_family ''hematite_config_reloads_total'' (me_reloads m)"

subsection \<open>The sink decorator\<close>

definition MetricsSink :: "'k sink \<Rightarrow> ('k \<times> metrics) sink" where
  "MetricsSink inner e s = (case s of (k, m) \<Rightarrow> (let m' = observe_record (fst e) m in (inner e k, m')))"

section \<open>Counters count\<close>

lemma map_of_add_count:
  "map_of (add_count k n m) = (map_of m)(k \<mapsto> unwrap_or (map_of m k) 0 + n)"
  by (simp add: add_count_def map_of_map_insert)

text \<open>
  The interface of a counter family: a step on the registry that adds one to the counter of
  its key and leaves the rest of the family alone.
\<close>

locale counter_family =
  fixes step :: "'e \<Rightarrow> 'm \<Rightarrow> 'm"
    and family :: "'m \<Rightarrow> counters"
    and key :: "'e \<Rightarrow> string"
  assumes step_count: "family (step e m) = add_count (key e) 1 (family m)"
begin

lemma fold_count:
  "map_of (family (fold step es m)) k =
    (if k \<in> key ` set es
     then Some (unwrap_or (map_of (family m) k) 0 + of_nat (length (filter (\<lambda>e. key e = k) es)))
     else map_of (family m) k)"
proof (induction es arbitrary: m)
  case (Cons e es)
  have none: "filter (\<lambda>e. key e = k) es = []" if "k \<notin> key ` set es"
    using that by (auto simp: filter_empty_conv)
  show ?case
    unfolding fold_simps comp_apply Cons.IH
    using none by (cases "key e = k"; cases "k \<in> key ` set es") (auto simp: step_count map_of_add_count)
qed simp

lemma fold_count_fresh:
  assumes "family m = []"
  shows "map_of (family (fold step es m)) k =
    (let n = length (filter (\<lambda>e. key e = k) es) in if n = 0 then None else Some (of_nat n))"
  using assms by (auto simp: fold_count Let_def filter_empty_conv)

end

definition record_key :: "audit_record \<Rightarrow> string" where
  "record_key r = request_key (ar_mode r) (ar_action r) (unwrap_or (ar_rejected_by r) [])"

interpretation requests: counter_family observe_record me_requests record_key
  by unfold_locales (simp add: observe_record_def record_key_def Let_def)

interpretation dials: counter_family inc_dial me_dials "\<lambda>r. label ''result'' (dial_result_str r)"
  by unfold_locales (simp add: inc_dial_def)

interpretation dns_queries: counter_family inc_dns me_dns "\<lambda>r. label ''outcome'' (dns_outcome_str r)"
  by unfold_locales (simp add: inc_dns_def)

interpretation tls_events:
  counter_family inc_tls_cache me_tls_cache "\<lambda>hit. label ''event'' (if hit then ''hit'' else ''miss'')"
  by unfold_locales (simp add: inc_tls_cache_def)

interpretation reloads:
  counter_family inc_reload me_reloads "\<lambda>ok. label ''result'' (if ok then ''ok'' else ''error'')"
  by unfold_locales (simp add: inc_reload_def)

text \<open>Escaping is injective, and two requests share a counter only when all three labels agree.\<close>

lemma escape_label_Cons: "escape_label (c # s) = escape_char c @ escape_label s"
  by (simp add: escape_label_def)

lemma escape_label_Nil [simp]: "escape_label [] = []"
  by (simp add: escape_label_def)

lemma escape_char_app: "escape_char c @ u = escape_char d @ v \<Longrightarrow> c = d \<and> u = v"
  by (auto simp: escape_char_def split: if_splits)

lemma escape_char_not_Nil [simp]: "escape_char c \<noteq> []"
  by (simp add: escape_char_def)

lemma escape_label_inj: "escape_label s = escape_label t \<longleftrightarrow> s = t"
proof (induction s arbitrary: t)
  case Nil
  then show ?case by (cases t) (simp_all add: escape_label_Cons)
next
  case (Cons c s)
  then show ?case by (cases t) (auto simp: escape_label_Cons dest: escape_char_app)
qed

lemma escape_plain: "\<forall>c \<in> set s. c \<notin> {CHR 0x5C, CHR 0x22, CHR 0x0A} \<Longrightarrow> escape_label s = s"
  by (induction s) (auto simp: escape_label_Cons escape_char_def)

lemma escape_modes [simp]: "escape_label (mode_label m) = mode_label m"
  by (rule escape_plain) (cases m; simp)

lemma escape_actions [simp]: "escape_label (action_label a) = action_label a"
  by (rule escape_plain) (cases a; simp)

lemma request_key_inj: "request_key m a b = request_key m' a' b' \<longleftrightarrow> m = m' \<and> a = a' \<and> b = b'"
proof -
  have "m = m' \<and> a = a'" if "request_key m a b = request_key m' a' b'"
    using that [unfolded request_key_def label_def escape_modes escape_actions]
    by (cases m; cases m'; cases a; cases a') simp_all
  then show ?thesis by (auto simp: request_key_def label_def escape_label_inj)
qed

lemma MetricsSink_fold:
  "fold (MetricsSink inner) es (k, m) = (fold inner es k, fold observe_record (map fst es) m)"
  by (induction es arbitrary: k m) (simp_all add: MetricsSink_def Let_def)

text \<open>
  The request counters are the audit log counted: whatever records pass through the metrics
  sink, the counter with the labels of a mode, an action and a rejecting party holds the number of
  records with exactly these, modulo the width of the counter, and is absent when there
  is none. The inner sink receives every record unchanged and in order.
\<close>

theorem metrics_count_records:
  "map_of (me_requests (snd (fold (MetricsSink inner) es (k, Metrics_new version)))) (request_key m a b) =
    (let n = length (filter (\<lambda>(r, lv). ar_mode r = m \<and> ar_action r = a \<and> unwrap_or (ar_rejected_by r) [] = b) es)
     in if n = 0 then None else Some (of_nat n)) \<and>
   fst (fold (MetricsSink inner) es (k, Metrics_new version)) = fold inner es k"
proof
  have "me_requests (Metrics_new version) = []" by (simp add: Metrics_new_def)
  from requests.fold_count_fresh [OF this, of "map fst es" "request_key m a b"]
  show "map_of (me_requests (snd (fold (MetricsSink inner) es (k, Metrics_new version)))) (request_key m a b) =
    (let n = length (filter (\<lambda>(r, lv). ar_mode r = m \<and> ar_action r = a \<and> unwrap_or (ar_rejected_by r) [] = b) es)
     in if n = 0 then None else Some (of_nat n))"
    by (simp add: MetricsSink_fold filter_map comp_def record_key_def request_key_inj case_prod_unfold)
qed (simp add: MetricsSink_fold)

section \<open>The histogram\<close>

lemma running_totals_length [simp]: "length (running_totals acc cs) = length cs"
  by (induction acc cs rule: running_totals.induct) simp_all

lemma running_totals_shift: "running_totals (acc + d) cs = map ((+) d) (running_totals acc cs)"
proof (induction cs arbitrary: acc)
  case (Cons c cs)
  show ?case using Cons [of "acc + c"] by (simp add: ac_simps)
qed simp

lemma running_totals_bump:
  assumes "sorted bs" "length bs = length cs"
  shows "running_totals acc (bump_bucket v bs cs) =
    map2 (\<lambda>b n. n + (if v \<le> b then 1 else 0)) bs (running_totals acc cs)"
  using assms
proof (induction v bs cs arbitrary: acc rule: bump_bucket.induct)
  case (1 v b bs c cs)
  have all: "v \<le> b'" if "v \<le> b" "b' \<in> set bs" for b' using that 1(2) by auto
  show ?case
  proof (cases "v \<le> b")
    case True
    have "map2 (\<lambda>b n. n + (if v \<le> b then 1 else 0)) bs xs = map ((+) 1) xs"
      if "length xs = length bs" for xs :: "u64 list"
      using all [OF True] that by (induction bs xs rule: list_induct2') simp_all
    then show ?thesis using True 1(3) running_totals_shift [of "acc + c" 1 cs]
      by (simp add: ac_simps)
  next
    case False
    then show ?thesis using 1 by simp
  qed
qed auto

lemma bump_bucket_length [simp]: "length (bump_bucket v bs cs) = length cs"
  by (induction v bs cs rule: bump_bucket.induct) simp_all

lemma BUCKETS_sorted: "sorted BUCKETS"
  by (simp add: BUCKETS_def)

lemma observe_fold:
  assumes "length (hg_counts h) = 12"
  shows "running_totals 0 (hg_counts (fold observe vs h)) =
      map2 (\<lambda>b n. n + of_nat (length (filter (\<lambda>v. v \<le> b) vs))) BUCKETS (running_totals 0 (hg_counts h))
    \<and> hg_count (fold observe vs h) = hg_count h + of_nat (length vs)
    \<and> hg_sum (fold observe vs h) = hg_sum h + sum_list vs
    \<and> length (hg_counts (fold observe vs h)) = 12"
  using assms
proof (induction vs arbitrary: h)
  case Nil
  have "map2 (\<lambda>b n. n) bs xs = xs" if "length bs = length xs" for bs :: "f64 list" and xs :: "u64 list"
    using that by (induction bs xs rule: list_induct2') simp_all
  with Nil show ?case by (simp add: BUCKETS_def del: map_fst_zip map_snd_zip)
next
  case (Cons v vs)
  have len: "length BUCKETS = 12" by (simp add: BUCKETS_def)
  have twice: "map2 f bs (map2 g bs xs) = map2 (\<lambda>b n. f b (g b n)) bs xs"
    for f g :: "f64 \<Rightarrow> u64 \<Rightarrow> u64" and bs xs
    by (induction bs xs rule: list_induct2') simp_all
  have obs: "length (hg_counts (observe v h)) = 12" using Cons.prems by (simp add: observe_def)
  have tot: "running_totals 0 (hg_counts (observe v h)) =
      map2 (\<lambda>b n. n + (if v \<le> b then 1 else 0)) BUCKETS (running_totals 0 (hg_counts h))"
    using Cons.prems len by (simp add: observe_def running_totals_bump BUCKETS_sorted)
  show ?case
    using Cons.IH [OF obs] unfolding tot twice
    by (auto simp: observe_def ac_simps intro!: map_cong)
qed

text \<open>
  The histogram is right: after any observations the running total rendered for a bound is
  the number of observations not above it, the total count is their number, and the sum is their
  sum. (A value above the largest bound appears in the total only.)
\<close>

theorem histogram_buckets:
  "running_totals 0 (hg_counts (fold observe vs Histogram_new)) =
     map (\<lambda>b. of_nat (length (filter (\<lambda>v. v \<le> b) vs))) BUCKETS \<and>
   hg_count (fold observe vs Histogram_new) = of_nat (length vs) \<and>
   hg_sum (fold observe vs Histogram_new) = sum_list vs"
proof (intro conjI)
  have "running_totals 0 (replicate n 0) = replicate n 0" for n by (induction n) simp_all
  moreover have zero: "map2 (\<lambda>b n. n + f b) bs (replicate (length bs) 0) = map f bs"
    for f :: "f64 \<Rightarrow> u64" and bs by (induction bs) simp_all
  moreover have "length BUCKETS = 12" by (simp add: BUCKETS_def)
  ultimately show "running_totals 0 (hg_counts (fold observe vs Histogram_new)) =
     map (\<lambda>b. of_nat (length (filter (\<lambda>v. v \<le> b) vs))) BUCKETS"
    using observe_fold [of Histogram_new vs] zero [of _ BUCKETS] by (simp add: Histogram_new_def)
qed (use observe_fold [of Histogram_new vs] in \<open>simp_all add: Histogram_new_def\<close>)

end
