(* ===== verification/Proxy_State.thy ===== *)
theory Proxy_State
  imports Proxy_Metrics
begin

text \<open>
  The runtime of the proxy, \<open>crates/hematite-proxy/src/state.rs\<close>: the guard against dialling
  denied addresses, what a loaded configuration compiles to, and the swap point. The TLS
  client configuration \<open>'t\<close> and the certificate cache \<open>'c\<close> are type parameters of the runtime.
\<close>

section \<open>Definitions\<close>

subsection \<open>The guard\<close>

record guard =
  gu_deny :: "(cidr \<times> string) list"

definition DEFAULT_DENY :: "string list" where
  "DEFAULT_DENY =
    [''169.254.169.254/32'', ''fd00:ec2::254/128'', ''fd20:ce::254/128'', ''127.0.0.0/8'', ''::1/128'']"

definition Guard_new :: "string list \<Rightarrow> match_config_error + guard" where
  "Guard_new cidrs =
    and_then (try_collect (\<lambda>p. and_then (Cidr_parse p) (\<lambda>c. Inr (c, p))) cidrs)
      (\<lambda>deny. Inr \<lparr>gu_deny = deny\<rparr>)"

text \<open>\<open>expect\<close> on the result: \<^const>\<open>None\<close> is the panic.\<close>

definition default_set :: "guard option" where
  "default_set = (case Guard_new DEFAULT_DENY of Inr g \<Rightarrow> Some g | Inl _ \<Rightarrow> None)"

fun check_loop :: "(cidr \<times> string) list \<Rightarrow> ip_addr \<Rightarrow> guard_denial + unit" where
  "check_loop [] ip = Inr ()"
| "check_loop ((c, p) # rest) ip =
    (if Cidr_contains c ip then Inl \<lparr>gd_denied_addr = show_ip ip, gd_prefix = p\<rparr> else check_loop rest ip)"

definition Guard_check :: "guard \<Rightarrow> ip_addr \<Rightarrow> guard_denial + unit" where
  "Guard_check g ip = check_loop (gu_deny g) ip"

subsection \<open>The runtime\<close>

record ('s, 't, 'c) runtime =
  rt_pipeline :: "'s pipeline"
  rt_guard :: guard
  rt_max_request_body_bytes :: nat
  rt_upstream_response_header_timeout :: nat
  rt_dial_timeout :: nat
  rt_upstream_tls :: 't
  rt_cert_cache :: "'c option"
  rt_tunnel_passthrough :: "domain_glob list"

definition passthrough_matches :: "('s, 't, 'c) runtime \<Rightarrow> string \<Rightarrow> bool" where
  "passthrough_matches rt host \<longleftrightarrow> list_ex (\<lambda>g. DomainGlob_matches g host) (rt_tunnel_passthrough rt)"

text \<open>
  The upstream TLS configuration: the system's certificates with the text of the errors met while loading them, which
  of them the root store takes, and the configuration the TLS library builds over the roots.
\<close>

definition native_upstream_config :: "bytes list \<times> string \<Rightarrow> (bytes \<Rightarrow> bool) \<Rightarrow> (bytes list \<Rightarrow> 't) \<Rightarrow> message + 't" where
  "native_upstream_config loaded add_root client_config =
    (case loaded of (certs, errors) \<Rightarrow>
       if certs = [] then Inl [Lit ''no system root certificates: '', Disp errors]
       else Inr (client_config (filter add_root certs)))"

subsection \<open>The swap point\<close>

text \<open>
  An \<open>Arc\<close> is an address in a store that only grows, so a handler that took one keeps reading
  what it took; the lock around the current \<open>Arc\<close> makes each of the two operations one step.
\<close>

record 'r shared_state =
  sh_store :: "'r list"
  sh_current :: nat

definition SharedState_new :: "'r \<Rightarrow> 'r shared_state" where
  "SharedState_new r = \<lparr>sh_store = [r], sh_current = 0\<rparr>"

definition current :: "'r shared_state \<Rightarrow> nat" where
  "current st = sh_current st"

definition swap :: "'r \<Rightarrow> 'r shared_state \<Rightarrow> 'r shared_state" where
  "swap r st = \<lparr>sh_store = sh_store st @ [r], sh_current = length (sh_store st)\<rparr>"

definition deref :: "'r shared_state \<Rightarrow> nat \<Rightarrow> 'r option" where
  "deref st a = (if a < length (sh_store st) then Some (sh_store st ! a) else None)"

section \<open>The guard denies what it names\<close>

lemma Guard_new_Inr:
  "Guard_new cidrs = Inr g \<longleftrightarrow>
     map snd (gu_deny g) = cidrs \<and> (\<forall>(c, p) \<in> set (gu_deny g). Cidr_parse p = Inr c)"
proof -
  have "list_all2 (\<lambda>p y. and_then (Cidr_parse p) (\<lambda>c. Inr (c, p)) = Inr y) cidrs deny \<longleftrightarrow>
      map snd deny = cidrs \<and> (\<forall>(c, p) \<in> set deny. Cidr_parse p = Inr c)" for deny
  proof (induction cidrs arbitrary: deny)
    case (Cons p ps)
    then show ?case by (cases deny) (auto simp: result_simps)
  qed auto
  then show ?thesis by (cases g) (auto simp: Guard_new_def result_simps)
qed

text \<open>The denial names the first prefix that contains the address.\<close>

lemma check_loop_Inl:
  "check_loop deny ip = Inl d \<longleftrightarrow>
     (\<exists>c p. find (\<lambda>(c, p). Cidr_contains c ip) deny = Some (c, p) \<and>
        d = \<lparr>gd_denied_addr = show_ip ip, gd_prefix = p\<rparr>)"
  by (induction deny ip rule: check_loop.induct) auto

lemma Guard_check_Inl:
  assumes "Guard_check g ip = Inl d"
  shows "\<exists>c. (c, gd_prefix d) \<in> set (gu_deny g) \<and> Cidr_contains c ip \<and> gd_denied_addr d = show_ip ip"
proof -
  obtain c p where found: "find (\<lambda>(c, p). Cidr_contains c ip) (gu_deny g) = Some (c, p)"
    and d: "d = \<lparr>gd_denied_addr = show_ip ip, gd_prefix = p\<rparr>"
    using assms by (auto simp: Guard_check_def check_loop_Inl)
  have "(c, p) \<in> set (gu_deny g)" "Cidr_contains c ip"
    using found by (auto simp: find_Some_iff in_set_conv_nth)
  then show ?thesis using d by auto
qed

lemma Guard_check_Inr:
  "Guard_check g ip = Inr u \<longleftrightarrow> (\<forall>(c, p) \<in> set (gu_deny g). \<not> Cidr_contains c ip)"
proof -
  have "check_loop deny ip = Inr u \<longleftrightarrow> (\<forall>(c, p) \<in> set deny. \<not> Cidr_contains c ip)" for deny
    by (induction deny ip rule: check_loop.induct) auto
  then show ?thesis by (simp add: Guard_check_def)
qed

lemma default_parses:
  "Cidr_parse ''169.254.169.254/32'' = Inr \<lparr>cd_net = V4 0xA9FEA9FE, cd_prefix = 32\<rparr>"
  "Cidr_parse ''fd00:ec2::254/128'' = Inr \<lparr>cd_net = V6 0xFD000EC2000000000000000000000254, cd_prefix = 128\<rparr>"
  "Cidr_parse ''fd20:ce::254/128'' = Inr \<lparr>cd_net = V6 0xFD2000CE000000000000000000000254, cd_prefix = 128\<rparr>"
  "Cidr_parse ''127.0.0.0/8'' = Inr \<lparr>cd_net = V4 0x7F000000, cd_prefix = 8\<rparr>"
  "Cidr_parse ''::1/128'' = Inr \<lparr>cd_net = V6 1, cd_prefix = 128\<rparr>"
  by code_simp+

lemma default_set_eq:
  "default_set = Some \<lparr>gu_deny =
    [(\<lparr>cd_net = V4 0xA9FEA9FE, cd_prefix = 32\<rparr>, ''169.254.169.254/32''),
     (\<lparr>cd_net = V6 0xFD000EC2000000000000000000000254, cd_prefix = 128\<rparr>, ''fd00:ec2::254/128''),
     (\<lparr>cd_net = V6 0xFD2000CE000000000000000000000254, cd_prefix = 128\<rparr>, ''fd20:ce::254/128''),
     (\<lparr>cd_net = V4 0x7F000000, cd_prefix = 8\<rparr>, ''127.0.0.0/8''),
     (\<lparr>cd_net = V6 1, cd_prefix = 128\<rparr>, ''::1/128'')]\<rparr>"
  by (simp add: default_set_def Guard_new_def DEFAULT_DENY_def default_parses)

text \<open>The addresses the default set is meant to keep out of reach.\<close>

fun local_or_metadata :: "ip_addr \<Rightarrow> bool" where
  "local_or_metadata (V4 a) \<longleftrightarrow> a = 0xA9FEA9FE \<or> drop_bit 24 a = 127"
| "local_or_metadata (V6 a) \<longleftrightarrow>
     a = 1 \<or> a = 0xFD000EC2000000000000000000000254 \<or> a = 0xFD2000CE000000000000000000000254"

lemma default_contains:
  "Cidr_contains \<lparr>cd_net = V4 0xA9FEA9FE, cd_prefix = 32\<rparr> ip \<longleftrightarrow> to_canonical ip = V4 0xA9FEA9FE"
  "Cidr_contains \<lparr>cd_net = V4 0x7F000000, cd_prefix = 8\<rparr> ip \<longleftrightarrow>
     (\<exists>a. to_canonical ip = V4 a \<and> drop_bit 24 a = 127)"
  "Cidr_contains \<lparr>cd_net = V6 n, cd_prefix = 128\<rparr> ip \<longleftrightarrow> ip = V6 n \<or> to_canonical ip = V6 n"
  by (cases ip; auto simp: Cidr_contains_iff cidr_wf_def split: option.splits)+

text \<open>
  C35. The default guard compiles, and it refuses exactly the cloud metadata addresses and the
  loopback addresses, also when an IPv4 address is given in its mapped IPv6 form; the denial
  carries the address that was refused.
\<close>

theorem default_guard_denies:
  "\<exists>g. default_set = Some g \<and>
     (\<forall>ip. (\<exists>d. Guard_check g ip = Inl d) \<longleftrightarrow> local_or_metadata ip \<or> local_or_metadata (to_canonical ip)) \<and>
     (\<forall>ip d. Guard_check g ip = Inl d \<longrightarrow> gd_denied_addr d = show_ip ip \<and> gd_prefix d \<in> set DEFAULT_DENY)"
proof -
  have denied: "(\<exists>d. Guard_check g ip = Inl d) \<longleftrightarrow> Guard_check g ip \<noteq> Inr ()" for g ip
    by (cases "Guard_check g ip") auto
  obtain g where g: "default_set = Some g" by (simp add: default_set_eq)
  have "(\<exists>d. Guard_check g ip = Inl d) \<longleftrightarrow> local_or_metadata ip \<or> local_or_metadata (to_canonical ip)" for ip
    unfolding denied using g
    by (cases ip) (auto simp: default_set_eq Guard_check_Inr default_contains split: option.splits)
  moreover have "gd_denied_addr d = show_ip ip \<and> gd_prefix d \<in> set DEFAULT_DENY"
    if "Guard_check g ip = Inl d" for ip d
  proof -
    note denial = that
    obtain c where "(c, gd_prefix d) \<in> set (gu_deny g)" "gd_denied_addr d = show_ip ip"
      using Guard_check_Inl [OF denial] by blast
    then show ?thesis using g by (auto simp: default_set_eq DEFAULT_DENY_def)
  qed
  ultimately show ?thesis using g by blast
qed

theorem default_guard_denies_witness:
  "\<exists>g. default_set = Some g \<and> (\<exists>d. Guard_check g (V6 (mapped 0x7F000001)) = Inl d) \<and>
     Guard_check g (V4 0x0A000001) = Inr ()"
proof -
  obtain g where g: "default_set = Some g"
    and iff: "\<And>ip. (\<exists>d. Guard_check g ip = Inl d) \<longleftrightarrow> local_or_metadata ip \<or> local_or_metadata (to_canonical ip)"
    using default_guard_denies by blast
  have "local_or_metadata (to_canonical (V6 (mapped 0x7F000001)))" by code_simp
  moreover have "\<not> local_or_metadata (V4 0x0A000001)" "to_canonical (V4 0x0A000001) = V4 0x0A000001"
    by (code_simp, simp)
  moreover have "Guard_check g (V4 0x0A000001) = Inr ()" if "\<nexists>d. Guard_check g (V4 0x0A000001) = Inl d"
    using that by (cases "Guard_check g (V4 0x0A000001)") auto
  ultimately show ?thesis using g iff by auto
qed

section \<open>A reload does not disturb a request\<close>

text \<open>
  What the handlers and the management API rely on: a swap is what the next handler reads, leaves every
  runtime that was taken before readable, and brings in no other.
\<close>

locale snapshot_store =
  fixes cur :: "'s \<Rightarrow> nat" and put :: "'r \<Rightarrow> 's \<Rightarrow> 's" and get :: "'s \<Rightarrow> nat \<Rightarrow> 'r option"
  assumes get_current: "get (put r st) (cur (put r st)) = Some r"
    and get_old: "get st a = Some r \<Longrightarrow> get (put r' st) a = Some r"
    and get_only: "get (put r st) a = Some r' \<Longrightarrow> r' = r \<or> get st a = Some r'"
begin

lemma get_fold_old: "get st a = Some r \<Longrightarrow> get (fold put rs st) a = Some r"
  by (induction rs arbitrary: st) (simp_all add: get_old)

lemma get_fold_current: "rs \<noteq> [] \<Longrightarrow> get (fold put rs st) (cur (fold put rs st)) = Some (last rs)"
  by (induction rs rule: rev_induct) (simp_all add: get_current)

end

interpretation shared: snapshot_store current swap deref
  by unfold_locales (auto simp: deref_def swap_def current_def nth_append split: if_splits)

text \<open>
  A handler takes the runtime once. However often the configuration is swapped afterwards,
  what it took still reads as the same runtime, while a handler that starts after the last
  swap reads the newest.
\<close>

theorem swap_keeps_snapshot:
  assumes "deref st a = Some r" "rs \<noteq> []"
  shows "deref (fold swap rs st) a = Some r \<and>
    deref (fold swap rs st) (current (fold swap rs st)) = Some (last rs)"
  using shared.get_fold_old [OF assms(1)] shared.get_fold_current [OF assms(2)] by blast

theorem swap_keeps_snapshot_witness:
  "deref (fold swap [2, 3] (SharedState_new (1 :: nat))) 0 = Some 1 \<and>
   deref (fold swap [2, 3] (SharedState_new (1 :: nat)))
     (current (fold swap [2, 3] (SharedState_new (1 :: nat)))) = Some 3"
proof -
  have start: "deref (SharedState_new (1 :: nat)) 0 = Some 1" by (simp add: deref_def SharedState_new_def)
  show ?thesis using swap_keeps_snapshot [OF start, of "[2, 3]"] by simp
qed

end
