(* ===== verification/Byte_Order.thy ===== *)
theory Byte_Order
  imports Prelude
begin

text \<open>
  Big-endian integers in byte buffers and \<open>slice::get\<close>, which the wire formats of the DNS server
  and of the tunnel listener share. The two widths are interpreted as codecs.
\<close>

section \<open>Big-endian integers\<close>

definition be16 :: "u16 \<Rightarrow> bytes" where
  "be16 w = [byte_of (drop_bit 8 w), byte_of w]"

definition be32 :: "u32 \<Rightarrow> bytes" where
  "be32 w = [byte_of (drop_bit 24 w), byte_of (drop_bit 16 w), byte_of (drop_bit 8 w), byte_of w]"

definition from_be16 :: "byte \<Rightarrow> byte \<Rightarrow> u16" where
  "from_be16 a b = push_bit 8 (word_of a) OR word_of b"

definition from_be32 :: "byte \<Rightarrow> byte \<Rightarrow> byte \<Rightarrow> byte \<Rightarrow> u32" where
  "from_be32 a b c d =
    push_bit 24 (word_of a) OR push_bit 16 (word_of b) OR push_bit 8 (word_of c) OR word_of d"

fun read_be16 :: "bytes \<Rightarrow> u16 option" where
  "read_be16 [a, b] = Some (from_be16 a b)"
| "read_be16 _ = None"

fun read_be32 :: "bytes \<Rightarrow> u32 option" where
  "read_be32 [a, b, c, d] = Some (from_be32 a b c d)"
| "read_be32 _ = None"

text \<open>\<open>slice::get\<close>, on an index and on a range.\<close>

definition get :: "'a list \<Rightarrow> nat \<Rightarrow> 'a option" where
  "get xs i = (if i < length xs then Some (xs ! i) else None)"

definition get_range :: "'a list \<Rightarrow> nat \<Rightarrow> nat \<Rightarrow> 'a list option" where
  "get_range xs i j = (if i \<le> j \<and> j \<le> length xs then Some (take (j - i) (drop i xs)) else None)"

section \<open>Reading back\<close>

lemma from_be16_be16: "from_be16 (byte_of (drop_bit 8 w)) (byte_of w) = w"
proof -
  have "push_bit 8 (take_bit 8 (drop_bit 8 w)) OR take_bit 8 w = (w :: u16)"
    by (rule bit_eqI) (auto simp: bit_simps)
  then show ?thesis by (simp add: from_be16_def word_of_byte_of)
qed

lemma from_be32_be32:
  "from_be32 (byte_of (drop_bit 24 w)) (byte_of (drop_bit 16 w)) (byte_of (drop_bit 8 w)) (byte_of w) = w"
proof -
  have "push_bit 24 (take_bit 8 (drop_bit 24 w)) OR push_bit 16 (take_bit 8 (drop_bit 16 w))
    OR push_bit 8 (take_bit 8 (drop_bit 8 w)) OR take_bit 8 w = (w :: u32)" (is "?l = w")
  proof (rule bit_eqI)
    fix n :: nat
    consider "n < 8" | "8 \<le> n \<and> n < 16" | "16 \<le> n \<and> n < 24" | "24 \<le> n" by linarith
    then show "bit ?l n = bit w n"
      by cases (auto simp: bit_simps dest: bit_imp_le_length)
  qed
  then show ?thesis by (simp add: from_be32_def word_of_byte_of)
qed

interpretation be16: codec be16 read_be16
  by unfold_locales (simp add: be16_def from_be16_be16)

interpretation be32: codec be32 read_be32
  by unfold_locales (simp add: be32_def from_be32_be32)

lemma length_be [simp]: "length (be16 w) = 2" "length (be32 v) = 4"
  by (simp_all add: be16_def be32_def)

lemma get_append: "get (pre @ xs) (length pre + k) = get xs k"
  by (simp add: get_def nth_append)

lemma be16_bytes: obtains a b where "be16 w = [a, b]" "from_be16 a b = w"
  using from_be16_be16 [of w] by (auto simp: be16_def)

end
