(* ===== verification/Tunnel_Wire.thy ===== *)
theory Tunnel_Wire
  imports Byte_Order Ip_Addr Utf8
begin

text \<open>
  The handshakes of the tunnel listener, \<open>crates/hematite-proxy/src/tunnel.rs\<close>: protocol
  dispatch on the first byte, the CONNECT request line, the SOCKS5 negotiation, and the scan of
  a TLS ClientHello for its server name.
\<close>

section \<open>Definitions\<close>

subsection \<open>Dispatch\<close>

datatype client_protocol = Client_Socks5 | Client_Http | Client_Unknown

definition dispatch :: "byte \<Rightarrow> client_protocol" where
  "dispatch b = (if b = CHR 0x05 then Client_Socks5 else if is_upper b then Client_Http else Client_Unknown)"

datatype inner_protocol = Inner_Tls | Inner_Http | Inner_Unknown

definition sniff_inner :: "byte \<Rightarrow> inner_protocol" where
  "sniff_inner b = (if b = CHR 0x16 then Inner_Tls else if is_upper b then Inner_Http else Inner_Unknown)"

record connect_target =
  ct_host :: string
  ct_port :: u16

subsection \<open>CONNECT\<close>

text \<open>\<open>str::lines().next()\<close>: the text before the first line feed, without the carriage return before it.\<close>

definition first_line :: "string \<Rightarrow> string option" where
  "first_line raw =
    (if raw = [] then None
     else case split_once (CHR 0x0A) raw of
       None \<Rightarrow> Some raw
     | Some (l, _) \<Rightarrow> Some (unwrap_or (strip_suffix [CHR 0x0D] l) l))"

text \<open>One step of \<open>split_whitespace\<close>: the next word and what follows it; no word is the end.\<close>

fun take_word :: "string \<Rightarrow> string \<times> string" where
  "take_word [] = ([], [])"
| "take_word (c # cs) =
    (if ws_len ws_seqs (c # cs) \<noteq> 0 then ([], c # cs) else (let (w, rest) = take_word cs in (c # w, rest)))"

definition next_word :: "string \<Rightarrow> (string \<times> string) option" where
  "next_word s = (let (w, rest) = take_word (trim_start s) in if w = [] then None else Some (w, rest))"

definition parse_port :: "string \<Rightarrow> u16 option" where
  "parse_port s = map_option of_nat (parse_u16 s)"

definition split_authority :: "string \<Rightarrow> u16 \<Rightarrow> (string \<times> u16) option" where
  "split_authority auth default_port =
    (case strip_prefix ''['' auth of
       Some rest \<Rightarrow>
         (case find_sub '']'' rest of
            None \<Rightarrow> None
          | Some e \<Rightarrow>
              (let host = to_lower (take e rest)
               in case strip_prefix '':'' (drop (e + 1) rest) of
                    Some p \<Rightarrow> map_option (\<lambda>port. (host, port)) (parse_port p)
                  | None \<Rightarrow> Some (host, default_port)))
     | None \<Rightarrow>
         (case rsplit_once CHR '':'' auth of
            Some (h, p) \<Rightarrow>
              if CHR '':'' \<notin> set h then map_option (\<lambda>port. (to_lower h, port)) (parse_port p)
              else Some (to_lower auth, default_port)
          | None \<Rightarrow> Some (to_lower auth, default_port)))"

definition parse_connect :: "string \<Rightarrow> connect_target option" where
  "parse_connect raw =
    (case first_line raw of
       None \<Rightarrow> None
     | Some line \<Rightarrow>
         (case next_word line of
            None \<Rightarrow> None
          | Some (verb, rest) \<Rightarrow>
              if verb \<noteq> ''CONNECT'' then None
              else (case next_word rest of
                      None \<Rightarrow> None
                    | Some (auth, _) \<Rightarrow>
                        map_option (\<lambda>(host, port). \<lparr>ct_host = host, ct_port = port\<rparr>) (split_authority auth 443))))"

subsection \<open>SOCKS5\<close>

datatype socks5_method = NoAuth | Unacceptable

definition parse_socks5_methods :: "bytes \<Rightarrow> socks5_method option" where
  "parse_socks5_methods rest =
    (case get rest 0 of
       None \<Rightarrow> None
     | Some n \<Rightarrow>
         (case get_range rest 1 (1 + code n) of
            None \<Rightarrow> None
          | Some ms \<Rightarrow> Some (if CHR 0x00 \<in> set ms then NoAuth else Unacceptable)))"

datatype socks5_reject = CommandNotSupported | AddressNotSupported | Malformed

fun reply_code :: "socks5_reject \<Rightarrow> byte" where
  "reply_code CommandNotSupported = CHR 0x07"
| "reply_code AddressNotSupported = CHR 0x08"
| "reply_code Malformed = CHR 0x01"

text \<open>\<open>Ipv6Addr::from\<close> the eight segments of sixteen bytes.\<close>

definition ipv6_of_bytes :: "bytes \<Rightarrow> u128" where
  "ipv6_of_bytes addr =
    of_nat (be_value 65536 (map (\<lambda>i. unat (from_be16 (addr ! (i * 2)) (addr ! (i * 2 + 1)))) [0 ..< 8]))"

definition socks5_address :: "bytes \<Rightarrow> socks5_reject + (string \<times> nat)" where
  "socks5_address req =
    (let atyp = req ! 3
     in if atyp = CHR 0x01 then
          and_then (ok_or Malformed (get_range req 4 8)) (\<lambda>addr.
            Inr (join_with ''.'' (map (\<lambda>i. show_dec (code (addr ! i))) [0, 1, 2, 3]), 8))
        else if atyp = CHR 0x03 then
          and_then (ok_or Malformed (get req 4)) (\<lambda>n.
          and_then (ok_or Malformed (get_range req 5 (5 + code n))) (\<lambda>name.
          and_then (ok_or Malformed (from_utf8 name)) (\<lambda>host.
            Inr (to_lower host, 5 + code n))))
        else if atyp = CHR 0x04 then
          and_then (ok_or Malformed (get_range req 4 20)) (\<lambda>addr. Inr (show_ipv6 (ipv6_of_bytes addr), 20))
        else Inl AddressNotSupported)"

definition parse_socks5_request :: "bytes \<Rightarrow> socks5_reject + connect_target" where
  "parse_socks5_request req =
    (if length req < 4 \<or> req ! 0 \<noteq> CHR 0x05 then Inl Malformed
     else if req ! 1 \<noteq> CHR 0x01 then Inl CommandNotSupported
     else
       and_then (socks5_address req) (\<lambda>(host, port_offset).
       and_then (ok_or Malformed (get_range req port_offset (port_offset + 2))) (\<lambda>p.
         Inr \<lparr>ct_host = host, ct_port = from_be16 (p ! 0) (p ! 1)\<rparr>)))"

definition SOCKS5_SUCCESS :: bytes where
  "SOCKS5_SUCCESS = [CHR 0x05, CHR 0x00, CHR 0x00, CHR 0x01, CHR 0x00, CHR 0x00, CHR 0x00, CHR 0x00, CHR 0x00, CHR 0x00]"

definition socks5_failure :: "byte \<Rightarrow> bytes" where
  "socks5_failure rep = [CHR 0x05, rep, CHR 0x00, CHR 0x01, CHR 0x00, CHR 0x00, CHR 0x00, CHR 0x00, CHR 0x00, CHR 0x00]"

subsection \<open>The server name of a ClientHello\<close>

datatype sni_scan = Incomplete | NoSni | Sni string | NotTls

definition be16_at :: "bytes \<Rightarrow> nat \<Rightarrow> nat" where
  "be16_at bs i = unat (from_be16 (bs ! i) (bs ! (i + 1)))"

text \<open>The content of a server name extension: list length, name type 0, name length, name.\<close>

definition server_name :: "bytes \<Rightarrow> sni_scan" where
  "server_name ext =
    (if length ext < 5 \<or> ext ! 2 \<noteq> CHR 0x00 then NoSni
     else (case get_range ext 5 (5 + be16_at ext 3) of
             None \<Rightarrow> NoSni
           | Some name \<Rightarrow> (case from_utf8 name of Some n \<Rightarrow> Sni (to_lower n) | None \<Rightarrow> NoSni)))"

function scan_exts :: "bytes \<Rightarrow> nat \<Rightarrow> nat \<Rightarrow> sni_scan" where
  "scan_exts body ext_end i =
    (if i + 4 \<le> min ext_end (length body) then
       (let ext_type = be16_at body i;
            ext_len = be16_at body (i + 2);
            i' = i + 4
        in case get_range body i' (i' + ext_len) of
             None \<Rightarrow> NoSni
           | Some ext \<Rightarrow> if ext_type = 0 then server_name ext else scan_exts body ext_end (i' + ext_len))
     else NoSni)"
  by pat_completeness auto
termination
  by (relation "measure (\<lambda>(body, ext_end, i). length body - i)") auto

declare scan_exts.simps [simp del]

definition scan_hello :: "bytes \<Rightarrow> sni_scan" where
  "scan_hello body =
    (case get body 34 of
       None \<Rightarrow> NotTls
     | Some sid_len \<Rightarrow>
         (let i1 = 34 + (1 + code sid_len)
          in case get_range body i1 (i1 + 2) of
               None \<Rightarrow> NotTls
             | Some cs \<Rightarrow>
                 (let i2 = i1 + (2 + be16_at cs 0)
                  in case get body i2 of
                       None \<Rightarrow> NotTls
                     | Some comp_len \<Rightarrow>
                         (let i3 = i2 + (1 + code comp_len)
                          in case get_range body i3 (i3 + 2) of
                               None \<Rightarrow> NoSni
                             | Some ext_total \<Rightarrow> scan_exts body (i3 + 2 + be16_at ext_total 0) (i3 + 2)))))"

definition scan_record :: "bytes \<Rightarrow> sni_scan" where
  "scan_record rec =
    (if length rec < 4 \<or> rec ! 0 \<noteq> CHR 0x01 then NotTls
     else
       (let hs_len = unat (from_be32 (CHR 0x00) (rec ! 1) (rec ! 2) (rec ! 3));
            b = drop 4 rec
        in if hs_len \<le> length b then scan_hello (take hs_len b) else NoSni))"

definition scan_client_hello_sni :: "bytes \<Rightarrow> sni_scan" where
  "scan_client_hello_sni buf =
    (if length buf < 5 then Incomplete
     else if buf ! 0 \<noteq> CHR 0x16 then NotTls
     else case get_range buf 5 (5 + be16_at buf 3) of
       None \<Rightarrow> Incomplete
     | Some rec \<Rightarrow> scan_record rec)"

section \<open>The scan decides on the first record\<close>

lemma get_range_append: "get_range xs i j = Some ys \<Longrightarrow> get_range (xs @ zs) i j = Some ys"
  by (auto simp: get_range_def split: if_splits)

lemma scan_stable:
  assumes "scan_client_hello_sni buf \<noteq> Incomplete"
  shows "scan_client_hello_sni (buf @ tl_bytes) = scan_client_hello_sni buf"
proof -
  have len: "\<not> length buf < 5" using assms by (auto simp: scan_client_hello_sni_def)
  then have nth: "(buf @ tl_bytes) ! i = buf ! i" if "i < 5" for i using that by (simp add: nth_append)
  have at3: "be16_at (buf @ tl_bytes) 3 = be16_at buf 3" by (simp add: be16_at_def nth)
  show ?thesis
  proof (cases "buf ! 0 \<noteq> CHR 0x16")
    case True
    then show ?thesis using len nth by (simp add: scan_client_hello_sni_def)
  next
    case False
    then obtain rec where rec: "get_range buf 5 (5 + be16_at buf 3) = Some rec"
      using assms len by (auto simp: scan_client_hello_sni_def split: option.splits)
    then show ?thesis using False len nth get_range_append [OF rec]
      by (simp add: scan_client_hello_sni_def at3)
  qed
qed

section \<open>The scan reads a ClientHello\<close>

text \<open>A reference encoder of the parts of RFC 8446 the scan walks over.\<close>

type_synonym tls_ext = "u16 \<times> bytes"

record client_hello =
  ch_version_random :: bytes
  ch_session_id :: bytes
  ch_cipher_suites :: bytes
  ch_compression :: bytes
  ch_extensions :: "tls_ext list"

definition encode_ext :: "tls_ext \<Rightarrow> bytes" where
  "encode_ext e = (case e of (ty, d) \<Rightarrow> be16 ty @ be16 (of_nat (length d)) @ d)"

definition encode_exts :: "tls_ext list \<Rightarrow> bytes" where
  "encode_exts es = concat (map encode_ext es)"

definition encode_hello :: "client_hello \<Rightarrow> bytes" where
  "encode_hello h =
    ch_version_random h @ char_of (length (ch_session_id h)) # ch_session_id h
    @ be16 (of_nat (length (ch_cipher_suites h))) @ ch_cipher_suites h
    @ char_of (length (ch_compression h)) # ch_compression h
    @ be16 (of_nat (length (encode_exts (ch_extensions h)))) @ encode_exts (ch_extensions h)"

definition be24 :: "nat \<Rightarrow> bytes" where
  "be24 n = [char_of (n div 65536 mod 256), char_of (n div 256 mod 256), char_of (n mod 256)]"

definition tls_record :: "byte \<Rightarrow> byte \<Rightarrow> client_hello \<Rightarrow> bytes" where
  "tls_record v w h =
    (let hs = CHR 0x01 # be24 (length (encode_hello h)) @ encode_hello h
     in [CHR 0x16, v, w] @ be16 (of_nat (length hs)) @ hs)"

definition hello_ok :: "client_hello \<Rightarrow> bool" where
  "hello_ok h \<longleftrightarrow>
    length (ch_version_random h) = 34 \<and> length (ch_session_id h) < 256 \<and> length (ch_compression h) < 256 \<and>
    (\<forall>(ty, d) \<in> set (ch_extensions h). length d < 65536) \<and> length (encode_hello h) + 4 < 65536"

lemma be16_at_be16:
  assumes "n < 65536"
  shows "be16_at (be16 (of_nat n) @ rest) 0 = n" "be16_at (be16 (of_nat n)) 0 = n"
proof -
  have "unat (of_nat n :: u16) = n" using assms by (simp add: unat_of_nat take_bit_eq_mod)
  moreover obtain a b where "be16 (of_nat n) = [a, b]" "from_be16 a b = of_nat n" by (rule be16_bytes)
  ultimately show "be16_at (be16 (of_nat n) @ rest) 0 = n" "be16_at (be16 (of_nat n)) 0 = n"
    by (simp_all add: be16_at_def)
qed

lemma be16_at_drop: "be16_at (pre @ xs) (length pre + k) = be16_at xs k"
  by (simp add: be16_at_def nth_append)

lemma get_range_mid: "get_range (pre @ xs @ post) (length pre) (length pre + length xs) = Some xs"
  by (simp add: get_range_def)

lemma be16_word: "be16 w = be16 (of_nat (unat w))"
  by simp

text \<open>What the extensions say, found by type.\<close>

definition ext_server_name :: "tls_ext list \<Rightarrow> sni_scan" where
  "ext_server_name es = (case find (\<lambda>(ty, d). ty = 0) es of None \<Rightarrow> NoSni | Some (ty, d) \<Rightarrow> server_name d)"

lemma scan_exts_encoded:
  assumes "\<forall>(ty, d) \<in> set es. length d < 65536"
  shows "scan_exts (pre @ encode_exts es) (length pre + length (encode_exts es)) (length pre) = ext_server_name es"
  using assms
proof (induction es arbitrary: pre)
  case Nil
  then show ?case by (subst scan_exts.simps) (simp add: encode_exts_def ext_server_name_def)
next
  case (Cons e es)
  obtain ty d where e: "e = (ty, d)" by force
  have d: "length d < 65536" using Cons.prems e by auto
  have tyb: "unat ty < 65536" by (rule order.strict_trans2 [OF unsigned_less]) simp
  have enc: "encode_exts (e # es) = be16 ty @ be16 (of_nat (length d)) @ d @ encode_exts es"
    by (simp add: encode_exts_def encode_ext_def e)
  let ?body = "pre @ encode_exts (e # es)"
  have ty: "be16_at ?body (length pre) = unat ty"
    using be16_at_drop [of pre "encode_exts (e # es)" 0] be16_at_be16(1) [OF tyb] by (simp add: enc)
  have len: "be16_at ?body (length pre + 2) = length d"
    using be16_at_drop [of "pre @ be16 ty" "be16 (of_nat (length d)) @ d @ encode_exts es" 0] be16_at_be16(1) [OF d]
    by (simp add: enc)
  have ext: "get_range ?body (length pre + 4) (length pre + 4 + length d) = Some d"
    using get_range_mid [of "pre @ be16 ty @ be16 (of_nat (length d))" d "encode_exts es"] by (simp add: enc)
  have rest: "scan_exts ?body (length pre + length (encode_exts (e # es))) (length pre + 4 + length d) =
      ext_server_name es"
  proof -
    let ?p = "pre @ be16 ty @ be16 (of_nat (length d)) @ d"
    have "?body = ?p @ encode_exts es" "length pre + 4 + length d = length ?p"
      "length pre + length (encode_exts (e # es)) = length ?p + length (encode_exts es)"
      by (simp_all add: enc)
    moreover have "\<forall>(ty, d) \<in> set es. length d < 65536" using Cons.prems by simp
    ultimately show ?thesis using Cons.IH [of ?p] by (simp only:)
  qed
  have "scan_exts ?body (length pre + length (encode_exts (e # es))) (length pre) =
      (if unat ty = 0 then server_name d else ext_server_name es)"
  proof -
    have room: "length pre + 4 \<le> min (length pre + length (encode_exts (e # es))) (length ?body)"
      by (simp add: enc)
    show ?thesis by (subst scan_exts.simps) (simp only: room if_True Let_def ty len ext option.case rest)
  qed
  then show ?case by (simp add: ext_server_name_def e unat_eq_zero)
qed

lemma get_mid: "get (pre @ x # post) (length pre) = Some x"
  by (simp add: get_def)

lemma scan_hello_encoded:
  assumes "hello_ok h"
  shows "scan_hello (encode_hello h) = ext_server_name (ch_extensions h)"
proof -
  define vr sid cs co es where "vr = ch_version_random h" and "sid = ch_session_id h"
    and "cs = ch_cipher_suites h" and "co = ch_compression h" and "es = ch_extensions h"
  let ?n = "length (encode_exts es)"
  define s1 where "s1 = be16 (of_nat ?n) @ encode_exts es"
  define s2 where "s2 = char_of (length co) # co @ s1"
  define s3 where "s3 = be16 (of_nat (length cs)) @ cs @ s2"
  have body: "encode_hello h = vr @ char_of (length sid) # sid @ s3"
    by (simp add: encode_hello_def vr_def sid_def cs_def co_def es_def s1_def s2_def s3_def)
  have bounds: "length vr = 34" "length sid < 256" "length co < 256" "\<forall>(ty, d) \<in> set es. length d < 65536"
    "length (encode_hello h) < 65536"
    using assms by (simp_all add: hello_ok_def vr_def sid_def co_def es_def)
  then have small: "length cs < 65536" "?n < 65536"
    by (simp_all add: body s3_def s2_def s1_def)
  define p1 where "p1 = vr @ char_of (length sid) # sid"
  define p2 where "p2 = p1 @ be16 (of_nat (length cs)) @ cs"
  define p3 where "p3 = p2 @ char_of (length co) # co"
  have at1: "encode_hello h = p1 @ be16 (of_nat (length cs)) @ cs @ s2"
    and at2: "encode_hello h = p2 @ char_of (length co) # co @ s1"
    and at3: "encode_hello h = p3 @ be16 (of_nat ?n) @ encode_exts es"
    and at4: "encode_hello h = (p3 @ be16 (of_nat ?n)) @ encode_exts es"
    by (simp_all add: body p1_def p2_def p3_def s1_def s2_def s3_def)
  have l1: "34 + (1 + length sid) = length p1" using bounds(1) by (simp add: p1_def)
  have l2: "length p1 + (2 + length cs) = length p2" by (simp add: p2_def)
  have l3: "length p2 + (1 + length co) = length p3" by (simp add: p3_def)
  have g1: "get (encode_hello h) 34 = Some (char_of (length sid))"
    unfolding body using get_mid [of vr] bounds(1) by simp
  have g2: "get_range (encode_hello h) (length p1) (length p1 + 2) = Some (be16 (of_nat (length cs)))"
    using get_range_mid [of p1 "be16 (of_nat (length cs))" "cs @ s2"] by (simp add: at1)
  have g3: "get (encode_hello h) (length p2) = Some (char_of (length co))"
    unfolding at2 by (rule get_mid)
  have g4: "get_range (encode_hello h) (length p3) (length p3 + 2) = Some (be16 (of_nat ?n))"
    using get_range_mid [of p3 "be16 (of_nat ?n)" "encode_exts es"] by (simp add: at3)
  have "scan_exts (encode_hello h) (length p3 + 2 + ?n) (length p3 + 2) = ext_server_name es"
    using scan_exts_encoded [OF bounds(4), of "p3 @ be16 (of_nat ?n)"] by (simp add: at4)
  then show ?thesis
    unfolding scan_hello_def Let_def g1 option.case code_char_of [OF bounds(2)] l1 g2 be16_at_be16(2) [OF small(1)]
      l2 g3 code_char_of [OF bounds(3)] l3 g4 be16_at_be16(2) [OF small(2)]
    by (simp add: es_def)
qed

lemma be24_value: "n < 16777216 \<Longrightarrow>
  unat (from_be32 (CHR 0x00) (be24 n ! 0) (be24 n ! 1) (be24 n ! 2)) = n"
proof -
  assume n: "n < 16777216"
  obtain w :: u32 where w: "w = of_nat n" by simp
  have un: "unat w = n" using n w by (simp add: unat_of_nat take_bit_eq_mod)
  have b: "byte_of (drop_bit k w) = char_of (n div 2 ^ k)" for k
    using un by (simp add: byte_of_def unsigned_drop_bit_eq w) (use n in \<open>simp add: drop_bit_eq_div take_bit_eq_mod\<close>)
  have "from_be32 (byte_of (drop_bit 24 w)) (byte_of (drop_bit 16 w)) (byte_of (drop_bit 8 w)) (byte_of w) = w"
    by (rule from_be32_be32)
  moreover have "char_of (0 :: nat) = CHR 0x00" by code_simp
  with n b [of 24] have "byte_of (drop_bit 24 w) = CHR 0x00" by simp
  moreover have "byte_of (drop_bit 16 w) = be24 n ! 0" "byte_of (drop_bit 8 w) = be24 n ! 1" "byte_of w = be24 n ! 2"
    using b [of 16] b [of 8] un by (simp_all add: be24_def byte_of_def)
  ultimately show ?thesis using un by simp
qed

text \<open>
  C37. The scan finds the server name: on the TLS record of any well-formed ClientHello, whatever its
  session identifier, cipher suites, compression methods and extensions are and whatever follows the record, the scan answers from
  the first server name extension, and NoSni when there is none. A name that is UTF-8 comes out in lower case.
\<close>

theorem sni_scan_correct:
  assumes "hello_ok h"
  shows "scan_client_hello_sni (tls_record v w h @ rest) = ext_server_name (ch_extensions h) \<and>
    (\<forall>pre name post n k. ch_extensions h = pre @ (0, be16 k @ CHR 0x00 # be16 (of_nat (length name)) @ name) # post \<longrightarrow>
       0 \<notin> fst ` set pre \<longrightarrow> from_utf8 name = Some n \<longrightarrow>
       scan_client_hello_sni (tls_record v w h @ rest) = Sni (to_lower n))"
proof -
  define hs where "hs = CHR 0x01 # be24 (length (encode_hello h)) @ encode_hello h"
  have small: "length hs < 65536" "length (encode_hello h) < 16777216"
    using assms by (simp_all add: hs_def be24_def hello_ok_def)
  have rec: "tls_record v w h @ rest = [CHR 0x16, v, w] @ be16 (of_nat (length hs)) @ hs @ rest"
    by (simp add: tls_record_def hs_def)
  have len: "be16_at (tls_record v w h @ rest) 3 = length hs"
    unfolding rec using be16_at_drop [of "[CHR 0x16, v, w]" _ 0] be16_at_be16(1) [OF small(1)]
    by (simp add: numeral_3_eq_3)
  have range: "get_range (tls_record v w h @ rest) 5 (5 + length hs) = Some hs"
    unfolding rec using get_range_mid [of "[CHR 0x16, v, w] @ be16 (of_nat (length hs))" hs rest] by simp
  have "scan_client_hello_sni (tls_record v w h @ rest) = scan_record hs"
    unfolding scan_client_hello_sni_def len range by (simp add: rec)
  moreover have "scan_record hs = scan_hello (encode_hello h)"
    using be24_value [OF small(2)] by (simp add: scan_record_def hs_def be24_def)
  ultimately have main: "scan_client_hello_sni (tls_record v w h @ rest) = ext_server_name (ch_extensions h)"
    using scan_hello_encoded [OF assms] by simp
  have "ext_server_name (ch_extensions h) = Sni (to_lower n)"
    if "ch_extensions h = pre @ (0, be16 k @ CHR 0x00 # be16 (of_nat (length name)) @ name) # post"
      "0 \<notin> fst ` set pre" "from_utf8 name = Some n" for pre name post n k
  proof -
    let ?d = "be16 k @ CHR 0x00 # be16 (of_nat (length name)) @ name"
    have "length ?d < 65536" using assms that(1) by (auto simp: hello_ok_def)
    then have name: "length name < 65536" by simp
    have "find (\<lambda>(ty, d). ty = 0) pre = None"
      using that(2) by (force simp: find_None_iff image_iff)
    then have "find (\<lambda>(ty, d). ty = 0) (ch_extensions h) = Some (0, ?d)"
      unfolding that(1) by (induction pre) (auto split: if_splits)
    moreover have "server_name ?d = Sni (to_lower n)"
      using be16_at_drop [of "be16 k @ [CHR 0x00]" "be16 (of_nat (length name)) @ name" 0] be16_at_be16(1) [OF name]
        get_range_mid [of "be16 k @ CHR 0x00 # be16 (of_nat (length name))" name "[]"] that(3)
      by (simp add: server_name_def nth_append)
    ultimately show ?thesis by (simp add: ext_server_name_def)
  qed
  then show ?thesis using main by simp
qed

definition test_hello :: client_hello where
  "test_hello =
    \<lparr>ch_version_random = replicate 34 CHR 0x03, ch_session_id = ''session'', ch_cipher_suites = ''ciph'',
     ch_compression = [CHR 0x00],
     ch_extensions = [(10, ''ab''), (0, be16 6 @ CHR 0x00 # be16 3 @ ''A.b''), (0, ''zz'')]\<rparr>"

lemma test_hello_ok: "hello_ok test_hello"
  by (simp add: test_hello_def hello_ok_def encode_hello_def encode_exts_def encode_ext_def)

theorem sni_scan_correct_witness:
  "scan_client_hello_sni (tls_record CHR 0x03 CHR 0x01 test_hello @ ''more'') = Sni ''a.b''"
proof -
  have ext: "ch_extensions test_hello =
      [(10, ''ab'')] @ (0, be16 6 @ CHR 0x00 # be16 (of_nat (length ''A.b'')) @ ''A.b'') # [(0, ''zz'')]"
    by (simp add: test_hello_def)
  have utf: "from_utf8 ''A.b'' = Some ''A.b''" and low: "to_lower ''A.b'' = ''a.b''" by code_simp+
  have "scan_client_hello_sni (tls_record CHR 0x03 CHR 0x01 test_hello @ ''more'') = Sni (to_lower ''A.b'')"
    by (rule conjunct2 [OF sni_scan_correct [OF test_hello_ok], rule_format, OF ext _ utf]) simp
  then show ?thesis unfolding low .
qed

text \<open>
  Once the scan has decided, more bytes do not change its mind: as soon as a buffer gives an
  answer other than Incomplete, every longer buffer gives the same answer. So the reading
  loop of the passthrough tunnel reaches the same decision however the client's bytes are cut into
  reads.
\<close>

theorem sni_scan_stable:
  assumes "scan_client_hello_sni buf \<noteq> Incomplete"
  shows "scan_client_hello_sni (buf @ tl_bytes) = scan_client_hello_sni buf"
  using assms by (rule scan_stable)

theorem sni_scan_stable_witness:
  "scan_client_hello_sni (''GET / HTTP/1.1'' @ ''x'') = NotTls"
proof -
  have now: "scan_client_hello_sni ''GET / HTTP/1.1'' = NotTls" by code_simp
  then have "scan_client_hello_sni ''GET / HTTP/1.1'' \<noteq> Incomplete" by simp
  from sni_scan_stable [OF this, of "''x''"] now show ?thesis by simp
qed

section \<open>SOCKS5 requests\<close>

text \<open>A reference encoder of RFC 1928 requests.\<close>

datatype socks_addr = Addr_V4 u32 | Addr_Name string | Addr_V6 u128

definition be_digits :: "nat \<Rightarrow> nat \<Rightarrow> nat \<Rightarrow> nat list" where
  "be_digits b m n = map (\<lambda>k. n div b ^ k mod b) (rev [0 ..< m])"

fun encode_addr :: "socks_addr \<Rightarrow> bytes" where
  "encode_addr (Addr_V4 a) = CHR 0x01 # map char_of (octets a)"
| "encode_addr (Addr_Name n) = CHR 0x03 # char_of (length n) # n"
| "encode_addr (Addr_V6 a) = CHR 0x04 # map char_of (be_digits 256 16 (unat a))"

definition encode_socks5 :: "socks_addr \<Rightarrow> u16 \<Rightarrow> bytes" where
  "encode_socks5 addr port = [CHR 0x05, CHR 0x01, CHR 0x00] @ encode_addr addr @ be16 port"

fun socks_host :: "socks_addr \<Rightarrow> string" where
  "socks_host (Addr_V4 a) = show_ip (V4 a)"
| "socks_host (Addr_Name n) = to_lower n"
| "socks_host (Addr_V6 a) = show_ip (V6 a)"

fun addr_ok :: "socks_addr \<Rightarrow> bool" where
  "addr_ok (Addr_Name n) \<longleftrightarrow> length n < 256 \<and> utf8_valid n"
| "addr_ok _ \<longleftrightarrow> True"

lemma be_value_snoc: "be_value b (ds @ [d]) = be_value b ds * b + d"
  by (simp add: be_value_def)

lemma be_value_digits: "be_value b (be_digits b m n) = n mod b ^ m"
proof (induction m arbitrary: n)
  case 0
  then show ?case by (simp add: be_digits_def be_value_def)
next
  case (Suc m)
  have "rev [0 ..< Suc m] = map Suc (rev [0 ..< m]) @ [0]"
    by (simp add: rev_map [symmetric] map_Suc_upt del: upt_Suc) (simp add: upt_conv_Cons)
  then have "be_digits b (Suc m) n = be_digits b m (n div b) @ [n mod b]"
    unfolding be_digits_def by (simp add: div_mult2_eq comp_def)
  then show ?case using Suc [of "n div b"] by (simp add: be_value_snoc mod_mult2_eq)
qed

lemma unat_from_be16: "unat (from_be16 a b) = code a * 256 + code b"
proof -
  have "take_bit 8 (code b) = code b" by (simp add: take_bit_nat_eq_self)
  then have "\<not> bit (code b) n" if "8 \<le> n" for n using that by (metis bit_take_bit_iff not_le)
  then have "push_bit 8 (word_of a :: u16) OR word_of b = push_bit 8 (word_of a) + word_of b"
    by (intro disjunctive_add [symmetric]) (auto simp: bit_simps)
  then have eq: "from_be16 a b = of_nat (code a * 256 + code b)"
    by (simp add: from_be16_def word_of_def push_bit_eq_mult)
  have "code a * 256 + code b < 65536" using code_less [of a] code_less [of b] by linarith
  then show ?thesis unfolding eq unat_of_nat by simp
qed

lemma be_digits_nth: "i < m \<Longrightarrow> be_digits b m n ! i = n div b ^ (m - 1 - i) mod b"
  by (simp add: be_digits_def rev_nth)

lemma ipv6_of_digits: "ipv6_of_bytes (map char_of (be_digits 256 16 (unat a)) @ rest) = a"
proof -
  let ?n = "unat a"
  have pair: "?n div 256 ^ (15 - i * 2) mod 256 * 256 + ?n div 256 ^ (14 - i * 2) mod 256 = ?n div 65536 ^ (7 - i) mod 65536"
    if "i < 8" for i
  proof -
    have "(65536 :: nat) ^ (7 - i) = 256 ^ (14 - i * 2)"
      using that power_mult [of "256 :: nat" 2 "7 - i"] by (simp add: algebra_simps)
    moreover have "(256 :: nat) ^ (15 - i * 2) = 256 ^ (14 - i * 2) * 256"
    proof -
      have "15 - i * 2 = Suc (14 - i * 2)" using that by linarith
      then show ?thesis using power_Suc2 [of "256 :: nat" "14 - i * 2"] by simp
    qed
    moreover have "x div 256 mod 256 * 256 + x mod 256 = x mod 65536" for x :: nat
      using mod_mult2_eq [of x 256 256] by simp
    ultimately show ?thesis by (simp add: div_mult2_eq)
  qed
  have "map (\<lambda>i. unat (from_be16 ((map char_of (be_digits 256 16 ?n) @ rest) ! (i * 2))
      ((map char_of (be_digits 256 16 ?n) @ rest) ! (i * 2 + 1)))) [0 ..< 8] = be_digits 65536 8 ?n"
  proof (rule nth_equalityI)
    fix i assume "i < length (map (\<lambda>i. unat (from_be16 ((map char_of (be_digits 256 16 ?n) @ rest) ! (i * 2))
      ((map char_of (be_digits 256 16 ?n) @ rest) ! (i * 2 + 1)))) [0 ..< 8])"
    then have i: "i < 8" by simp
    have len: "length (be_digits 256 16 ?n) = 16" by (simp add: be_digits_def)
    have digit: "be_digits 256 16 ?n ! j = ?n div 256 ^ (15 - j) mod 256" if "j < 16" for j
      using that by (simp add: be_digits_nth)
    show "map (\<lambda>i. unat (from_be16 ((map char_of (be_digits 256 16 ?n) @ rest) ! (i * 2))
      ((map char_of (be_digits 256 16 ?n) @ rest) ! (i * 2 + 1)))) [0 ..< 8] ! i = be_digits 65536 8 ?n ! i"
      using i pair [OF i] digit [of "i * 2"] digit [of "i * 2 + 1"]
      by (simp add: nth_append len unat_from_be16 be_digits_nth)
  qed (simp add: be_digits_def)
  then have "ipv6_of_bytes (map char_of (be_digits 256 16 ?n) @ rest) = of_nat (?n mod 65536 ^ 8)"
    by (simp add: ipv6_of_bytes_def be_value_digits)
  moreover have "?n < 65536 ^ 8" by (rule order.strict_trans2 [OF unsigned_less]) simp
  ultimately show ?thesis by simp
qed

lemma octets_four:
  obtains p q r s where "octets a = [p, q, r, s]" "p < 256" "q < 256" "r < 256" "s < 256"
  by (simp add: octets_def)

lemma octets_small: "length (octets a) = 4"
  by (simp add: octets_def)

lemma get_range_at:
  "length pre = i \<Longrightarrow> i + length xs = j \<Longrightarrow> get_range (pre @ xs @ post) i j = Some xs"
  using get_range_mid [of pre xs post] by simp

lemma parse_encode_socks5:
  assumes "addr_ok addr"
  shows "parse_socks5_request (encode_socks5 addr port @ rest) = Inr \<lparr>ct_host = socks_host addr, ct_port = port\<rparr> \<and>
    (\<forall>a. addr = Addr_V4 a \<longrightarrow> parse_ip (socks_host addr) = Some (V4 a))"
proof -
  obtain x y where port: "be16 port = [x, y]" "from_be16 x y = port" by (rule be16_bytes)
  let ?req = "encode_socks5 addr port @ rest"
  have head: "4 \<le> length ?req" "?req ! 0 = CHR 0x05" "?req ! 1 = CHR 0x01"
    by (cases addr; simp add: encode_socks5_def)+
  have fin: "parse_socks5_request ?req = Inr \<lparr>ct_host = host, ct_port = port\<rparr>"
    if "socks5_address ?req = Inr (host, n)" "get_range ?req n (n + 2) = Some (be16 port)" for host n
    using that head port by (simp add: parse_socks5_request_def ok_or_def)
  have "parse_socks5_request ?req = Inr \<lparr>ct_host = socks_host addr, ct_port = port\<rparr>"
  proof (cases addr)
    case (Addr_V4 a)
    let ?pre = "[CHR 0x05, CHR 0x01, CHR 0x00, CHR 0x01]"
    have req: "?req = ?pre @ map char_of (octets a) @ be16 port @ rest"
      by (simp add: Addr_V4 encode_socks5_def)
    have "get_range ?req 4 8 = Some (map char_of (octets a))"
      unfolding req by (rule get_range_at) (simp_all add: octets_small)
    moreover have "map (\<lambda>i. show_dec (code (map char_of (octets a) ! i))) [0, 1, 2, 3] = map show_dec (octets a)"
      by (rule octets_four [of a]) (simp add: numeral_3_eq_3)
    ultimately have "socks5_address ?req = Inr (show_ipv4 a, 8)"
      by (simp add: socks5_address_def req ok_or_def show_ipv4_def del: list.map)
    moreover have "get_range ?req 8 (8 + 2) = Some (be16 port)"
      unfolding req using get_range_at [of "?pre @ map char_of (octets a)" 8 "be16 port" "8 + 2" rest]
      by (simp add: octets_small)
    ultimately show ?thesis using fin Addr_V4 by simp
  next
    case (Addr_Name n)
    let ?pre = "[CHR 0x05, CHR 0x01, CHR 0x00, CHR 0x03, char_of (length n)]"
    have req: "?req = ?pre @ n @ be16 port @ rest" by (simp add: Addr_Name encode_socks5_def)
    have ok: "length n < 256" "from_utf8 n = Some n" using assms Addr_Name by (simp_all add: from_utf8_def)
    have "get ?req 4 = Some (char_of (length n))" by (simp add: req get_def)
    moreover have "get_range ?req 5 (5 + length n) = Some n"
      unfolding req by (rule get_range_at) simp_all
    ultimately have "socks5_address ?req = Inr (to_lower n, 5 + length n)"
      using ok by (simp add: socks5_address_def) (simp add: req ok_or_def)
    moreover have "get_range ?req (5 + length n) (5 + length n + 2) = Some (be16 port)"
      unfolding req using get_range_at [of "?pre @ n" "5 + length n" "be16 port" "5 + length n + 2" rest] by simp
    ultimately show ?thesis using fin Addr_Name by simp
  next
    case (Addr_V6 a)
    let ?pre = "[CHR 0x05, CHR 0x01, CHR 0x00, CHR 0x04]"
    let ?bs = "map char_of (be_digits 256 16 (unat a)) :: bytes"
    have req: "?req = ?pre @ ?bs @ be16 port @ rest" by (simp add: Addr_V6 encode_socks5_def)
    have len: "length ?bs = 16" by (simp add: be_digits_def)
    have "get_range ?req 4 20 = Some ?bs"
      unfolding req using len by (intro get_range_at) simp_all
    moreover have "ipv6_of_bytes ?bs = a" using ipv6_of_digits [of a "[]"] by simp
    ultimately have "socks5_address ?req = Inr (show_ipv6 a, 20)"
      by (simp add: socks5_address_def) (simp add: req ok_or_def)
    moreover have "get_range ?req 20 (20 + 2) = Some (be16 port)"
      unfolding req using get_range_at [of "?pre @ ?bs" 20 "be16 port" "20 + 2" rest] len by simp
    ultimately show ?thesis using fin Addr_V6 by simp
  qed
  then show ?thesis by (auto simp: parse_show_ipv4)
qed

text \<open>
  A SOCKS5 CONNECT request is read as its target: for an IPv4 address the dotted text, which parses back
  to that address, for an IPv6 address its text, for a name of at most 255 bytes the name in
  lower case, each with the port, whatever follows the request.
\<close>

theorem socks5_roundtrip:
  assumes "addr_ok addr"
  shows "parse_socks5_request (encode_socks5 addr port @ rest) = Inr \<lparr>ct_host = socks_host addr, ct_port = port\<rparr> \<and>
    (\<forall>a. addr = Addr_V4 a \<longrightarrow> parse_ip (socks_host addr) = Some (V4 a))"
  using assms by (rule parse_encode_socks5)

theorem socks5_roundtrip_witness:
  "parse_socks5_request (encode_socks5 (Addr_Name ''API.example'') 443 @ []) =
     Inr \<lparr>ct_host = ''api.example'', ct_port = 443\<rparr>"
proof -
  have "addr_ok (Addr_Name ''API.example'')" by code_simp
  moreover have "to_lower ''API.example'' = ''api.example''" by code_simp
  ultimately show ?thesis using socks5_roundtrip [of "Addr_Name ''API.example''" 443 "[]"] by simp
qed

text \<open>The bytes a request of each address type needs.\<close>

definition socks5_length :: "bytes \<Rightarrow> nat" where
  "socks5_length req =
    (if req ! 3 = CHR 0x01 then 10 else if req ! 3 = CHR 0x04 then 22 else 7 + code (req ! 4))"

lemma socks5_address_Inr:
  "socks5_address req = Inr (host, n) \<Longrightarrow> 4 \<le> length req \<Longrightarrow>
     req ! 3 \<in> {CHR 0x01, CHR 0x03, CHR 0x04} \<and> n + 2 = socks5_length req"
  by (auto simp: socks5_address_def Let_def result_simps socks5_length_def get_def split: if_splits)

lemma socks5_accepts:
  assumes "parse_socks5_request req = Inr t"
  shows "4 \<le> length req \<and> req ! 0 = CHR 0x05 \<and> req ! 1 = CHR 0x01 \<and> req ! 3 \<in> {CHR 0x01, CHR 0x03, CHR 0x04} \<and>
    socks5_length req \<le> length req"
proof -
  obtain host n where addr: "socks5_address req = Inr (host, n)" and port: "n + 2 \<le> length req"
    and head: "4 \<le> length req" "req ! 0 = CHR 0x05" "req ! 1 = CHR 0x01"
    using assms by (auto simp: parse_socks5_request_def result_simps get_range_def split: if_splits)
  then show ?thesis using socks5_address_Inr [OF addr] by auto
qed

lemma socks5_address_Inl:
  "socks5_address req = Inl e \<Longrightarrow>
     e = (if req ! 3 \<in> {CHR 0x01, CHR 0x03, CHR 0x04} then Malformed else AddressNotSupported)"
  by (auto simp: socks5_address_def Let_def ok_or_def split: if_splits option.splits)

lemma socks5_refused:
  assumes "parse_socks5_request req = Inl e"
  shows "e =
    (if length req < 4 \<or> req ! 0 \<noteq> CHR 0x05 then Malformed
     else if req ! 1 \<noteq> CHR 0x01 then CommandNotSupported
     else if req ! 3 \<notin> {CHR 0x01, CHR 0x03, CHR 0x04} then AddressNotSupported else Malformed)"
proof (cases "length req < 4 \<or> req ! 0 \<noteq> CHR 0x05 \<or> req ! 1 \<noteq> CHR 0x01")
  case True
  then show ?thesis using assms by (auto simp: parse_socks5_request_def split: if_splits)
next
  case False
  show ?thesis
  proof (cases "socks5_address req")
    case (Inl e')
    then show ?thesis using False assms socks5_address_Inl [OF Inl] by (auto simp: parse_socks5_request_def)
  next
    case (Inr hn)
    then obtain host n where hn: "socks5_address req = Inr (host, n)" by (cases hn) simp
    then show ?thesis using False assms socks5_address_Inr [OF hn]
      by (auto simp: parse_socks5_request_def ok_or_def split: option.splits)
  qed
qed

text \<open>
  C38. How a SOCKS5 request is refused: code 7 exactly for a version 5 request with a command
  other than CONNECT, code 8 exactly for a CONNECT with an unknown address type, and code 1
  for everything else that is refused. In particular no proper prefix of a well-formed request
  is taken for a shorter request: each is malformed.
\<close>

theorem socks5_refusals:
  assumes "addr_ok addr"
  shows "(parse_socks5_request req = Inl CommandNotSupported \<longleftrightarrow>
       4 \<le> length req \<and> req ! 0 = CHR 0x05 \<and> req ! 1 \<noteq> CHR 0x01) \<and>
    (parse_socks5_request req = Inl AddressNotSupported \<longleftrightarrow>
       4 \<le> length req \<and> req ! 0 = CHR 0x05 \<and> req ! 1 = CHR 0x01 \<and> req ! 3 \<notin> {CHR 0x01, CHR 0x03, CHR 0x04}) \<and>
    map reply_code [CommandNotSupported, AddressNotSupported, Malformed] = [CHR 0x07, CHR 0x08, CHR 0x01] \<and>
    (k < length (encode_socks5 addr port) \<longrightarrow>
       parse_socks5_request (take k (encode_socks5 addr port)) = Inl Malformed)"
proof (intro conjI impI)
  show "parse_socks5_request req = Inl CommandNotSupported \<longleftrightarrow>
      4 \<le> length req \<and> req ! 0 = CHR 0x05 \<and> req ! 1 \<noteq> CHR 0x01"
    using socks5_refused [of req CommandNotSupported] by (auto simp: parse_socks5_request_def split: if_splits)
  show "parse_socks5_request req = Inl AddressNotSupported \<longleftrightarrow>
      4 \<le> length req \<and> req ! 0 = CHR 0x05 \<and> req ! 1 = CHR 0x01 \<and> req ! 3 \<notin> {CHR 0x01, CHR 0x03, CHR 0x04}"
    using socks5_refused [of req] socks5_accepts [of req]
    by (cases "parse_socks5_request req") (auto split: if_splits)
next
  assume k: "k < length (encode_socks5 addr port)"
  let ?req = "encode_socks5 addr port"
  have req: "4 \<le> length ?req" "?req ! 0 = CHR 0x05" "?req ! 1 = CHR 0x01" "?req ! 3 \<in> {CHR 0x01, CHR 0x03, CHR 0x04}"
    by (cases addr; simp add: encode_socks5_def)+
  have len: "socks5_length ?req = length ?req"
    using assms by (cases addr) (simp_all add: encode_socks5_def socks5_length_def octets_small be_digits_def)
  have nth: "take k ?req ! i = ?req ! i" if "i < k" for i using that by simp
  show "parse_socks5_request (take k ?req) = Inl Malformed"
  proof (cases "parse_socks5_request (take k ?req)")
    case (Inl e)
    then show ?thesis using socks5_refused [OF Inl] req nth [of 0] nth [of 1] nth [of 3] by (auto split: if_splits)
  next
    case (Inr t)
    from socks5_accepts [OF Inr] have ok: "4 \<le> k" "socks5_length (take k ?req) \<le> k" using k by auto
    have "socks5_length (take k ?req) = socks5_length ?req"
    proof (cases "?req ! 3 = CHR 0x03")
      case True
      then have "5 \<le> k" using ok nth [of 3] by (simp add: socks5_length_def)
      then show ?thesis using nth [of 3] nth [of 4] by (simp add: socks5_length_def)
    next
      case False
      then show ?thesis using ok(1) req(4) nth [of 3] by (auto simp: socks5_length_def)
    qed
    then show ?thesis using ok len k by simp
  qed
qed simp

theorem socks5_refusals_witness:
  "parse_socks5_request (take 9 (encode_socks5 (Addr_V4 0x0A000001) 80)) = Inl Malformed \<and>
   parse_socks5_request [CHR 0x05, CHR 0x02, CHR 0x00, CHR 0x01] = Inl CommandNotSupported"
proof -
  have "9 < length (encode_socks5 (Addr_V4 0x0A000001) 80)" by code_simp
  then show ?thesis
    using socks5_refusals [of "Addr_V4 0x0A000001" "[CHR 0x05, CHR 0x02, CHR 0x00, CHR 0x01]" 9 80] by simp
qed

section \<open>CONNECT requests\<close>

lemma ws_len_printable: "printable c \<Longrightarrow> ws_len ws_seqs (c # s) = 0"
proof (rule ws_len_zero)
  fix w assume c: "printable c" "w \<in> set ws_seqs"
  then show "\<not> prefix w (c # s)" using ws_seqs_unprintable [of w] by (cases w) auto
qed

lemma take_word_printable:
  "\<forall>c \<in> set w. printable c \<Longrightarrow> take_word (w @ CHR '' '' # rest) = (w, CHR '' '' # rest)"
proof (induction w)
  case Nil
  have "ws_len ws_seqs (CHR '' '' # rest) = 1" by (simp add: ws_len_def ws_seqs_def)
  then show ?case by simp
qed (simp add: ws_len_printable)

lemma trim_start_printable: "printable c \<Longrightarrow> trim_start (c # s) = c # s"
  unfolding trim_start_def by (subst trim_seqs.simps) (simp add: ws_len_printable)

lemma trim_start_space: "printable c \<Longrightarrow> trim_start (CHR '' '' # c # s) = c # s"
proof -
  assume c: "printable c"
  have "ws_len ws_seqs (CHR '' '' # c # s) = 1" by (simp add: ws_len_def ws_seqs_def)
  then have "trim_seqs ws_seqs (CHR '' '' # c # s) = trim_seqs ws_seqs (c # s)" by (subst trim_seqs.simps) simp
  then show ?thesis using trim_start_printable [OF c] by (simp add: trim_start_def)
qed

lemma show_dec_printable: "c \<in> set (show_dec n) \<Longrightarrow> printable c \<and> c \<noteq> CHR '':''"
proof -
  assume "c \<in> set (show_dec n)"
  then obtain d where "d < 10" "c = digit_char d" using show_radix_digits [of 10 c n] by auto
  then have "48 \<le> code c" "code c \<le> 57" by (auto simp: digit_char_def)
  then show ?thesis by (auto simp: printable_def)
qed

text \<open>
  A CONNECT request line is read as its target: host and port of the authority, the host in lower case, the
  port 443 when none is given, and an IPv6 literal without its brackets; whatever follows on later lines.
\<close>

theorem connect_roundtrip:
  assumes "host \<noteq> []" "\<forall>c \<in> set host. printable c" "CHR '':'' \<notin> set host" "CHR ''['' \<notin> set host" "CHR '']'' \<notin> set host"
  shows "parse_connect (''CONNECT '' @ host @ '':'' @ show_dec (unat port) @ '' HTTP/1.1'' @ [CHR 0x0D, CHR 0x0A] @ rest) =
      Some \<lparr>ct_host = to_lower host, ct_port = port\<rparr> \<and>
    parse_connect (''CONNECT '' @ host @ '' HTTP/1.1'' @ [CHR 0x0D, CHR 0x0A] @ rest) =
      Some \<lparr>ct_host = to_lower host, ct_port = 443\<rparr> \<and>
    parse_connect (''CONNECT ['' @ host @ '']:'' @ show_dec (unat port) @ '' HTTP/1.1'' @ [CHR 0x0D, CHR 0x0A] @ rest) =
      Some \<lparr>ct_host = to_lower host, ct_port = port\<rparr>"
proof -
  have line: "parse_connect (''CONNECT '' @ auth @ '' HTTP/1.1'' @ [CHR 0x0D, CHR 0x0A] @ rest) =
      map_option (\<lambda>(h, p). \<lparr>ct_host = h, ct_port = p\<rparr>) (split_authority auth 443)"
    if auth: "auth \<noteq> []" "\<forall>c \<in> set auth. printable c" for auth
  proof -
    let ?l = "''CONNECT '' @ auth @ '' HTTP/1.1''"
    have "CHR 0x0A \<notin> set auth" using auth(2) by (auto simp: printable_def)
    then have "split_once (CHR 0x0A) (?l @ [CHR 0x0D, CHR 0x0A] @ rest) = Some (?l @ [CHR 0x0D], rest)"
      by (simp add: split_once_Some)
    moreover have "strip_suffix [CHR 0x0D] (?l @ [CHR 0x0D]) = Some ?l" by (simp add: strip_suffix_Some)
    ultimately have fl: "first_line (?l @ [CHR 0x0D, CHR 0x0A] @ rest) = Some ?l" by (simp add: first_line_def)
    have "\<forall>c \<in> set ''CONNECT''. printable c" by (simp add: printable_def)
    from take_word_printable [OF this, of "auth @ '' HTTP/1.1''"]
    have w1: "next_word ?l = Some (''CONNECT'', CHR '' '' # auth @ '' HTTP/1.1'')"
      using trim_start_printable [of "CHR ''C''"] by (simp add: next_word_def printable_def del: take_word.simps)
    obtain c cs where cs: "auth = c # cs" using auth(1) by (cases auth) auto
    have "trim_start (CHR '' '' # auth @ '' HTTP/1.1'') = auth @ '' HTTP/1.1''"
      using trim_start_space [of c] auth(2) cs by simp
    then have w2: "next_word (CHR '' '' # auth @ '' HTTP/1.1'') = Some (auth, '' HTTP/1.1'')"
      using take_word_printable [OF auth(2), of "''HTTP/1.1''"] auth(1) by (simp add: next_word_def)
    show ?thesis using fl w1 w2 by (simp add: parse_connect_def)
  qed
  have port: "parse_port (show_dec (unat port)) = Some port"
  proof -
    have "unat port < 65536" by (rule order.strict_trans2 [OF unsigned_less]) simp
    then show ?thesis using from_str_show [of 10 "unat port" 65535] by (simp add: parse_port_def parse_u16_def)
  qed
  have digits: "\<forall>c \<in> set (show_dec (unat port)). printable c" "CHR '':'' \<notin> set (show_dec (unat port))"
    using show_dec_printable by blast+
  have "\<not> prefix ''['' (host @ s)" for s using assms(1,4) by (cases host) auto
  then have opn: "strip_prefix ''['' (host @ s) = None" for s by (simp add: strip_prefix_None)
  have a1: "split_authority (host @ '':'' @ show_dec (unat port)) 443 = Some (to_lower host, port)"
    using rsplit_once_Some [of "CHR '':''" "host @ '':'' @ show_dec (unat port)" host "show_dec (unat port)"]
      digits(2) assms(3) port by (simp add: split_authority_def opn)
  have a2: "split_authority host 443 = Some (to_lower host, 443)"
  proof -
    have "rsplit_once CHR '':'' host = None"
    proof (cases "rsplit_once CHR '':'' host")
      case (Some ab)
      then show ?thesis using assms(3) by (cases ab) (simp add: rsplit_once_Some)
    qed
    then show ?thesis using opn [of "[]"] by (simp add: split_authority_def)
  qed
  have a3: "split_authority (''['' @ host @ '']:'' @ show_dec (unat port)) 443 = Some (to_lower host, port)"
  proof -
    have "find_sub '']'' (host @ '']:'' @ show_dec (unat port)) = Some (length host)"
    proof -
      have "find_sub '']'' (u @ '']'' @ v) = Some (length u)" if "CHR '']'' \<notin> set u" for u v
        using that by (induction u) auto
      from this [OF assms(5)] show ?thesis by simp
    qed
    then show ?thesis using port by (simp add: split_authority_def strip_prefix_def)
  qed
  have colon: "printable CHR '':''" "printable CHR ''[''" "printable CHR '']''" by (simp_all add: printable_def)
  have p1: "\<forall>c \<in> set (host @ '':'' @ show_dec (unat port)). printable c"
    and p3: "\<forall>c \<in> set (''['' @ host @ '']:'' @ show_dec (unat port)). printable c"
    using assms(2) digits(1) colon by auto
  have "parse_connect (''CONNECT '' @ (host @ '':'' @ show_dec (unat port)) @ '' HTTP/1.1'' @ [CHR 0x0D, CHR 0x0A] @ rest) =
      Some \<lparr>ct_host = to_lower host, ct_port = port\<rparr>"
    by (subst line [OF _ p1]) (simp_all only: a1, simp_all)
  moreover have "parse_connect (''CONNECT '' @ host @ '' HTTP/1.1'' @ [CHR 0x0D, CHR 0x0A] @ rest) =
      Some \<lparr>ct_host = to_lower host, ct_port = 443\<rparr>"
    by (subst line [OF assms(1,2)]) (simp add: a2)
  moreover have "parse_connect (''CONNECT '' @ (''['' @ host @ '']:'' @ show_dec (unat port)) @ '' HTTP/1.1'' @ [CHR 0x0D, CHR 0x0A] @ rest) =
      Some \<lparr>ct_host = to_lower host, ct_port = port\<rparr>"
    by (subst line [OF _ p3]) (simp_all only: a3, simp_all)
  ultimately show ?thesis by simp
qed

theorem connect_roundtrip_witness:
  "parse_connect (''CONNECT '' @ ''Api.example'' @ '' HTTP/1.1'' @ [CHR 0x0D, CHR 0x0A] @ []) =
     Some \<lparr>ct_host = ''api.example'', ct_port = 443\<rparr>"
proof -
  have "to_lower ''Api.example'' = ''api.example''" "\<forall>c \<in> set ''Api.example''. printable c" by (code_simp, simp add: printable_def)
  then show ?thesis using connect_roundtrip [of "''Api.example''" 443 "[]"] by simp
qed

end
