(* ===== verification/Leaf_Cache.thy ===== *)
theory Leaf_Cache
  imports Proxy_Metrics Tunnel_Wire
begin

text \<open>
  TLS leaf minting, \<open>crates/hematite-proxy/src/tls.rs\<close>: reading the CA certificate, the serial
  numbers, the parameters of a minted leaf, and the per-host cache with its single-flight
  minting. Key generation and signing are a parameter, and so is the \<open>lru\<close> crate. The cache is
  shared by concurrent tasks: each section the code runs under a lock, and each publication on a
  channel, is one step of a task, and a run interleaves the steps of any number of tasks.
\<close>

section \<open>Definitions\<close>

datatype tls_error = TlsError message

subsection \<open>The CA certificate\<close>

text \<open>\<open>split_whitespace().collect::<String>()\<close>: the words of the text, run together.\<close>

function join_words :: "string \<Rightarrow> string" where
  "join_words s = (case next_word s of None \<Rightarrow> [] | Some (w, rest) \<Rightarrow> w @ join_words rest)"
  by pat_completeness auto

lemma take_word_append: "take_word s = (w, r) \<Longrightarrow> s = w @ r"
  by (induction s arbitrary: w r) (auto split: if_splits prod.splits)

lemma trim_seqs_length: "length (trim_seqs seqs s) \<le> length s"
proof (induction seqs s rule: trim_seqs.induct)
  case (1 seqs s)
  then show ?case by (subst trim_seqs.simps) (auto intro: le_trans)
qed

lemma next_word_shorter: "next_word s = Some (w, r) \<Longrightarrow> length r < length s"
  using trim_seqs_length [of ws_seqs s] take_word_append [of "trim_start s"]
  by (cases w) (auto simp: next_word_def trim_start_def split: prod.splits if_splits)

termination join_words
  by (relation "measure length") (auto dest: next_word_shorter)

declare join_words.simps [simp del]

definition BEGIN_CERT :: string where
  "BEGIN_CERT = ''-----BEGIN CERTIFICATE-----''"

definition END_CERT :: string where
  "END_CERT = ''-----END CERTIFICATE-----''"

definition pem_cert_to_der :: "string \<Rightarrow> tls_error + bytes" where
  "pem_cert_to_der pem =
    and_then (ok_or (TlsError [Lit ''ca_cert PEM has no CERTIFICATE block'']) (find_sub BEGIN_CERT pem)) (\<lambda>start.
    let after = drop (start + length BEGIN_CERT) pem
    in and_then (ok_or (TlsError [Lit ''ca_cert PEM CERTIFICATE block unterminated'']) (find_sub END_CERT after)) (\<lambda>e.
       and_then (ok_or (TlsError [Lit ''ca_cert PEM body is not valid base64''])
         (base64_decode (join_words (take e after)))) Inr))"

subsection \<open>Serial numbers\<close>

unbundle bit_operations_syntax

definition xorshift :: "u64 \<Rightarrow> u64" where
  "xorshift x0 =
    (let x1 = x0 XOR push_bit 13 x0;
         x2 = x1 XOR drop_bit 7 x1
     in x2 XOR push_bit 17 x2)"

definition next_serial :: "u64 \<Rightarrow> u64 \<times> u64" where
  "next_serial seed = (let x = xorshift seed in (x, x))"

subsection \<open>Minting\<close>

datatype san_type = San_Ip ip_addr | San_Dns string

record cert_params =
  cp_sans :: "san_type list"
  cp_common_name :: string
  cp_is_ca :: bool
  cp_key_usages :: "string list"
  cp_extended_key_usages :: "string list"
  cp_serial :: u64
  cp_not_before :: int
  cp_not_after :: int

record signing_ca =
  ca_der :: bytes
  ca_expiry_hours :: u64
  ca_serial_seed :: u64

text \<open>
  Loading the CA. The key pair and the issuer certificate that \<open>rcgen\<close> rebuilds stay inside the signing
  function below; what loading can fail with is the parameter, and so is the clock, in nanoseconds since
  the epoch, or none for a clock before it.
\<close>

record ('p, 'q) ca_loader =
  ld_key :: "string \<Rightarrow> string + 'p"
  ld_params :: "string \<Rightarrow> string + 'q"
  ld_self_signed :: "'q \<Rightarrow> 'p \<Rightarrow> string option"

definition from_pem ::
  "('p, 'q) ca_loader \<Rightarrow> nat option \<Rightarrow> string \<Rightarrow> string \<Rightarrow> u64 \<Rightarrow> tls_error + signing_ca" where
  "from_pem ld clock cert_pem key_pem expiry_hours =
    and_then (map_err (\<lambda>e. TlsError [Lit ''ca key: '', Disp e]) (ld_key ld key_pem)) (\<lambda>key.
    and_then (map_err (\<lambda>e. TlsError [Lit ''ca cert: '', Disp e]) (ld_params ld cert_pem)) (\<lambda>params.
    and_then (case ld_self_signed ld params key of
                Some e \<Rightarrow> Inl (TlsError [Lit ''ca reconstruct: '', Disp e]) | None \<Rightarrow> Inr ()) (\<lambda>_.
    and_then (pem_cert_to_der cert_pem) (\<lambda>der.
      Inr \<lparr>ca_der = der, ca_expiry_hours = expiry_hours,
           ca_serial_seed = (case clock of Some ns \<Rightarrow> word_of_nat ns | None \<Rightarrow> 0x5eed5eed)\<rparr>))))"

text \<open>
  The crates \<open>rcgen\<close> and \<open>rustls\<close>: which names are IA5 strings, what key generation, signing and the
  export of the key give, and whether a chain and key make a server configuration.
\<close>

record ('p, 'k) crypto =
  cr_ia5 :: "string \<Rightarrow> bool"
  cr_keygen :: "string + 'p"
  cr_sign :: "cert_params \<Rightarrow> 'p \<Rightarrow> string + bytes"
  cr_key_der :: "'p \<Rightarrow> string + 'k"
  cr_single_cert :: "bytes list \<Rightarrow> 'k \<Rightarrow> string option"

record 'k certified_leaf =
  cl_chain :: "bytes list"
  cl_key :: 'k

definition san_of :: "('p, 'k) crypto \<Rightarrow> string \<Rightarrow> tls_error + san_type" where
  "san_of cr target =
    (case parse_ip target of
       Some ip \<Rightarrow> Inr (San_Ip ip)
     | None \<Rightarrow>
         if cr_ia5 cr target then Inr (San_Dns target) else Inl (TlsError [Lit ''invalid dNSName: '', Debug target]))"

text \<open>
  The product of hours and seconds wraps at its width. The times are integers here; an expiry beyond what the clock and
  the date library can hold, some eight thousand years, makes their additions panic, and such configurations are left out.
\<close>

definition leaf_params :: "signing_ca \<Rightarrow> string \<Rightarrow> san_type \<Rightarrow> u64 \<Rightarrow> int \<Rightarrow> cert_params" where
  "leaf_params ca target san serial now =
    \<lparr>cp_sans = [san], cp_common_name = target, cp_is_ca = False, cp_key_usages = [''DigitalSignature''],
     cp_extended_key_usages = [''ServerAuth''], cp_serial = serial, cp_not_before = now - 60,
     cp_not_after = now + uint (ca_expiry_hours ca * 3600)\<rparr>"

definition mint ::
  "('p, 'k) crypto \<Rightarrow> int \<Rightarrow> string \<Rightarrow> signing_ca \<Rightarrow> (tls_error + 'k certified_leaf) \<times> signing_ca" where
  "mint cr now target ca =
    (case san_of cr target of
       Inl e \<Rightarrow> (Inl e, ca)
     | Inr san \<Rightarrow>
         (let (serial, seed) = next_serial (ca_serial_seed ca);
              params = leaf_params ca target san serial now
          in (and_then (map_err (\<lambda>e. TlsError [Lit ''leaf keygen: '', Disp e]) (cr_keygen cr)) (\<lambda>leaf_key.
              and_then (map_err (\<lambda>e. TlsError [Lit ''leaf sign: '', Disp e]) (cr_sign cr params leaf_key)) (\<lambda>leaf.
              and_then (map_err (\<lambda>e. TlsError [Lit ''leaf key der: '', Disp e]) (cr_key_der cr leaf_key)) (\<lambda>key.
                Inr \<lparr>cl_chain = [leaf, ca_der ca], cl_key = key\<rparr>))),
              ca\<lparr>ca_serial_seed := seed\<rparr>)))"

record 'k server_config =
  sc_leaf :: "'k certified_leaf"
  sc_alpn :: "string list"

definition server_config :: "('p, 'k) crypto \<Rightarrow> 'k certified_leaf \<Rightarrow> tls_error + 'k server_config" where
  "server_config cr leaf =
    (case cr_single_cert cr (cl_chain leaf) (cl_key leaf) of
       Some e \<Rightarrow> Inl (TlsError [Lit ''server config: '', Disp e])
     | None \<Rightarrow> Inr \<lparr>sc_leaf = leaf, sc_alpn = [''h2'', ''http/1.1'']\<rparr>)"

definition mint_config ::
  "('p, 'k) crypto \<Rightarrow> int \<Rightarrow> string \<Rightarrow> signing_ca \<Rightarrow> (tls_error + 'k server_config) \<times> signing_ca" where
  "mint_config cr now target ca = (let (r, ca') = mint cr now target ca in (and_then r (server_config cr), ca'))"

subsection \<open>The cache\<close>

text \<open>
  The \<open>lru\<close> crate as three functions on the cache: a lookup that also marks the entry as used, an
  insertion that may evict another entry, and what the cache holds. The laws are those its
  documentation states.
\<close>

record ('c, 'v) lru =
  lr_get :: "string \<Rightarrow> 'c \<Rightarrow> 'v option \<times> 'c"
  lr_put :: "string \<Rightarrow> 'v \<Rightarrow> 'c \<Rightarrow> 'c"
  lr_peek :: "'c \<Rightarrow> string \<Rightarrow> 'v option"

definition lru_laws :: "('c, 'v) lru \<Rightarrow> bool" where
  "lru_laws l \<longleftrightarrow>
    (\<forall>k c. fst (lr_get l k c) = lr_peek l c k) \<and>
    (\<forall>k c k'. lr_peek l (snd (lr_get l k c)) k' = lr_peek l c k') \<and>
    (\<forall>k v c. lr_peek l (lr_put l k v c) k = Some v) \<and>
    (\<forall>k v c k' v'. k' \<noteq> k \<longrightarrow> lr_peek l (lr_put l k v c) k' = Some v' \<longrightarrow> lr_peek l c k' = Some v')"

text \<open>
  What the tasks share. A channel is named by the target it was registered under and a number;
  its content is \<^const>\<open>None\<close> until its sender publishes. The last field is the history of mints.
\<close>

record ('c, 'v) shared =
  lc_lru :: 'c
  lc_inflight :: "string \<rightharpoonup> nat"
  lc_chan :: "string \<times> nat \<rightharpoonup> 'v option"
  lc_next :: nat
  lc_ca :: signing_ca
  lc_metrics :: "metrics option"
  lc_minted :: "(string \<times> 'v) list"

text \<open>Where a call of \<open>get\<close> stands; \<open>Finished None\<close> is the error.\<close>

datatype 'v task =
    Start
  | Missed
  | Awaiting nat
  | Minting nat
  | Minted nat "'v option"
  | Stored nat "'v option"
  | Removed nat "'v option"
  | Finished "'v option"

text \<open>One step of a call; \<^const>\<open>None\<close> when the call is blocked or over.\<close>

fun task_step ::
  "('c, 'k server_config) lru \<Rightarrow> ('p, 'k) crypto \<Rightarrow> int \<Rightarrow> string \<Rightarrow> 'k server_config task \<Rightarrow>
   ('c, 'k server_config) shared \<Rightarrow> ('k server_config task \<times> ('c, 'k server_config) shared) option" where
  "task_step l cr now target Start sh =
    (case lr_get l target (lc_lru sh) of
       (Some hit, c) \<Rightarrow> Some (Finished (Some hit), sh\<lparr>lc_lru := c, lc_metrics := map_option (inc_tls_cache True) (lc_metrics sh)\<rparr>)
     | (None, c) \<Rightarrow> Some (Missed, sh\<lparr>lc_lru := c\<rparr>))"
| "task_step l cr now target Missed sh =
    (case lc_inflight sh target of
       Some n \<Rightarrow> Some (Awaiting n, sh\<lparr>lc_metrics := map_option (inc_tls_cache False) (lc_metrics sh)\<rparr>)
     | None \<Rightarrow>
         Some (Minting (lc_next sh),
           sh\<lparr>lc_inflight := (lc_inflight sh)(target \<mapsto> lc_next sh), lc_next := lc_next sh + 1,
              lc_metrics := map_option (inc_tls_cache False) (lc_metrics sh)\<rparr>))"
| "task_step l cr now target (Minting n) sh =
    (let (r, ca) = mint_config cr now target (lc_ca sh)
     in case r of
          Inr v \<Rightarrow> Some (Minted n (Some v), sh\<lparr>lc_ca := ca, lc_minted := (target, v) # lc_minted sh\<rparr>)
        | Inl _ \<Rightarrow> Some (Minted n None, sh\<lparr>lc_ca := ca\<rparr>))"
| "task_step l cr now target (Minted n r) sh =
    Some (Stored n r, case r of Some v \<Rightarrow> sh\<lparr>lc_lru := lr_put l target v (lc_lru sh)\<rparr> | None \<Rightarrow> sh)"
| "task_step l cr now target (Stored n r) sh =
    Some (Removed n r, sh\<lparr>lc_inflight := (lc_inflight sh)(target := None)\<rparr>)"
| "task_step l cr now target (Removed n r) sh =
    Some (Finished r, sh\<lparr>lc_chan := (lc_chan sh)((target, n) \<mapsto> r)\<rparr>)"
| "task_step l cr now target (Awaiting n) sh =
    (case lc_chan sh (target, n) of Some r \<Rightarrow> Some (Finished r, sh) | None \<Rightarrow> None)"
| "task_step l cr now target (Finished r) sh = None"

type_synonym ('c, 'k) config = "(nat \<rightharpoonup> string \<times> 'k server_config task) \<times> ('c, 'k server_config) shared"

definition fresh_cache :: "'c \<Rightarrow> signing_ca \<Rightarrow> metrics option \<Rightarrow> ('c, 'k server_config) shared" where
  "fresh_cache c0 ca m =
    \<lparr>lc_lru = c0, lc_inflight = Map.empty, lc_chan = Map.empty, lc_next = 0, lc_ca = ca, lc_metrics = m,
     lc_minted = []\<rparr>"

text \<open>A call that nobody interrupts, as one function.\<close>

definition CertCache_get ::
  "('c, 'k server_config) lru \<Rightarrow> ('p, 'k) crypto \<Rightarrow> int \<Rightarrow> string \<Rightarrow> ('c, 'k server_config) shared \<Rightarrow>
   (tls_error + 'k server_config) \<times> ('c, 'k server_config) shared" where
  "CertCache_get l cr now target sh =
    (case lr_get l target (lc_lru sh) of
       (Some hit, c) \<Rightarrow> (Inr hit, sh\<lparr>lc_lru := c, lc_metrics := map_option (inc_tls_cache True) (lc_metrics sh)\<rparr>)
     | (None, c) \<Rightarrow>
         (let n = lc_next sh;
              missed = sh\<lparr>lc_lru := c, lc_next := n + 1, lc_metrics := map_option (inc_tls_cache False) (lc_metrics sh)\<rparr>;
              (r, ca) = mint_config cr now target (lc_ca sh)
          in case r of
               Inr v \<Rightarrow>
                 (Inr v, missed\<lparr>lc_ca := ca, lc_minted := (target, v) # lc_minted sh, lc_lru := lr_put l target v c,
                           lc_chan := (lc_chan sh)((target, n) \<mapsto> Some v)\<rparr>)
             | Inl _ \<Rightarrow>
                 (Inl (TlsError [Lit ''mint failed for '', Debug target]),
                  missed\<lparr>lc_ca := ca, lc_chan := (lc_chan sh)((target, n) \<mapsto> None)\<rparr>)))"

text \<open>Runs: calls arrive, and any call that can step may step, at any time and with any outcome of the crypto.\<close>

inductive call_step :: "('c, 'k server_config) lru \<Rightarrow> ('p, 'k) crypto set \<Rightarrow> ('c, 'k) config \<Rightarrow> ('c, 'k) config \<Rightarrow> bool"
  for l :: "('c, 'k server_config) lru" and crs :: "('p, 'k) crypto set" where
  step: "ts i = Some (target, t) \<Longrightarrow> cr \<in> crs \<Longrightarrow> task_step l cr now target t sh = Some (t', sh') \<Longrightarrow>
    call_step l crs (ts, sh) (ts(i \<mapsto> (target, t')), sh')"

inductive cache_step :: "('c, 'k server_config) lru \<Rightarrow> ('p, 'k) crypto set \<Rightarrow> ('c, 'k) config \<Rightarrow> ('c, 'k) config \<Rightarrow> bool"
  for l :: "('c, 'k server_config) lru" and crs :: "('p, 'k) crypto set" where
  call: "ts i = None \<Longrightarrow> cache_step l crs (ts, sh) (ts(i \<mapsto> (target, Start)), sh)"
| work: "call_step l crs cf cf' \<Longrightarrow> cache_step l crs cf cf'"

inductive reachable :: "('c, 'k server_config) lru \<Rightarrow> ('p, 'k) crypto set \<Rightarrow> 'c \<Rightarrow> ('c, 'k) config \<Rightarrow> bool"
  for l :: "('c, 'k server_config) lru" and crs :: "('p, 'k) crypto set" and c0 :: 'c where
  init: "reachable l crs c0 (Map.empty, fresh_cache c0 ca m)"
| run: "reachable l crs c0 cf \<Longrightarrow> cache_step l crs cf cf' \<Longrightarrow> reachable l crs c0 cf'"

inductive_cases call_stepE: "call_step l crs cf cf'"

section \<open>The invariant of the cache\<close>

text \<open>The channel a call is the minter of: as long as it is registered, and until it has published.\<close>

fun owns :: "'v task \<Rightarrow> nat option" where
  "owns (Minting n) = Some n"
| "owns (Minted n _) = Some n"
| "owns (Stored n _) = Some n"
| "owns _ = None"

fun holds :: "'v task \<Rightarrow> nat option" where
  "holds (Removed n _) = Some n"
| "holds t = owns t"

text \<open>The configuration a call is carrying.\<close>

fun carries :: "'v task \<Rightarrow> 'v option" where
  "carries (Minted _ r) = r"
| "carries (Stored _ r) = r"
| "carries (Removed _ r) = r"
| "carries (Finished r) = r"
| "carries _ = None"

definition values_ok :: "('c, 'k server_config) lru \<Rightarrow> ('c, 'k) config \<Rightarrow> bool" where
  "values_ok l cf \<longleftrightarrow>
    (\<forall>k v. lr_peek l (lc_lru (snd cf)) k = Some v \<longrightarrow> (k, v) \<in> set (lc_minted (snd cf))) \<and>
    (\<forall>k n v. lc_chan (snd cf) (k, n) = Some (Some v) \<longrightarrow> (k, v) \<in> set (lc_minted (snd cf))) \<and>
    (\<forall>i k t v. fst cf i = Some (k, t) \<longrightarrow> carries t = Some v \<longrightarrow> (k, v) \<in> set (lc_minted (snd cf)))"

definition flight_ok :: "('c, 'k) config \<Rightarrow> bool" where
  "flight_ok cf \<longleftrightarrow>
    (\<forall>i k t n. fst cf i = Some (k, t) \<longrightarrow> owns t = Some n \<longrightarrow> lc_inflight (snd cf) k = Some n) \<and>
    (\<forall>k n. lc_inflight (snd cf) k = Some n \<longrightarrow> (\<exists>i t. fst cf i = Some (k, t) \<and> owns t = Some n)) \<and>
    (\<forall>i k t n. fst cf i = Some (k, t) \<longrightarrow> holds t = Some n \<longrightarrow>
       n < lc_next (snd cf) \<and> lc_chan (snd cf) (k, n) = None) \<and>
    (\<forall>i j k t t' n. fst cf i = Some (k, t) \<longrightarrow> fst cf j = Some (k, t') \<longrightarrow> holds t = Some n \<longrightarrow>
       holds t' = Some n \<longrightarrow> i = j) \<and>
    (\<forall>i k n. fst cf i = Some (k, Awaiting n) \<longrightarrow>
       n < lc_next (snd cf) \<and> (lc_chan (snd cf) (k, n) \<noteq> None \<or> (\<exists>j t. fst cf j = Some (k, t) \<and> holds t = Some n)))"

text \<open>What one step of a call does, by cases.\<close>

lemma task_step_cases:
  assumes "task_step l cr now target t sh = Some (t', sh')"
  obtains
    (hit) v where "t = Start" "t' = Finished (Some v)" "fst (lr_get l target (lc_lru sh)) = Some v"
      "sh' = sh\<lparr>lc_lru := snd (lr_get l target (lc_lru sh)), lc_metrics := map_option (inc_tls_cache True) (lc_metrics sh)\<rparr>"
  | (miss) "t = Start" "t' = Missed" "sh' = sh\<lparr>lc_lru := snd (lr_get l target (lc_lru sh))\<rparr>"
  | (join) n where "t = Missed" "t' = Awaiting n" "lc_inflight sh target = Some n"
      "sh' = sh\<lparr>lc_metrics := map_option (inc_tls_cache False) (lc_metrics sh)\<rparr>"
  | (lead) "t = Missed" "t' = Minting (lc_next sh)" "lc_inflight sh target = None"
      "sh' = sh\<lparr>lc_inflight := (lc_inflight sh)(target \<mapsto> lc_next sh), lc_next := lc_next sh + 1,
         lc_metrics := map_option (inc_tls_cache False) (lc_metrics sh)\<rparr>"
  | (minted) n v ca where "t = Minting n" "t' = Minted n (Some v)"
      "sh' = sh\<lparr>lc_ca := ca, lc_minted := (target, v) # lc_minted sh\<rparr>"
  | (failed) n ca where "t = Minting n" "t' = Minted n None" "sh' = sh\<lparr>lc_ca := ca\<rparr>"
  | (store) n v where "t = Minted n (Some v)" "t' = Stored n (Some v)" "sh' = sh\<lparr>lc_lru := lr_put l target v (lc_lru sh)\<rparr>"
  | (keep) n where "t = Minted n None" "t' = Stored n None" "sh' = sh"
  | (remove) n r where "t = Stored n r" "t' = Removed n r" "sh' = sh\<lparr>lc_inflight := (lc_inflight sh)(target := None)\<rparr>"
  | (publish) n r where "t = Removed n r" "t' = Finished r" "sh' = sh\<lparr>lc_chan := (lc_chan sh)((target, n) \<mapsto> r)\<rparr>"
  | (wake) n r where "t = Awaiting n" "t' = Finished r" "lc_chan sh (target, n) = Some r" "sh' = sh"
proof (cases t)
  case Start
  then show thesis using assms hit miss by (auto split: prod.splits option.splits)
next
  case Missed
  then show thesis using assms join lead by (auto split: option.splits)
next
  case (Minting n)
  then show thesis using assms minted failed by (auto split: prod.splits sum.splits)
next
  case (Minted n r)
  then show thesis using assms store keep by (cases r) auto
next
  case (Awaiting n)
  then obtain r where "t' = Finished r" "lc_chan sh (target, n) = Some r" "sh' = sh"
    using assms by (auto split: option.splits)
  with Awaiting show thesis by (rule wake)
qed (use assms remove publish in auto)

lemma lru_laws_peek:
  assumes "lru_laws l"
  shows "fst (lr_get l k c) = lr_peek l c k" "lr_peek l (snd (lr_get l k c)) k' = lr_peek l c k'"
    "lr_peek l (lr_put l k v c) k = Some v"
  using assms unfolding lru_laws_def by blast+

lemma lru_laws_put:
  "lru_laws l \<Longrightarrow> lr_peek l (lr_put l k v c) k' = Some w \<Longrightarrow> k' = k \<and> w = v \<or> lr_peek l c k' = Some w"
  unfolding lru_laws_def by (metis option.inject)

lemma values_ok_step:
  assumes "lru_laws l" "values_ok l (ts, sh)" "ts i = Some (target, t)"
    and "task_step l cr now target t sh = Some (t', sh')"
  shows "values_ok l (ts(i \<mapsto> (target, t')), sh')"
  using assms(4)
proof (cases rule: task_step_cases)
  case hit
  then show ?thesis using assms(1-3) by (auto simp: values_ok_def lru_laws_peek)
next
  case miss
  then show ?thesis using assms(1-3) by (auto simp: values_ok_def lru_laws_peek)
next
  case (store n v)
  have "(target, v) \<in> set (lc_minted sh)" using assms(2,3) store(1) by (fastforce simp: values_ok_def)
  then show ?thesis using assms(2,3) store by (auto simp: values_ok_def dest: lru_laws_put [OF assms(1)])
qed (use assms(2,3) in \<open>fastforce simp: values_ok_def\<close>)+

lemma kept:
  assumes "ts i = Some (target, t)" "P t' = P t"
  shows "(\<exists>j u. (ts(i \<mapsto> (target, t'))) j = Some (k, u) \<and> P u = Some (n :: nat)) \<longleftrightarrow>
    (\<exists>j u. ts j = Some (k, u) \<and> P u = Some n)"
proof
  assume "\<exists>j u. (ts(i \<mapsto> (target, t'))) j = Some (k, u) \<and> P u = Some n"
  then obtain j u where "(ts(i \<mapsto> (target, t'))) j = Some (k, u)" "P u = Some n" by blast
  then show "\<exists>j u. ts j = Some (k, u) \<and> P u = Some n" using assms by (cases "j = i") auto
next
  assume "\<exists>j u. ts j = Some (k, u) \<and> P u = Some n"
  then obtain j u where ju: "ts j = Some (k, u)" "P u = Some n" by blast
  show "\<exists>j u. (ts(i \<mapsto> (target, t'))) j = Some (k, u) \<and> P u = Some n"
  proof (cases "j = i")
    case True
    then show ?thesis using ju assms by (intro exI [of _ i] exI [of _ t']) simp
  next
    case False
    then show ?thesis using ju by (intro exI [of _ j] exI [of _ u]) simp
  qed
qed

lemma flight_okD:
  assumes "flight_ok (ts, sh)"
  shows "ts i = Some (k, t) \<Longrightarrow> owns t = Some n \<Longrightarrow> lc_inflight sh k = Some n"
    and "lc_inflight sh k = Some n \<Longrightarrow> \<exists>i t. ts i = Some (k, t) \<and> owns t = Some n"
    and "ts i = Some (k, t) \<Longrightarrow> holds t = Some n \<Longrightarrow> n < lc_next sh"
    and "ts i = Some (k, t) \<Longrightarrow> holds t = Some n \<Longrightarrow> lc_chan sh (k, n) = None"
    and "ts i = Some (k, t) \<Longrightarrow> ts j = Some (k, t') \<Longrightarrow> holds t = Some n \<Longrightarrow> holds t' = Some n \<Longrightarrow> i = j"
    and "ts i = Some (k, Awaiting n) \<Longrightarrow> n < lc_next sh"
    and "ts i = Some (k, Awaiting n) \<Longrightarrow> lc_chan sh (k, n) = None \<Longrightarrow> \<exists>j t. ts j = Some (k, t) \<and> holds t = Some n"
proof -
  note ok = assms [unfolded flight_ok_def fst_conv snd_conv]
  note own = ok [THEN conjunct1, rule_format]
  note owner = ok [THEN conjunct2, THEN conjunct1, rule_format]
  note holder = ok [THEN conjunct2, THEN conjunct2, THEN conjunct1, rule_format]
  note one = ok [THEN conjunct2, THEN conjunct2, THEN conjunct2, THEN conjunct1, rule_format]
  note waits = ok [THEN conjunct2, THEN conjunct2, THEN conjunct2, THEN conjunct2, rule_format]
  show "ts i = Some (k, t) \<Longrightarrow> owns t = Some n \<Longrightarrow> lc_inflight sh k = Some n" by (rule own)
  show "lc_inflight sh k = Some n \<Longrightarrow> \<exists>i t. ts i = Some (k, t) \<and> owns t = Some n" by (rule owner)
  show "ts i = Some (k, t) \<Longrightarrow> holds t = Some n \<Longrightarrow> n < lc_next sh"
    "ts i = Some (k, t) \<Longrightarrow> holds t = Some n \<Longrightarrow> lc_chan sh (k, n) = None"
    using holder by blast+
  show "ts i = Some (k, t) \<Longrightarrow> ts j = Some (k, t') \<Longrightarrow> holds t = Some n \<Longrightarrow> holds t' = Some n \<Longrightarrow> i = j"
    by (rule one)
  show "ts i = Some (k, Awaiting n) \<Longrightarrow> n < lc_next sh"
    "ts i = Some (k, Awaiting n) \<Longrightarrow> lc_chan sh (k, n) = None \<Longrightarrow> \<exists>j t. ts j = Some (k, t) \<and> holds t = Some n"
    using waits by blast+
qed

lemma flight_okI:
  assumes "\<And>i k t n. ts i = Some (k, t) \<Longrightarrow> owns t = Some n \<Longrightarrow> lc_inflight sh k = Some n"
    and "\<And>k n. lc_inflight sh k = Some n \<Longrightarrow> \<exists>i t. ts i = Some (k, t) \<and> owns t = Some n"
    and "\<And>i k t n. ts i = Some (k, t) \<Longrightarrow> holds t = Some n \<Longrightarrow> n < lc_next sh \<and> lc_chan sh (k, n) = None"
    and "\<And>i j k t t' n. ts i = Some (k, t) \<Longrightarrow> ts j = Some (k, t') \<Longrightarrow> holds t = Some n \<Longrightarrow> holds t' = Some n \<Longrightarrow> i = j"
    and "\<And>i k n. ts i = Some (k, Awaiting n) \<Longrightarrow> n < lc_next sh \<and>
      (lc_chan sh (k, n) \<noteq> None \<or> (\<exists>j t. ts j = Some (k, t) \<and> holds t = Some n))"
  shows "flight_ok (ts, sh)"
  unfolding flight_ok_def fst_conv snd_conv by (intro conjI allI impI) 
      (erule (1) assms(1) | erule assms(2) | erule (1) assms(3) [THEN conjunct1] | erule (1) assms(3) [THEN conjunct2]
       | erule (3) assms(4) | erule assms(5) [THEN conjunct1] | erule assms(5) [THEN conjunct2])+

lemma owns_holds: "owns t = Some n \<Longrightarrow> holds t = Some n"
  by (cases t) auto

lemma flight_keep:
  assumes ok: "flight_ok (ts, sh)" and t: "ts i = Some (target, t)"
    and same: "owns t' = owns t" "holds t' = holds t"
    and shared: "lc_inflight sh' = lc_inflight sh" "lc_chan sh' = lc_chan sh" "lc_next sh' = lc_next sh"
    and waits: "\<And>n. t' = Awaiting n \<Longrightarrow> lc_inflight sh target = Some n"
  shows "flight_ok (ts(i \<mapsto> (target, t')), sh')"
proof (rule flight_okI)
  fix j k u n
  assume u: "(ts(i \<mapsto> (target, t'))) j = Some (k, u)"
  show "owns u = Some n \<Longrightarrow> lc_inflight sh' k = Some n"
    using u t same shared flight_okD(1) [OF ok] by (cases "j = i") (simp_all, metis)
  show "holds u = Some n \<Longrightarrow> n < lc_next sh' \<and> lc_chan sh' (k, n) = None"
    using u t same shared flight_okD(3,4) [OF ok] by (cases "j = i") auto
next
  fix k n
  assume "lc_inflight sh' k = Some n"
  then show "\<exists>j u. (ts(i \<mapsto> (target, t'))) j = Some (k, u) \<and> owns u = Some n"
    unfolding kept [of ts i target t owns, OF t same(1)] using flight_okD(2) [OF ok] shared by simp
next
  fix j j' k u u' n
  assume *: "(ts(i \<mapsto> (target, t'))) j = Some (k, u)" "(ts(i \<mapsto> (target, t'))) j' = Some (k, u')"
    "holds u = Some n" "holds u' = Some n"
  have was: "\<exists>v. ts m = Some (k, v) \<and> holds v = Some n"
    if "(ts(i \<mapsto> (target, t'))) m = Some (k, w)" "holds w = Some n" for m w
    using that t same by (cases "m = i") auto
  show "j = j'" using was [OF *(1,3)] was [OF *(2,4)] flight_okD(5) [OF ok] by blast
next
  fix j k n
  assume "(ts(i \<mapsto> (target, t'))) j = Some (k, Awaiting n)"
  then consider "k = target" "t' = Awaiting n" | "ts j = Some (k, Awaiting n)" by (cases "j = i") auto
  then show "n < lc_next sh' \<and>
      (lc_chan sh' (k, n) \<noteq> None \<or> (\<exists>j u. (ts(i \<mapsto> (target, t'))) j = Some (k, u) \<and> holds u = Some n))"
    unfolding kept [of ts i target t holds, OF t same(2)]
  proof cases
    case 1
    then obtain j u where "ts j = Some (k, u)" "owns u = Some n" using waits flight_okD(2) [OF ok] by blast
    then show "n < lc_next sh' \<and> (lc_chan sh' (k, n) \<noteq> None \<or> (\<exists>j u. ts j = Some (k, u) \<and> holds u = Some n))"
      using owns_holds flight_okD(3) [OF ok] shared by metis
  next
    case 2
    then show "n < lc_next sh' \<and> (lc_chan sh' (k, n) \<noteq> None \<or> (\<exists>j u. ts j = Some (k, u) \<and> holds u = Some n))"
      using flight_okD(6,7) [OF ok] shared by metis
  qed
qed

text \<open>The three steps that change who mints: registering, deregistering and publishing.\<close>

lemma flight_lead:
  assumes ok: "flight_ok (ts, sh)" and t: "ts i = Some (target, Missed)" and none: "lc_inflight sh target = None"
    and sh': "lc_inflight sh' = (lc_inflight sh)(target \<mapsto> lc_next sh)" "lc_next sh' = lc_next sh + 1" "lc_chan sh' = lc_chan sh"
    and chan: "lc_chan sh (target, lc_next sh) = None"
  shows "flight_ok (ts(i \<mapsto> (target, Minting (lc_next sh))), sh')"
proof (rule flight_okI)
  fix j k u n
  assume u: "(ts(i \<mapsto> (target, Minting (lc_next sh)))) j = Some (k, u)"
  show "owns u = Some n \<Longrightarrow> lc_inflight sh' k = Some n"
    using u none sh' flight_okD(1) [OF ok, of j k u n] by (auto split: if_splits)
  show "holds u = Some n \<Longrightarrow> n < lc_next sh' \<and> lc_chan sh' (k, n) = None"
    using u sh' chan flight_okD(3,4) [OF ok, of j k u n] by (auto split: if_splits)
next
  fix k n
  assume k: "lc_inflight sh' k = Some n"
  show "\<exists>j u. (ts(i \<mapsto> (target, Minting (lc_next sh)))) j = Some (k, u) \<and> owns u = Some n"
  proof (cases "k = target")
    case True
    then show ?thesis using k sh' by (intro exI [of _ i]) simp
  next
    case False
    then obtain j u where "ts j = Some (k, u)" "owns u = Some n" using k sh' flight_okD(2) [OF ok, of k n] by auto
    then show ?thesis using False t by (intro exI [of _ j] exI [of _ u]) auto
  qed
next
  fix j j' k u u' n
  assume *: "(ts(i \<mapsto> (target, Minting (lc_next sh)))) j = Some (k, u)"
    "(ts(i \<mapsto> (target, Minting (lc_next sh)))) j' = Some (k, u')" "holds u = Some n" "holds u' = Some n"
  have "m \<noteq> i \<Longrightarrow> ts m = Some (k, v) \<Longrightarrow> holds v = Some n \<Longrightarrow> n < lc_next sh" for m v
    by (rule flight_okD(3) [OF ok])
  then show "j = j'" using * flight_okD(5) [OF ok, of j k u j' u' n] by (cases "j = i"; cases "j' = i") auto
next
  fix j k n
  assume "(ts(i \<mapsto> (target, Minting (lc_next sh)))) j = Some (k, Awaiting n)"
  then have j: "ts j = Some (k, Awaiting n)" by (auto split: if_splits)
  show "n < lc_next sh' \<and> (lc_chan sh' (k, n) \<noteq> None \<or>
      (\<exists>j u. (ts(i \<mapsto> (target, Minting (lc_next sh)))) j = Some (k, u) \<and> holds u = Some n))"
  proof (cases "lc_chan sh (k, n)")
    case None
    then obtain m u where "ts m = Some (k, u)" "holds u = Some n" using flight_okD(7) [OF ok j] by blast
    then show ?thesis using t flight_okD(6) [OF ok j] sh' by (intro conjI disjI2 exI [of _ m] exI [of _ u]) auto
  qed (use flight_okD(6) [OF ok j] sh' in auto)
qed

lemma flight_remove:
  assumes ok: "flight_ok (ts, sh)" and t: "ts i = Some (target, Stored m r)"
  shows "flight_ok (ts(i \<mapsto> (target, Removed m r)), sh\<lparr>lc_inflight := (lc_inflight sh)(target := None)\<rparr>)"
proof (rule flight_okI)
  have only: "owns u \<noteq> Some n" if "j \<noteq> i" "ts j = Some (target, u)" for j u n
  proof
    assume "owns u = Some n"
    then have "n = m" "holds u = Some m"
      using flight_okD(1) [OF ok that(2)] flight_okD(1) [OF ok t] owns_holds by auto
    then show False using flight_okD(5) [OF ok that(2) t, of m] that(1) by simp
  qed
  fix j k u n
  assume u: "(ts(i \<mapsto> (target, Removed m r))) j = Some (k, u)"
  show "owns u = Some n \<Longrightarrow> lc_inflight (sh\<lparr>lc_inflight := (lc_inflight sh)(target := None)\<rparr>) k = Some n"
    using u only [of j u n] flight_okD(1) [OF ok, of j k u n] by (auto split: if_splits)
  show "holds u = Some n \<Longrightarrow> n < lc_next (sh\<lparr>lc_inflight := (lc_inflight sh)(target := None)\<rparr>) \<and>
      lc_chan (sh\<lparr>lc_inflight := (lc_inflight sh)(target := None)\<rparr>) (k, n) = None"
    using u flight_okD(3,4) [OF ok t, of m] flight_okD(3,4) [OF ok, of j k u n] by (auto split: if_splits)
next
  fix k n
  assume "lc_inflight (sh\<lparr>lc_inflight := (lc_inflight sh)(target := None)\<rparr>) k = Some n"
  then have k: "k \<noteq> target" "lc_inflight sh k = Some n" by (auto split: if_splits)
  then obtain j u where "ts j = Some (k, u)" "owns u = Some n" using flight_okD(2) [OF ok, of k n] by blast
  then show "\<exists>j u. (ts(i \<mapsto> (target, Removed m r))) j = Some (k, u) \<and> owns u = Some n"
    using k t by (intro exI [of _ j] exI [of _ u]) auto
next
  fix j j' k u u' n
  assume *: "(ts(i \<mapsto> (target, Removed m r))) j = Some (k, u)" "(ts(i \<mapsto> (target, Removed m r))) j' = Some (k, u')"
    "holds u = Some n" "holds u' = Some n"
  have was: "\<exists>v. ts p = Some (k, v) \<and> holds v = Some n"
    if "(ts(i \<mapsto> (target, Removed m r))) p = Some (k, w)" "holds w = Some n" for p w
    using that t by (cases "p = i") auto
  show "j = j'" using was [OF *(1,3)] was [OF *(2,4)] flight_okD(5) [OF ok] by blast
next
  fix j k n
  assume "(ts(i \<mapsto> (target, Removed m r))) j = Some (k, Awaiting n)"
  then have j: "ts j = Some (k, Awaiting n)" by (auto split: if_splits)
  have same: "holds (Removed m r) = holds (Stored m r)" by simp
  show "n < lc_next (sh\<lparr>lc_inflight := (lc_inflight sh)(target := None)\<rparr>) \<and>
      (lc_chan (sh\<lparr>lc_inflight := (lc_inflight sh)(target := None)\<rparr>) (k, n) \<noteq> None \<or>
       (\<exists>j u. (ts(i \<mapsto> (target, Removed m r))) j = Some (k, u) \<and> holds u = Some n))"
    unfolding kept [of ts i target "Stored m r" holds, OF t same]
    using flight_okD(6,7) [OF ok j] by auto
qed

lemma flight_publish:
  assumes ok: "flight_ok (ts, sh)" and t: "ts i = Some (target, Removed m r)"
  shows "flight_ok (ts(i \<mapsto> (target, Finished r)), sh\<lparr>lc_chan := (lc_chan sh)((target, m) \<mapsto> r)\<rparr>)"
proof (rule flight_okI)
  fix j k u n
  assume u: "(ts(i \<mapsto> (target, Finished r))) j = Some (k, u)"
  show "owns u = Some n \<Longrightarrow> lc_inflight (sh\<lparr>lc_chan := (lc_chan sh)((target, m) \<mapsto> r)\<rparr>) k = Some n"
    using u flight_okD(1) [OF ok, of j k u n] by (auto split: if_splits)
  show "holds u = Some n \<Longrightarrow> n < lc_next (sh\<lparr>lc_chan := (lc_chan sh)((target, m) \<mapsto> r)\<rparr>) \<and>
      lc_chan (sh\<lparr>lc_chan := (lc_chan sh)((target, m) \<mapsto> r)\<rparr>) (k, n) = None"
    using u t flight_okD(5) [OF ok, of j k u i "Removed m r" n] flight_okD(3,4) [OF ok, of j k u n]
    by (auto split: if_splits)
next
  fix k n
  assume "lc_inflight (sh\<lparr>lc_chan := (lc_chan sh)((target, m) \<mapsto> r)\<rparr>) k = Some n"
  moreover have same: "owns (Finished r) = owns (Removed m r)" by simp
  ultimately show "\<exists>j u. (ts(i \<mapsto> (target, Finished r))) j = Some (k, u) \<and> owns u = Some n"
    unfolding kept [of ts i target "Removed m r" owns, OF t same]
    using flight_okD(2) [OF ok, of k n] by simp
next
  fix j j' k u u' n
  assume "(ts(i \<mapsto> (target, Finished r))) j = Some (k, u)" "(ts(i \<mapsto> (target, Finished r))) j' = Some (k, u')"
    "holds u = Some n" "holds u' = Some n"
  then show "j = j'" using flight_okD(5) [OF ok, of j k u j' u' n] by (auto split: if_splits)
next
  fix j k n
  assume "(ts(i \<mapsto> (target, Finished r))) j = Some (k, Awaiting n)"
  then have j: "ts j = Some (k, Awaiting n)" by (auto split: if_splits)
  show "n < lc_next (sh\<lparr>lc_chan := (lc_chan sh)((target, m) \<mapsto> r)\<rparr>) \<and>
      (lc_chan (sh\<lparr>lc_chan := (lc_chan sh)((target, m) \<mapsto> r)\<rparr>) (k, n) \<noteq> None \<or>
       (\<exists>j u. (ts(i \<mapsto> (target, Finished r))) j = Some (k, u) \<and> holds u = Some n))"
  proof (cases "lc_chan sh (k, n) = None \<and> (k, n) \<noteq> (target, m)")
    case True
    then obtain j u where "ts j = Some (k, u)" "holds u = Some n" using flight_okD(7) [OF ok j] by blast
    then show ?thesis
      using True t flight_okD(6) [OF ok j] by (intro conjI disjI2 exI [of _ j] exI [of _ u]) auto
  qed (use flight_okD(6) [OF ok j] in auto)
qed

definition chan_ok :: "('c, 'v) shared \<Rightarrow> bool" where
  "chan_ok sh \<longleftrightarrow> (\<forall>k n. lc_next sh \<le> n \<longrightarrow> lc_chan sh (k, n) = None)"

lemma flight_ok_step:
  assumes ok: "flight_ok (ts, sh)" and chan: "chan_ok sh" and t: "ts i = Some (target, t)"
    and step: "task_step l cr now target t sh = Some (t', sh')"
  shows "flight_ok (ts(i \<mapsto> (target, t')), sh') \<and> chan_ok sh'"
  using step
proof (cases rule: task_step_cases)
  case lead
  have "flight_ok (ts(i \<mapsto> (target, t')), sh')"
    unfolding lead(2) by (rule flight_lead [OF ok]) (use t chan lead in \<open>simp_all add: chan_ok_def\<close>)
  then show ?thesis using chan lead by (simp add: chan_ok_def)
next
  case (remove m r)
  then show ?thesis using flight_remove [OF ok, of i target m r] t chan by (simp add: chan_ok_def)
next
  case (publish m r)
  then have "m < lc_next sh" using flight_okD(3) [OF ok t] by simp
  then show ?thesis using flight_publish [OF ok, of i target m r] t chan publish by (auto simp: chan_ok_def)
qed (use flight_keep [OF ok t, of t' sh'] chan in \<open>auto simp: chan_ok_def\<close>)

text \<open>A new call changes nothing of the invariants.\<close>

lemma flight_ok_call:
  assumes ok: "flight_ok (ts, sh)" and new: "ts i = None"
  shows "flight_ok (ts(i \<mapsto> (target, Start)), sh)"
proof -
  have keep: "\<exists>j u. (ts(i \<mapsto> (target, Start))) j = Some (k, u) \<and> P u" if "\<exists>j u. ts j = Some (k, u) \<and> P u" for k P
  proof -
    from that obtain j u where "ts j = Some (k, u)" "P u" by blast
    then show ?thesis using new by (intro exI [of _ j] exI [of _ u]) auto
  qed
  show ?thesis
  proof (rule flight_okI)
    fix k n
    assume "lc_inflight sh k = Some n"
    then show "\<exists>j u. (ts(i \<mapsto> (target, Start))) j = Some (k, u) \<and> owns u = Some n"
      by (intro keep flight_okD(2) [OF ok])
  next
    fix j k n
    assume "(ts(i \<mapsto> (target, Start))) j = Some (k, Awaiting n)"
    then have j: "ts j = Some (k, Awaiting n)" by (auto split: if_splits)
    show "n < lc_next sh \<and> (lc_chan sh (k, n) \<noteq> None \<or>
        (\<exists>j u. (ts(i \<mapsto> (target, Start))) j = Some (k, u) \<and> holds u = Some n))"
      using flight_okD(6) [OF ok j] flight_okD(7) [OF ok j] keep [of k "\<lambda>u. holds u = Some n"] by blast
  qed (use flight_okD(1,3,4,5) [OF ok] in \<open>auto split: if_splits\<close>)
qed

lemma reachable_flight:
  "reachable l crs c0 cf \<Longrightarrow> flight_ok cf \<and> chan_ok (snd cf) \<and> finite (dom (fst cf))"
proof (induction rule: reachable.induct)
  case (init ca m)
  show ?case by (simp add: flight_ok_def chan_ok_def fresh_cache_def)
next
  case (run cf cf')
  from run.hyps(2) show ?case
  proof (cases rule: cache_step.cases)
    case (call ts i sh target)
    then show ?thesis using run.IH flight_ok_call [of ts sh i target] by (simp del: fun_upd_apply)
  next
    case work
    then show ?thesis
    proof (cases rule: call_step.cases)
      case (step ts i target t cr now sh t' sh')
      then show ?thesis
        using run.IH flight_ok_step [of ts sh i target t l cr now t' sh'] by (simp del: fun_upd_apply)
    qed
  qed
qed

lemma reachable_values:
  assumes "lru_laws l" "\<And>k. lr_peek l c0 k = None"
  shows "reachable l crs c0 cf \<Longrightarrow> values_ok l cf"
proof (induction rule: reachable.induct)
  case (init ca m)
  show ?case using assms(2) by (simp add: values_ok_def fresh_cache_def)
next
  case (run cf cf')
  from run.hyps(2) show ?case
  proof (cases rule: cache_step.cases)
    case (call ts i sh target)
    then show ?thesis using run.IH by (auto simp: values_ok_def)
  next
    case work
    then show ?thesis using run.IH values_ok_step [OF assms(1)] by (auto elim!: call_stepE)
  qed
qed

text \<open>Every configuration in the history comes from a mint for its target, under the one CA.\<close>

definition minted_for :: "('p, 'k) crypto set \<Rightarrow> bytes \<Rightarrow> string \<Rightarrow> 'k server_config \<Rightarrow> bool" where
  "minted_for crs der target v \<longleftrightarrow>
    (\<exists>cr\<in>crs. \<exists>params key san leaf.
       cr_sign cr params key = Inr leaf \<and> cp_common_name params = target \<and> cp_sans params = [san] \<and>
       san = (case parse_ip target of Some ip \<Rightarrow> San_Ip ip | None \<Rightarrow> San_Dns target) \<and> \<not> cp_is_ca params \<and>
       cl_chain (sc_leaf v) = [leaf, der] \<and> cr_key_der cr key = Inr (cl_key (sc_leaf v)) \<and>
       cr_single_cert cr (cl_chain (sc_leaf v)) (cl_key (sc_leaf v)) = None)"

lemma mint_ca: "ca_der (snd (mint cr now target ca)) = ca_der ca"
  by (simp add: mint_def Let_def split: sum.splits prod.splits)

lemma mint_config_ca: "mint_config cr now target ca = (r, ca') \<Longrightarrow> ca_der ca' = ca_der ca"
  using mint_ca [of cr now target ca] by (auto simp: mint_config_def split: prod.splits)

lemma mint_config_minted:
  assumes "mint_config cr now target ca = (Inr v, ca')" "cr \<in> crs"
  shows "minted_for crs (ca_der ca) target v"
proof -
  obtain leaf where leaf: "mint cr now target ca = (Inr leaf, ca')" "server_config cr leaf = Inr v"
    using assms(1) by (auto simp: mint_config_def result_simps split: prod.splits)
  from leaf(1) obtain san serial key der where
    "san_of cr target = Inr san" "cr_sign cr (leaf_params ca target san serial now) key = Inr der"
    "cl_chain leaf = [der, ca_der ca]" "cr_key_der cr key = Inr (cl_key leaf)"
    by (auto simp: mint_def Let_def result_simps split: sum.splits prod.splits)
  moreover have "sc_leaf v = leaf" "cr_single_cert cr (cl_chain leaf) (cl_key leaf) = None"
    using leaf(2) by (auto simp: server_config_def split: option.splits)
  ultimately show ?thesis
    unfolding minted_for_def using assms(2)
    by (intro bexI [of _ cr] exI [of _ "leaf_params ca target san serial now"] exI [of _ key] exI [of _ san] exI [of _ der])
      (auto simp: leaf_params_def san_of_def split: option.splits if_splits)
qed

lemma call_step_minted:
  assumes "call_step l crs cf cf'"
    and "\<forall>(k, v) \<in> set (lc_minted (snd cf)). minted_for crs (ca_der (lc_ca (snd cf))) k v"
  shows "\<forall>(k, v) \<in> set (lc_minted (snd cf')). minted_for crs (ca_der (lc_ca (snd cf'))) k v"
  using assms(1)
proof (cases rule: call_step.cases)
  case (step ts i target t cr now sh t' sh')
  show ?thesis
  proof (cases "\<exists>n. t = Minting n")
    case True
    obtain r ca' where r: "mint_config cr now target (lc_ca sh) = (r, ca')" by force
    have "ca_der ca' = ca_der (lc_ca sh)" using r by (rule mint_config_ca)
    then show ?thesis using step assms(2) True r mint_config_minted [of cr now target "lc_ca sh" _ ca' crs]
      by (cases r) fastforce+
  next
    case False
    have "lc_ca sh' = lc_ca sh \<and> lc_minted sh' = lc_minted sh"
      using step(5) False by (cases rule: task_step_cases) auto
    then show ?thesis using assms(2) step by simp
  qed
qed

lemma reachable_minted:
  "reachable l crs c0 cf \<Longrightarrow> \<forall>(k, v) \<in> set (lc_minted (snd cf)). minted_for crs (ca_der (lc_ca (snd cf))) k v"
proof (induction rule: reachable.induct)
  case (run cf cf')
  from run.hyps(2) show ?case
  proof (cases rule: cache_step.cases)
    case (call ts i sh target)
    then show ?thesis using run.IH by simp
  next
    case work
    then show ?thesis using run.IH by (rule call_step_minted)
  qed
qed (simp add: fresh_cache_def)

subsection \<open>Progress\<close>

text \<open>How many steps a call still has at most.\<close>

fun rank :: "'v task \<Rightarrow> nat" where
  "rank Start = 6"
| "rank Missed = 5"
| "rank (Minting _) = 4"
| "rank (Minted _ _) = 3"
| "rank (Stored _ _) = 2"
| "rank (Removed _ _) = 1"
| "rank (Awaiting _) = 1"
| "rank (Finished _) = 0"

definition potential :: "('c, 'k) config \<Rightarrow> nat" where
  "potential cf = (\<Sum>i \<in> dom (fst cf). rank (snd (the (fst cf i))))"

lemma rank_step: "task_step l cr now target t sh = Some (t', sh') \<Longrightarrow> rank t' < rank t"
  by (erule task_step_cases) simp_all

lemma rank_le: "rank t \<le> 6"
  by (cases t) simp_all

lemma call_step_potential:
  assumes "call_step l crs cf cf'" "finite (dom (fst cf))"
  shows "potential cf' < potential cf \<and> dom (fst cf') = dom (fst cf)"
  using assms(1)
proof (cases rule: call_step.cases)
  case (step ts i target t cr now sh t' sh')
  have i: "i \<in> dom ts" using step by auto
  have dom: "dom (ts(i \<mapsto> (target, t'))) = dom ts" using i by auto
  have "(\<Sum>j \<in> dom ts - {i}. rank (snd (the ((ts(i \<mapsto> (target, t'))) j)))) = (\<Sum>j \<in> dom ts - {i}. rank (snd (the (ts j))))"
    by (rule sum.cong) auto
  then show ?thesis
    using step rank_step [OF step(5)] assms(2) i dom
    by (simp add: potential_def sum.remove [of "dom ts" i] del: fun_upd_apply) simp
qed

lemma call_steps_potential:
  "(call_step l crs ^^ n) cf cf' \<Longrightarrow> finite (dom (fst cf)) \<Longrightarrow> n + potential cf' \<le> potential cf"
proof (induction n arbitrary: cf')
  case (Suc n)
  then obtain mid where mid: "(call_step l crs ^^ n) cf mid" "call_step l crs mid cf'" by auto
  then have "dom (fst mid) = dom (fst cf)" using Suc.prems(2)
  proof (induction n arbitrary: mid cf')
    case (Suc n)
    then show ?case using call_step_potential by (fastforce elim!: relcompp.cases)
  qed simp
  then show ?case using Suc mid call_step_potential [of l crs mid cf'] by fastforce
qed simp

lemma potential_le: "finite (dom (fst cf)) \<Longrightarrow> potential cf \<le> 6 * card (dom (fst cf))"
proof -
  have "(\<Sum>i \<in> dom (fst cf). rank (snd (the (fst cf i)))) \<le> of_nat (card (dom (fst cf))) * 6"
    by (rule sum_bounded_above) (rule rank_le)
  then show ?thesis by (simp add: potential_def)
qed

text \<open>A call that cannot step is over, or waits for a call that can.\<close>

lemma task_step_enabled: "(\<forall>n. t \<noteq> Awaiting n) \<Longrightarrow> (\<forall>r. t \<noteq> Finished r) \<Longrightarrow> \<exists>u. task_step l cr now target t sh = Some u"
  by (cases t) (auto split: prod.splits option.splits sum.splits)

lemma enabled_call_step:
  "ts i = Some (k, t) \<Longrightarrow> cr \<in> crs \<Longrightarrow> task_step l cr 0 k t sh = Some u \<Longrightarrow> \<exists>cf'. call_step l crs (ts, sh) cf'"
  by (cases u) (blast intro: call_step.step)

lemma stuck_finished:
  assumes ok: "flight_ok (ts, sh)" and cr: "cr \<in> crs" and stuck: "\<nexists>cf'. call_step l crs (ts, sh) cf'"
    and t: "ts i = Some (k, t)"
  shows "\<exists>r. t = Finished r"
proof (rule ccontr)
  assume "\<nexists>r. t = Finished r"
  then have over: "\<forall>r. t \<noteq> Finished r" by simp
  have blocked: "task_step l cr 0 k t sh \<noteq> Some w" for w
    using enabled_call_step [of ts i k t cr crs l sh, OF t cr] stuck by blast
  have "\<exists>n. t = Awaiting n"
    using task_step_enabled [OF _ over, of l cr 0 k sh] blocked by auto
  then obtain n where "t = Awaiting n" ..
  then have n: "t = Awaiting n" "lc_chan sh (k, n) = None" using blocked by (simp, cases "lc_chan sh (k, n)") auto
  then obtain j u where j: "ts j = Some (k, u)" "holds u = Some n" using flight_okD(7) [OF ok, of i k n] t by auto
  then have "\<exists>w. task_step l cr 0 k u sh = Some w" by (intro task_step_enabled) auto
  then show False using enabled_call_step [of ts j k u cr crs l sh, OF j(1) cr] stuck by blast
qed

subsection \<open>A cache to run\<close>

text \<open>The LRU cache as a list, most recent first, and the runs of a schedule: \<open>Inl\<close> starts a call, \<open>Inr\<close> steps one.\<close>

definition list_lru :: "nat \<Rightarrow> ((string \<times> 'v) list, 'v) lru" where
  "list_lru capacity =
    \<lparr>lr_get = \<lambda>k c. (map_of c k, case map_of c k of None \<Rightarrow> c | Some v \<Rightarrow> (k, v) # filter (\<lambda>(k', _). k' \<noteq> k) c),
     lr_put = \<lambda>k v c. (k, v) # take (capacity - 1) (filter (\<lambda>(k', _). k' \<noteq> k) c),
     lr_peek = map_of\<rparr>"

lemma map_of_take: "map_of (take n xs) k = Some v \<Longrightarrow> map_of xs k = Some v"
  by (induction xs arbitrary: n) (auto simp: take_Cons split: nat.splits if_splits)

lemma map_of_others: "k' \<noteq> k \<Longrightarrow> map_of (filter (\<lambda>(k', _). k' \<noteq> k) c) k' = map_of c k'"
  by (induction c) auto

lemma list_lru_laws: "lru_laws (list_lru capacity)"
  unfolding lru_laws_def list_lru_def
  by (auto simp: map_of_others split: option.splits if_splits dest!: map_of_take)

fun run_schedule ::
  "('c, 'k server_config) lru \<Rightarrow> ('p, 'k) crypto \<Rightarrow> int \<Rightarrow> ((nat \<times> string) + nat) list \<Rightarrow> ('c, 'k) config \<Rightarrow> ('c, 'k) config option" where
  "run_schedule l cr now [] cf = Some cf"
| "run_schedule l cr now (Inl (i, target) # es) (ts, sh) =
    (if ts i = None then run_schedule l cr now es (ts(i \<mapsto> (target, Start)), sh) else None)"
| "run_schedule l cr now (Inr i # es) (ts, sh) =
    (case ts i of
       None \<Rightarrow> None
     | Some (target, t) \<Rightarrow>
         (case task_step l cr now target t sh of
            None \<Rightarrow> None
          | Some (t', sh') \<Rightarrow> run_schedule l cr now es (ts(i \<mapsto> (target, t')), sh')))"

lemma run_schedule_reachable:
  "run_schedule l cr now es cf = Some cf' \<Longrightarrow> reachable l crs c0 cf \<Longrightarrow> cr \<in> crs \<Longrightarrow> reachable l crs c0 cf'"
proof (induction l cr now es cf rule: run_schedule.induct)
  case (2 l cr now i target es ts sh)
  then show ?case by (auto split: if_splits intro: reachable.run cache_step.call simp del: fun_upd_apply)
next
  case (3 l cr now i es ts sh)
  then obtain target t t' sh' where step: "ts i = Some (target, t)" "task_step l cr now target t sh = Some (t', sh')"
    "run_schedule l cr now es (ts(i \<mapsto> (target, t')), sh') = Some cf'"
    by (auto split: option.splits prod.splits simp del: fun_upd_apply)
  have "reachable l crs c0 (ts(i \<mapsto> (target, t')), sh')"
    using 3(3) cache_step.work [OF call_step.step [of ts i target t cr crs, OF step(1) 3(4) step(2)]]
    by (rule reachable.run)
  then show ?case using 3 step by (simp del: fun_upd_apply)
qed simp

lemma run_schedule_steps:
  "run_schedule l cr now (map Inr is) cf = Some cf' \<Longrightarrow> cr \<in> crs \<Longrightarrow> (call_step l crs ^^ length is) cf cf'"
proof (induction "is" arbitrary: cf)
  case (Cons i "is")
  obtain ts sh where cf: "cf = (ts, sh)" by force
  from Cons.prems(1) cf obtain target t t' sh' where step: "ts i = Some (target, t)"
    "task_step l cr now target t sh = Some (t', sh')"
    "run_schedule l cr now (map Inr is) (ts(i \<mapsto> (target, t')), sh') = Some cf'"
    by (auto split: option.splits prod.splits simp del: fun_upd_apply)
  have "call_step l crs cf (ts(i \<mapsto> (target, t')), sh')"
    unfolding cf using step(1) Cons.prems(2) step(2) by (rule call_step.step)
  then show ?case using Cons.IH [OF step(3) Cons.prems(2)] relpowp_Suc_I2 by fastforce
qed simp

text \<open>The function is what the steps of an uninterrupted call do.\<close>

lemma CertCache_get_runs:
  assumes "lc_inflight sh target = None"
  shows "\<exists>n r. run_schedule l cr now (Inl (0, target) # replicate n (Inr 0)) (Map.empty, sh) =
      Some ([0 \<mapsto> (target, Finished r)], snd (CertCache_get l cr now target sh)) \<and>
    (case fst (CertCache_get l cr now target sh) of Inr v \<Rightarrow> r = Some v | Inl _ \<Rightarrow> r = None)"
proof -
  have off: "(lc_inflight sh)(target := None) = lc_inflight sh" using assms by auto
  obtain hit c where get: "lr_get l target (lc_lru sh) = (hit, c)" by force
  obtain r ca where r: "mint_config cr now target (lc_ca sh) = (r, ca)" by force
  show ?thesis
  proof (cases hit)
    case (Some v)
    then show ?thesis using get by (intro exI [of _ 1] exI [of _ hit]) (simp add: CertCache_get_def)
  next
    case None
    then show ?thesis
      using get r off assms
      by (intro exI [of _ 6] exI [of _ "case r of Inr v \<Rightarrow> Some v | Inl _ \<Rightarrow> None"])
        (cases r, auto simp: CertCache_get_def eval_nat_numeral Let_def)
  qed
qed

text \<open>Serial numbers: the generator is injective, so no serial comes back before the seed does.\<close>

lemma xor_zero: "a XOR b = 0 \<Longrightarrow> b = (a :: 64 word)"
  by (metis xor_self_eq bit.xor_left_self xor.right_neutral)

lemma shift_xor_cancel:
  fixes a b :: "64 word"
  assumes "a XOR push_bit k a = b XOR push_bit k b" "0 < k"
  shows "a = b"
proof -
  define d where "d = a XOR b"
  have "d XOR push_bit k d = (a XOR push_bit k a) XOR (b XOR push_bit k b)"
    by (simp add: d_def push_bit_xor ac_simps)
  then have "d XOR push_bit k d = 0" using assms(1) by simp
  then have fix_d: "push_bit k d = d" by (rule xor_zero)
  have "push_bit (n * k) d = d" for n
    by (induction n) (simp_all add: push_bit_push_bit [symmetric] fix_d add.commute)
  from this [of 64] have "d = push_bit (64 * k) d" by simp
  also have "\<dots> = 0" using assms(2) by (intro bit_word_eqI) (simp add: bit_push_bit_iff)
  finally show ?thesis unfolding d_def by (rule xor_zero [symmetric])
qed

lemma shift_right_xor_cancel:
  fixes a b :: "64 word"
  assumes "a XOR drop_bit k a = b XOR drop_bit k b" "0 < k"
  shows "a = b"
proof -
  define d where "d = a XOR b"
  have "d XOR drop_bit k d = (a XOR drop_bit k a) XOR (b XOR drop_bit k b)"
    by (simp add: d_def drop_bit_xor ac_simps)
  then have "d XOR drop_bit k d = 0" using assms(1) by simp
  then have fix_d: "drop_bit k d = d" by (rule xor_zero)
  have "drop_bit (n * k) d = d" for n
    by (induction n) (simp_all add: drop_bit_drop_bit [symmetric] fix_d add.commute)
  from this [of 64] have "d = drop_bit (64 * k) d" by simp
  also have "\<dots> = 0" using assms(2) by (intro bit_word_eqI) (simp add: bit_drop_bit_eq bit_imp_le_length not_le)
  finally show ?thesis unfolding d_def by (rule xor_zero [symmetric])
qed

lemma xorshift_inj: "inj xorshift"
proof (rule injI)
  fix a b
  assume "xorshift a = xorshift b"
  from shift_xor_cancel [OF this [unfolded xorshift_def Let_def]]
  have "(a XOR push_bit 13 a) XOR drop_bit 7 (a XOR push_bit 13 a) = (b XOR push_bit 13 b) XOR drop_bit 7 (b XOR push_bit 13 b)"
    by simp
  from shift_right_xor_cancel [OF this] have "a XOR push_bit 13 a = b XOR push_bit 13 b" by simp
  from shift_xor_cancel [OF this] show "a = b" by simp
qed

lemma serial_repeats_with_seed:
  "i < j \<Longrightarrow> (xorshift ^^ j) seed = (xorshift ^^ i) seed \<Longrightarrow> (xorshift ^^ (j - i)) seed = seed"
proof (induction i arbitrary: j)
  case (Suc i)
  then obtain j' where "j = Suc j'" by (cases j) auto
  then show ?case using Suc xorshift_inj by (auto dest: injD)
qed simp

text \<open>A CA that signs by listing the names, and two calls for one host, the second joining the first.\<close>

definition test_crypto :: "(nat, nat) crypto" where
  "test_crypto =
    \<lparr>cr_ia5 = (\<lambda>_. True), cr_keygen = Inr 7, cr_sign = (\<lambda>p _. Inr (cp_common_name p)), cr_key_der = Inr,
     cr_single_cert = (\<lambda>_ _. None)\<rparr>"

definition test_ca :: signing_ca where
  "test_ca = \<lparr>ca_der = ''CA'', ca_expiry_hours = 72, ca_serial_seed = 1\<rparr>"

definition test_start :: "((string \<times> nat server_config) list, nat) config" where
  "test_start = (Map.empty, fresh_cache [] test_ca None)"

definition join_schedule :: "((nat \<times> string) + nat) list" where
  "join_schedule = [Inl (0, ''a.b''), Inl (1, ''a.b''), Inr 0, Inr 0, Inr 1, Inr 1, Inr 0, Inr 0, Inr 0, Inr 0, Inr 1]"

definition race_schedule :: "((nat \<times> string) + nat) list" where
  "race_schedule =
    [Inl (0, ''a.b''), Inl (1, ''a.b''), Inr 0, Inr 1, Inr 0, Inr 0, Inr 0, Inr 0, Inr 0, Inr 1, Inr 1, Inr 1, Inr 1, Inr 1]"

definition after :: "((nat \<times> string) + nat) list \<Rightarrow> ((string \<times> nat server_config) list, nat) config" where
  "after es = the (run_schedule (list_lru 2) test_crypto 0 es test_start)"

lemmas test_cache_defs = after_def test_start_def test_ca_def test_crypto_def list_lru_def fresh_cache_def
  mint_config_def mint_def san_of_def leaf_params_def server_config_def next_serial_def

lemma after_reachable:
  "run_schedule (list_lru 2) test_crypto 0 es test_start \<noteq> None \<Longrightarrow> reachable (list_lru 2) {test_crypto} [] (after es)"
  unfolding after_def test_start_def
  by (auto intro!: run_schedule_reachable [OF _ reachable.init])

lemma parse_ip_ab: "parse_ip ''a.b'' = None"
  by code_simp

lemma join_runs:
  "run_schedule (list_lru 2) test_crypto 0 join_schedule test_start \<noteq> None"
  by (simp add: join_schedule_def test_cache_defs parse_ip_ab Let_def)

lemma race_runs:
  "run_schedule (list_lru 2) test_crypto 0 race_schedule test_start \<noteq> None"
  by (simp add: race_schedule_def test_cache_defs parse_ip_ab Let_def)

text \<open>
  The check of the cache and the registration are two critical sections: a call that missed before a
  mint was stored and registers after it was deregistered mints a second time.
\<close>

lemma race_mints_twice:
  "reachable (list_lru 2) {test_crypto} [] (after race_schedule) \<and>
   map fst (lc_minted (snd (after race_schedule))) = [''a.b'', ''a.b'']"
  using after_reachable [OF race_runs]
  by (simp add: race_schedule_def test_cache_defs parse_ip_ab Let_def)

section \<open>Properties\<close>

text \<open>
  C17. In every reachable state of the certificate cache, whatever the calls, their interleaving, the
  evictions and the failures of the crypto: a configuration that \<open>get\<close> returns for a target serves a
  chain of a leaf signed for that target (its common name is the target, and its only alternative name
  is the target as an address or as a DNS name, and it is no CA) and of the CA's certificate, with the key
  that was signed. The LRU cache is a parameter that starts empty and whose laws are those of its crate.
\<close>

theorem cache_serves_target:
  assumes "lru_laws l" "\<And>k. lr_peek l c0 k = None" "reachable l crs c0 cf"
    and "fst cf i = Some (target, Finished (Some v))"
  shows "minted_for crs (ca_der (lc_ca (snd cf))) target v"
proof -
  have "(target, v) \<in> set (lc_minted (snd cf))"
    using reachable_values [OF assms(1-3)] assms(4) unfolding values_ok_def by (metis carries.simps(4))
  then show ?thesis using reachable_minted [OF assms(3)] by blast
qed

theorem cache_serves_target_witness:
  "\<exists>v. fst (after join_schedule) 1 = Some (''a.b'', Finished (Some v)) \<and> minted_for {test_crypto} ''CA'' ''a.b'' v"
proof -
  obtain v where v: "fst (after join_schedule) 1 = Some (''a.b'', Finished (Some v))"
    by (simp add: join_schedule_def test_cache_defs parse_ip_ab Let_def)
  have ca: "ca_der (lc_ca (snd (after join_schedule))) = ''CA''"
    by (simp add: join_schedule_def test_cache_defs parse_ip_ab Let_def)
  have "lr_peek (list_lru 2) [] k = None" for k by (simp add: list_lru_def)
  from cache_serves_target [OF list_lru_laws this after_reachable [OF join_runs] v] v ca show ?thesis by auto
qed

text \<open>
  Single flight: at most one call per target is between registering its mint and removing the
  registration, and a call that waits for a result waits on a channel that has been published or that a
  live call for the same target is going to publish.
\<close>

theorem cache_single_flight:
  assumes "reachable l crs c0 (ts, sh)" "ts i = Some (target, t)"
  shows "(owns t \<noteq> None \<longrightarrow> (\<forall>j u. ts j = Some (target, u) \<longrightarrow> owns u \<noteq> None \<longrightarrow> j = i)) \<and>
    (\<forall>n. t = Awaiting n \<longrightarrow> lc_chan sh (target, n) \<noteq> None \<or> (\<exists>j u. ts j = Some (target, u) \<and> holds u = Some n))"
proof -
  have ok: "flight_ok (ts, sh)" using reachable_flight [OF assms(1)] by simp
  have "j = i" if "owns t = Some n" "ts j = Some (target, u)" "owns u = Some m" for n m j u
    using flight_okD(1) [OF ok assms(2) that(1)] flight_okD(1) [OF ok that(2,3)]
      flight_okD(5) [OF ok that(2) assms(2)] owns_holds that by auto
  then show ?thesis using flight_okD(7) [OF ok] assms(2) by blast
qed

theorem cache_single_flight_witness:
  "{j. \<exists>u. fst (after (take 6 join_schedule)) j = Some (''a.b'', u) \<and> owns u \<noteq> None} = {0}"
proof -
  have "run_schedule (list_lru 2) test_crypto 0 (take 6 join_schedule) test_start \<noteq> None"
    by (simp add: join_schedule_def test_cache_defs parse_ip_ab Let_def)
  note r = after_reachable [OF this]
  obtain ts sh where cf: "after (take 6 join_schedule) = (ts, sh)" by force
  obtain t where t: "fst (after (take 6 join_schedule)) 0 = Some (''a.b'', t)" "owns t \<noteq> None"
    by (simp add: join_schedule_def test_cache_defs parse_ip_ab Let_def)
  show ?thesis
    using cache_single_flight [OF r [unfolded cf], of 0 "''a.b''" t] t cf by auto
qed

text \<open>
  C25. No call of the cache hangs: from every reachable state, every sequence of steps of the calls under
  way ends after at most six steps per call, and where no call can step any more, every call has returned.
\<close>

theorem cache_calls_finish:
  assumes "reachable l crs c0 cf" "crs \<noteq> {}" "(call_step l crs ^^ n) cf cf'"
  shows "n \<le> 6 * card (dom (fst cf)) \<and>
    ((\<nexists>cf''. call_step l crs cf' cf'') \<longrightarrow> (\<forall>i k t. fst cf' i = Some (k, t) \<longrightarrow> (\<exists>r. t = Finished r)))"
proof -
  have fin: "finite (dom (fst cf))" using reachable_flight [OF assms(1)] by blast
  have "n \<le> 6 * card (dom (fst cf))"
    using call_steps_potential [OF assms(3) fin] potential_le [OF fin] by linarith
  moreover have "reachable l crs c0 cf'"
    using assms(3)
  proof (induction n arbitrary: cf')
    case (Suc n)
    then show ?case using cache_step.work reachable.run by (fastforce elim!: relcompp.cases)
  qed (use assms(1) in simp)
  then have "flight_ok cf'" by (rule reachable_flight [THEN conjunct1])
  then have "\<exists>r. t = Finished r" if "\<nexists>cf''. call_step l crs cf' cf''" "fst cf' i = Some (k, t)" for i k t
    using stuck_finished [of "fst cf'" "snd cf'" _ crs l i k t] that assms(2) by auto
  ultimately show ?thesis by blast
qed

theorem cache_calls_finish_witness:
  "(call_step (list_lru 2) {test_crypto} ^^ 9) (after (take 2 join_schedule)) (after join_schedule) \<and>
     9 \<le> 6 * card (dom (fst (after (take 2 join_schedule))))"
proof -
  have start: "run_schedule (list_lru 2) test_crypto 0 (take 2 join_schedule) test_start \<noteq> None"
    by (simp add: join_schedule_def test_cache_defs)
  have "run_schedule (list_lru 2) test_crypto 0 (map Inr [0, 0, 1, 1, 0, 0, 0, 0, 1]) (after (take 2 join_schedule)) =
      Some (after join_schedule)"
    by (simp add: join_schedule_def test_cache_defs parse_ip_ab Let_def)
  from run_schedule_steps [OF this, of "{test_crypto}"]
  have "(call_step (list_lru 2) {test_crypto} ^^ 9) (after (take 2 join_schedule)) (after join_schedule)"
    by (simp del: relpowp.simps add: eval_nat_numeral)
  from this cache_calls_finish [OF after_reachable [OF start] _ this] show ?thesis by blast
qed

end
