(* ===== verification/Resolver.thy ===== *)
theory Resolver
  imports Secrets
begin

text \<open>
  The secret sources, \<open>crates/hematite-proxy/src/resolver.rs\<close>: reading an environment variable or a file,
  the selection of a JSON field, and the cache with its lifetimes for successes and failures. The
  process environment, the file system, the JSON parser and the clock at the time of a call are
  the world, a parameter.
\<close>

section \<open>Definitions\<close>

record world =
  wd_env :: "string \<rightharpoonup> string"
  wd_file :: "string \<Rightarrow> string + bytes"
  wd_json :: "bytes \<Rightarrow> json option"
  wd_now_ms :: u64

definition DEFAULT_FAILURE_TTL :: nat where
  "DEFAULT_FAILURE_TTL = 60 * 10 ^ 9"

text \<open>\<open>Duration::as_millis() as u64\<close>.\<close>

definition as_millis :: "nat \<Rightarrow> u64" where
  "as_millis ns = of_nat (ns div 10 ^ 6)"

definition saturating_sub :: "u64 \<Rightarrow> u64 \<Rightarrow> u64" where
  "saturating_sub a b = (if b \<le> a then a - b else 0)"

fun key_base :: "source_kind \<Rightarrow> string" where
  "key_base (Env var) = ''env:'' @ var"
| "key_base (File path) = ''file:'' @ path"

definition cache_key :: "source_ref \<Rightarrow> string" where
  "cache_key source =
    (case sr_json_key source of
       Some key \<Rightarrow> key_base (sr_kind source) @ CHR 0x00 # key
     | None \<Rightarrow> key_base (sr_kind source))"

record entry =
  en_value :: "bytes option"
  en_stamp :: u64
  en_ok :: bool

definition apply_json_key :: "world \<Rightarrow> bytes \<Rightarrow> source_ref \<Rightarrow> resolve_error + bytes" where
  "apply_json_key w v source =
    (case sr_json_key source of
       None \<Rightarrow> Inr v
     | Some key \<Rightarrow>
         and_then (ok_or \<lparr>re_source = source, re_reason = [Lit ''value is not JSON'']\<rparr> (wd_json w v)) (\<lambda>parsed.
           case (case parsed of JObject members \<Rightarrow> map_of members key | _ \<Rightarrow> None) of
             Some (JString s) \<Rightarrow> Inr s
           | _ \<Rightarrow> Inl \<lparr>re_source = source,
                       re_reason = [Lit ''json_key '', Debug key, Lit '' missing or not a string'']\<rparr>))"

definition read :: "world \<Rightarrow> source_ref \<Rightarrow> resolve_error + bytes" where
  "read w source =
    and_then
      (case sr_kind source of
         Env var \<Rightarrow>
           (case wd_env w var of
              Some v \<Rightarrow>
                if v \<noteq> [] then Inr v
                else Inl \<lparr>re_source = source, re_reason = [Lit ''env var unset or empty'']\<rparr>
            | None \<Rightarrow> Inl \<lparr>re_source = source, re_reason = [Lit ''env var unset or empty'']\<rparr>)
       | File path \<Rightarrow>
           map_err (\<lambda>e. \<lparr>re_source = source, re_reason = [Lit ''cannot read file: '', Disp e]\<rparr>) (wd_file w path))
      (\<lambda>raw. apply_json_key w raw source)"

type_synonym cache = "string \<rightharpoonup> entry"

definition read_fresh :: "world \<Rightarrow> cache \<Rightarrow> source_ref \<Rightarrow> (resolve_error + secret) \<times> cache" where
  "read_fresh w c source =
    (case read w source of
       Inr bs \<Rightarrow> (Inr (Secret bs), c(cache_key source \<mapsto> \<lparr>en_value = Some bs, en_stamp = wd_now_ms w, en_ok = True\<rparr>))
     | Inl e \<Rightarrow> (Inl e, c(cache_key source \<mapsto> \<lparr>en_value = None, en_stamp = wd_now_ms w, en_ok = False\<rparr>)))"

definition refresh :: "world \<Rightarrow> cache \<Rightarrow> source_ref \<Rightarrow> entry \<Rightarrow> (resolve_error + secret) \<times> cache" where
  "refresh w c source e =
    (case read w source of
       Inr bs \<Rightarrow> (Inr (Secret bs), c(cache_key source \<mapsto> \<lparr>en_value = Some bs, en_stamp = wd_now_ms w, en_ok = True\<rparr>))
     | Inl _ \<Rightarrow>
         (let stale = unwrap_or (en_value e) [];
              retry_stamp = (case map_option as_millis (sr_ttl source) of
                               Some ttl \<Rightarrow> saturating_sub (wd_now_ms w) (ttl div 2) | None \<Rightarrow> wd_now_ms w)
          in (Inr (Secret stale),
              c(cache_key source \<mapsto> \<lparr>en_value = Some stale, en_stamp = retry_stamp, en_ok = True\<rparr>))))"

definition failure_ttl :: "source_ref \<Rightarrow> u64" where
  "failure_ttl source = as_millis (unwrap_or (sr_failure_ttl source) DEFAULT_FAILURE_TTL)"

definition resolve :: "world \<Rightarrow> cache \<Rightarrow> source_ref \<Rightarrow> (resolve_error + secret) \<times> cache" where
  "resolve w c source =
    (let now = wd_now_ms w;
         ttl_ms = map_option as_millis (sr_ttl source)
     in case c (cache_key source) of
          None \<Rightarrow> read_fresh w c source
        | Some e \<Rightarrow>
            if en_ok e then
              (if (case ttl_ms of None \<Rightarrow> True | Some ttl \<Rightarrow> saturating_sub now (en_stamp e) < ttl)
               then (Inr (Secret (unwrap_or (en_value e) [])), c)
               else refresh w c source e)
            else if saturating_sub now (en_stamp e) < failure_ttl source
            then (Inl \<lparr>re_source = source, re_reason = [Lit ''cached failure'']\<rparr>, c)
            else read_fresh w c source)"

text \<open>As the resolver the pipeline is built with: the world is part of its state.\<close>

definition EnvFileResolver :: "(world \<times> cache) resolver" where
  "EnvFileResolver s source = (case s of (w, c) \<Rightarrow> let (r, c') = resolve w c source in (r, (w, c')))"

section \<open>One call\<close>

lemma resolve_cases:
  assumes "resolve w c source = (res, c')"
  obtains
    (hit) e where "c (cache_key source) = Some e" "en_ok e" "res = Inr (Secret (unwrap_or (en_value e) []))" "c' = c"
      "\<forall>t. sr_ttl source = Some t \<longrightarrow> saturating_sub (wd_now_ms w) (en_stamp e) < as_millis t"
  | (held) e where "c (cache_key source) = Some e" "\<not> en_ok e"
      "res = Inl \<lparr>re_source = source, re_reason = [Lit ''cached failure'']\<rparr>" "c' = c"
      "saturating_sub (wd_now_ms w) (en_stamp e) < failure_ttl source"
  | (good) v where "read w source = Inr v" "res = Inr (Secret v)"
      "c' = c(cache_key source \<mapsto> \<lparr>en_value = Some v, en_stamp = wd_now_ms w, en_ok = True\<rparr>)"
  | (stale) e err t where "c (cache_key source) = Some e" "en_ok e" "read w source = Inl err" "sr_ttl source = Some t"
      "\<not> saturating_sub (wd_now_ms w) (en_stamp e) < as_millis t"
      "res = Inr (Secret (unwrap_or (en_value e) []))"
      "c' = c(cache_key source \<mapsto> \<lparr>en_value = Some (unwrap_or (en_value e) []),
              en_stamp = saturating_sub (wd_now_ms w) (as_millis t div 2), en_ok = True\<rparr>)"
  | (bad) err where "read w source = Inl err" "res = Inl err"
      "c (cache_key source) = None \<or> (\<exists>e. c (cache_key source) = Some e \<and> \<not> en_ok e)"
      "c' = c(cache_key source \<mapsto> \<lparr>en_value = None, en_stamp = wd_now_ms w, en_ok = False\<rparr>)"
proof (cases "c (cache_key source)")
  case None
  then show thesis using assms good bad
    by (auto simp: resolve_def read_fresh_def Let_def split: sum.splits)
next
  case (Some e)
  show thesis
  proof (cases "en_ok e")
    case True
    show thesis
    proof (cases "\<forall>t. sr_ttl source = Some t \<longrightarrow> saturating_sub (wd_now_ms w) (en_stamp e) < as_millis t")
      case fresh: True
      then have "resolve w c source = (Inr (Secret (unwrap_or (en_value e) [])), c)"
        using Some True by (cases "sr_ttl source") (simp_all add: resolve_def)
      then show thesis using hit [OF Some True _ _ fresh] assms by simp
    next
      case False
      then obtain t where t: "sr_ttl source = Some t" "\<not> saturating_sub (wd_now_ms w) (en_stamp e) < as_millis t"
        by blast
      then have r: "refresh w c source e = (res, c')" using assms Some True by (simp add: resolve_def)
      show thesis
      proof (cases "read w source")
        case (Inl err)
        then show thesis using r t stale [OF Some True Inl t] by (simp add: refresh_def Let_def)
      next
        case (Inr v)
        then show thesis using r good by (simp add: refresh_def)
      qed
    qed
  next
    case False
    then show thesis using assms Some good bad held
      by (auto simp: resolve_def read_fresh_def Let_def split: sum.splits if_splits)
  qed
qed

section \<open>Where a value comes from\<close>

text \<open>
  A history is the list of the calls, latest first, each with the world it ran in. An entry of the
  cache holds what some earlier call read for the same key.
\<close>

fun run_calls :: "(world \<times> source_ref) list \<Rightarrow> cache" where
  "run_calls [] = Map.empty"
| "run_calls ((w, source) # hist) = snd (resolve w (run_calls hist) source)"

definition was_read :: "(world \<times> source_ref) list \<Rightarrow> string \<Rightarrow> bytes \<Rightarrow> bool" where
  "was_read hist key v \<longleftrightarrow> (\<exists>(w, source) \<in> set hist. cache_key source = key \<and> read w source = Inr v)"

definition entry_ok :: "(world \<times> source_ref) list \<Rightarrow> string \<Rightarrow> entry \<Rightarrow> bool" where
  "entry_ok hist key e \<longleftrightarrow>
    (if en_ok e then \<exists>v. en_value e = Some v \<and> was_read hist key v else en_value e = None)"

lemma was_read_more: "was_read hist key v \<Longrightarrow> was_read (x # hist) key v"
  by (auto simp: was_read_def)

lemma run_calls_ok: "run_calls hist key = Some e \<Longrightarrow> entry_ok hist key e"
proof (induction hist arbitrary: key e)
  case (Cons x hist)
  obtain w source where x: "x = (w, source)" by force
  obtain res c' where r: "resolve w (run_calls hist) source = (res, c')" by force
  have c': "c' key = Some e" using Cons.prems x r by simp
  have old: "entry_ok (x # hist) k e'" if "run_calls hist k = Some e'" for k e'
    using Cons.IH [OF that] by (auto simp: entry_ok_def intro: was_read_more split: if_splits)
  from r show ?case
  proof (cases rule: resolve_cases)
    case (good v)
    then have "was_read (x # hist) (cache_key source) v" using x by (auto simp: was_read_def)
    then show ?thesis using c' old good by (auto simp: entry_ok_def split: if_splits)
  next
    case (stale e' err t)
    obtain v where "en_value e' = Some v" "was_read (x # hist) (cache_key source) v"
      using old [OF stale(1)] stale(2) by (auto simp: entry_ok_def)
    then show ?thesis using c' old stale by (auto simp: entry_ok_def split: if_splits)
  next
    case (bad err)
    then show ?thesis using c' old x by (auto simp: entry_ok_def split: if_splits)
  qed (use c' old in simp_all)
qed simp

section \<open>Keys\<close>

text \<open>Names of variables and files have no zero byte; neither the operating system nor the shell can make one.\<close>

definition named :: "source_ref \<Rightarrow> bool" where
  "named source \<longleftrightarrow> CHR 0x00 \<notin> set (SourceRef_name source)"

lemma split_at_zero:
  assumes "CHR 0x00 \<notin> set a" "CHR 0x00 \<notin> set b"
  shows "a @ CHR 0x00 # x = b @ CHR 0x00 # y \<longleftrightarrow> a = b \<and> x = y"
proof
  assume eq: "a @ CHR 0x00 # x = b @ CHR 0x00 # y"
  have "takeWhile (\<lambda>c. c \<noteq> CHR 0x00) (s @ CHR 0x00 # z) = s" if "CHR 0x00 \<notin> set s" for s z
    using that by (induction s) auto
  with assms eq have "a = b" by metis
  with eq show "a = b \<and> x = y" by simp
qed simp

lemma cache_key_eq:
  assumes "named a" "named b"
  shows "cache_key a = cache_key b \<longleftrightarrow> sr_kind a = sr_kind b \<and> sr_json_key a = sr_json_key b"
proof -
  have inj: "key_base j = key_base k \<longleftrightarrow> j = k" for j k by (cases j; cases k) auto
  have zero: "CHR 0x00 \<notin> set (key_base (sr_kind s))" if "named s" for s
    using that by (cases "sr_kind s") (auto simp: named_def SourceRef_name_def)
  have differ: "x @ CHR 0x00 # k \<noteq> y" "y \<noteq> x @ CHR 0x00 # k" if "CHR 0x00 \<notin> set y" for x y k
    using that by auto
  show ?thesis
    using split_at_zero [OF zero [OF assms(1)] zero [OF assms(2)]] zero [OF assms(1)] zero [OF assms(2)]
    by (auto simp: cache_key_def inj differ split: option.splits)
qed

section \<open>The schedule of reads\<close>

text \<open>When a call reads its source: a success is due for a refresh after its lifetime, a failure for a retry.\<close>

definition due :: "cache \<Rightarrow> source_ref \<Rightarrow> u64 \<Rightarrow> bool" where
  "due c source now \<longleftrightarrow>
    (case c (cache_key source) of
       None \<Rightarrow> True
     | Some e \<Rightarrow>
         if en_ok e then (case sr_ttl source of None \<Rightarrow> False | Some t \<Rightarrow> as_millis t \<le> saturating_sub now (en_stamp e))
         else failure_ttl source \<le> saturating_sub now (en_stamp e))"

text \<open>How long a call's result stands: the lifetime, half of it (rounded up) for a stale value, or the lifetime of a failure.\<close>

definition hold :: "source_ref \<Rightarrow> resolve_error + bytes \<Rightarrow> resolve_error + secret \<Rightarrow> u64 option" where
  "hold source attempt res =
    (case (attempt, res) of
       (Inr _, _) \<Rightarrow> map_option as_millis (sr_ttl source)
     | (Inl _, Inr _) \<Rightarrow> map_option (\<lambda>t. as_millis t - as_millis t div 2) (sr_ttl source)
     | (Inl _, Inl _) \<Rightarrow> Some (failure_ttl source))"

lemma resolve_not_due:
  assumes "resolve w c source = (res, c')" "\<not> due c source (wd_now_ms w)"
  shows "c' = c \<and> (\<exists>e. c (cache_key source) = Some e \<and>
    res = (if en_ok e then Inr (Secret (unwrap_or (en_value e) []))
           else Inl \<lparr>re_source = source, re_reason = [Lit ''cached failure'']\<rparr>))"
  using assms by (auto simp: due_def resolve_def Let_def not_le split: option.splits if_splits)

lemma saturating_sub_half:
  fixes now ttl later :: u64
  assumes "now \<le> later" "\<not> saturating_sub now stamp < ttl"
  shows "ttl \<le> saturating_sub later (saturating_sub now (ttl div 2)) \<longleftrightarrow> ttl - ttl div 2 \<le> later - now"
proof -
  have "ttl \<le> now"
    using assms(2) word_sub_le [of stamp now] by (auto simp: saturating_sub_def not_less split: if_splits)
  then show ?thesis using assms(1)
    by (simp add: saturating_sub_def word_le_nat_alt unat_sub unat_div) linarith
qed

section \<open>Properties\<close>

text \<open>
  C24. Secrets do not mix: whatever calls went before, in whatever worlds, a value the resolver returns
  for a source was read, by this call or an earlier one, from the same variable or file and under the same JSON
  field; and a call touches the cache entry of no other source. (No name has a zero byte.)
\<close>

theorem resolver_no_crosstalk:
  assumes "resolve w (run_calls hist) source = (res, c')"
    and "\<forall>(w, s) \<in> set ((w, source) # hist). named s"
  shows "(\<forall>v. res = Inr (Secret v) \<longrightarrow>
      (\<exists>(w', s) \<in> set ((w, source) # hist). sr_kind s = sr_kind source \<and> sr_json_key s = sr_json_key source \<and>
         read w' s = Inr v)) \<and>
    (\<forall>s. named s \<longrightarrow> (sr_kind s, sr_json_key s) \<noteq> (sr_kind source, sr_json_key source) \<longrightarrow>
       c' (cache_key s) = run_calls hist (cache_key s))"
proof -
  have same: "cache_key s = cache_key source \<longleftrightarrow> sr_kind s = sr_kind source \<and> sr_json_key s = sr_json_key source"
    if "named s" for s
    using that assms(2) by (intro cache_key_eq) auto
  have read: "\<exists>(w', s) \<in> set ((w, source) # hist). sr_kind s = sr_kind source \<and> sr_json_key s = sr_json_key source \<and>
      read w' s = Inr v" if "was_read ((w, source) # hist) (cache_key source) v" for v
    using that assms(2) same unfolding was_read_def by blast
  have cached: "was_read ((w, source) # hist) (cache_key source) (unwrap_or (en_value e) [])"
    if "run_calls hist (cache_key source) = Some e" "en_ok e" for e
    using run_calls_ok [OF that(1)] that(2) by (auto simp: entry_ok_def intro: was_read_more)
  from assms(1) show ?thesis
  proof (cases rule: resolve_cases)
    case (good v)
    then have "was_read ((w, source) # hist) (cache_key source) v" by (auto simp: was_read_def)
    then show ?thesis using good read same by auto
  qed (use read cached same in \<open>auto simp del: Product_Type.case_prod_conv\<close>)
qed

text \<open>A file that rotates and then becomes unreadable, behind a lifetime of ten seconds.\<close>

definition test_source :: source_ref where
  "test_source = \<lparr>sr_kind = File ''/s'', sr_json_key = None, sr_ttl = Some (10 * 10 ^ 9), sr_failure_ttl = None\<rparr>"

definition test_world :: "string + bytes \<Rightarrow> u64 \<Rightarrow> world" where
  "test_world content now =
    \<lparr>wd_env = Map.empty, wd_file = (\<lambda>_. content), wd_json = (\<lambda>_. None), wd_now_ms = now\<rparr>"

lemma test_read: "read (test_world (Inr v) now) test_source = Inr v"
    "\<exists>err. read (test_world (Inl e) now) test_source = Inl err"
  by (simp_all add: read_def test_world_def test_source_def apply_json_key_def)

lemma test_first: "resolve (test_world (Inr ''old'') 5) Map.empty test_source =
    (Inr (Secret ''old''), [cache_key test_source \<mapsto> \<lparr>en_value = Some ''old'', en_stamp = 5, en_ok = True\<rparr>])"
  by (simp add: resolve_def read_fresh_def test_read) (simp add: test_world_def)

lemma test_cache: "run_calls [(test_world (Inr ''old'') 5, test_source)] =
    [cache_key test_source \<mapsto> \<lparr>en_value = Some ''old'', en_stamp = 5, en_ok = True\<rparr>]"
  by (simp only: run_calls.simps test_first snd_conv)

lemma test_ttl: "sr_ttl test_source = Some 10000000000" "as_millis 10000000000 = 10000"
  by (simp_all add: test_source_def as_millis_def)

theorem resolver_no_crosstalk_witness:
  "\<exists>c'. resolve (test_world (Inr ''new'') 9) (run_calls [(test_world (Inr ''old'') 5, test_source)]) test_source =
      (Inr (Secret ''old''), c') \<and>
    (\<exists>(w', s) \<in> set [(test_world (Inr ''new'') 9, test_source), (test_world (Inr ''old'') 5, test_source)].
       read w' s = Inr ''old'')"
proof -
  let ?c = "run_calls [(test_world (Inr ''old'') 5, test_source)]"
  have run: "resolve (test_world (Inr ''new'') 9) ?c test_source = (Inr (Secret ''old''), ?c)"
    unfolding test_cache by (simp add: resolve_def test_ttl saturating_sub_def) (simp add: test_world_def)
  have "named test_source" by (simp add: named_def test_source_def SourceRef_name_def)
  with resolver_no_crosstalk [OF run] run show ?thesis by auto
qed

text \<open>
  C40. The timing of reads. A call that is not due returns what is cached, a value or a failure, and changes
  nothing. A call that is due returns what it reads; when it cannot read, it returns the last value if there is one
  and the error otherwise. Afterwards, by any later clock, the next read is due exactly after the
  lifetime, after half the lifetime rounded up when a stale value was served, and after the lifetime of
  failures when there was no value; without a lifetime a success stands for ever.
\<close>

theorem resolver_schedule:
  assumes "resolve w c source = (res, c')" "wd_now_ms w \<le> later"
  shows "(\<not> due c source (wd_now_ms w) \<longrightarrow> c' = c \<and>
      (\<exists>e. c (cache_key source) = Some e \<and>
        res = (if en_ok e then Inr (Secret (unwrap_or (en_value e) []))
               else Inl \<lparr>re_source = source, re_reason = [Lit ''cached failure'']\<rparr>))) \<and>
    (due c source (wd_now_ms w) \<longrightarrow>
      res = (case read w source of
               Inr v \<Rightarrow> Inr (Secret v)
             | Inl err \<Rightarrow> (case c (cache_key source) of
                            Some e \<Rightarrow> if en_ok e then Inr (Secret (unwrap_or (en_value e) [])) else Inl err
                          | None \<Rightarrow> Inl err)) \<and>
      (due c' source later \<longleftrightarrow> (\<exists>d. hold source (read w source) res = Some d \<and> d \<le> later - wd_now_ms w)))"
  using assms(1)
proof (cases rule: resolve_cases)
  case (hit e)
  then have "\<not> due c source (wd_now_ms w)" by (auto simp: due_def not_le split: option.splits)
  then show ?thesis using hit by simp
next
  case (held e)
  then have "\<not> due c source (wd_now_ms w)" by (simp add: due_def not_le)
  then show ?thesis using held by simp
next
  case (stale e err t)
  have "due c source (wd_now_ms w)" using stale(1,2,4,5) by (simp add: due_def not_less)
  moreover have "due c' source later \<longleftrightarrow> as_millis t - as_millis t div 2 \<le> later - wd_now_ms w"
    using stale(4,7) saturating_sub_half [OF assms(2) stale(5)] by (simp add: due_def)
  ultimately show ?thesis using stale by (simp add: hold_def)
next
  case (bad err)
  have "due c' source later \<longleftrightarrow> failure_ttl source \<le> later - wd_now_ms w"
    using bad(4) assms(2) by (simp add: due_def saturating_sub_def)
  then show ?thesis using bad resolve_not_due [OF assms(1)] by (auto simp: hold_def split: option.splits)
next
  case (good v)
  have "due c' source later \<longleftrightarrow> (\<exists>d. hold source (read w source) res = Some d \<and> d \<le> later - wd_now_ms w)"
    using good assms(2) by (auto simp: due_def saturating_sub_def hold_def split: option.splits)
  then show ?thesis using good resolve_not_due [OF assms(1)] by auto
qed

theorem resolver_schedule_witness:
  "\<exists>c'. resolve (test_world (Inl ''gone'') 10005) (run_calls [(test_world (Inr ''old'') 5, test_source)]) test_source =
      (Inr (Secret ''old''), c') \<and> \<not> due c' test_source 15004 \<and> due c' test_source 15005"
proof -
  let ?c = "run_calls [(test_world (Inr ''old'') 5, test_source)]"
  let ?w = "test_world (Inl ''gone'') 10005"
  obtain res c' where run: "resolve ?w ?c test_source = (res, c')" by force
  obtain err where err: "read ?w test_source = Inl err" using test_read by blast
  have now: "wd_now_ms ?w = 10005" by (simp add: test_world_def)
  have was: "due ?c test_source 10005"
    unfolding test_cache by (simp add: due_def test_ttl saturating_sub_def)
  have entry: "?c (cache_key test_source) = Some \<lparr>en_value = Some ''old'', en_stamp = 5, en_ok = True\<rparr>"
    unfolding test_cache by simp
  have res: "res = Inr (Secret ''old'')" using resolver_schedule [OF run, of 15005] was now err entry by simp
  then have "hold test_source (read ?w test_source) res = Some 5000" by (simp add: hold_def err test_ttl)
  then have "\<not> due c' test_source 15004" "due c' test_source 15005"
    using resolver_schedule [OF run, of 15004] resolver_schedule [OF run, of 15005] was now by simp_all
  then show ?thesis using run res by blast
qed

end
