(* ===== verification/Dns_Wire.thy ===== *)
theory Dns_Wire
  imports Ip_Addr Utf8 Byte_Order
begin

text \<open>
  The DNS messages of \<open>crates/hematite-dns/src/wire.rs\<close>: parsing a query and building the
  responses the server sends. Queries are
  proved to be parsed back from their encoding, and a response is proved to be readable by a client: a reader of
  messages that follows the owner name of a record through its pointer and decodes what the record holds.
\<close>

section \<open>Messages\<close>

definition TYPE_A :: u16 where "TYPE_A = 1"
definition TYPE_CNAME :: u16 where "TYPE_CNAME = 5"
definition TYPE_AAAA :: u16 where "TYPE_AAAA = 28"
definition CLASS_IN :: u16 where "CLASS_IN = 1"
definition RCODE_NOERROR :: byte where "RCODE_NOERROR = CHR 0x00"
definition RCODE_SERVFAIL :: byte where "RCODE_SERVFAIL = CHR 0x02"

record query =
  dq_id :: u16
  dq_rd :: bool
  dq_name :: string
  dq_qtype :: u16
  dq_qclass :: u16
  dq_question_raw :: bytes

text \<open>The loop over the labels: the position after the name, and the name.\<close>

function qname_loop :: "bytes \<Rightarrow> nat \<Rightarrow> string \<Rightarrow> (nat \<times> string) option" where
  "qname_loop msg i name =
    (case get msg i of
       None \<Rightarrow> None
     | Some b \<Rightarrow>
         (let len = code b
          in if len = 0 then Some (i + 1, name)
             else if len AND 0xc0 \<noteq> 0 then None
             else (let name1 = (if name \<noteq> [] then name @ ''.'' else name)
                   in case get_range msg (i + 1) (i + 1 + len) of
                        None \<Rightarrow> None
                      | Some label \<Rightarrow> qname_loop msg (i + 1 + len) (name1 @ from_utf8_lossy label))))"
  by pat_completeness auto
termination
  by (relation "measure (\<lambda>(msg, i, name). length msg - i)") (auto simp: get_def split: if_splits)

declare qname_loop.simps [simp del]

definition parse_query :: "bytes \<Rightarrow> query option" where
  "parse_query msg =
    (if length msg < 12 then None
     else
       (let qid = from_be16 (msg ! 0) (msg ! 1);
            flags = from_be16 (msg ! 2) (msg ! 3);
            qr = (flags AND 0x8000 \<noteq> 0)
        in if qr then None
           else
             (let rd = (flags AND 0x0100 \<noteq> 0);
                  qdcount = from_be16 (msg ! 4) (msg ! 5)
              in if qdcount < 1 then None
                 else
                   (case qname_loop msg 12 [] of
                      None \<Rightarrow> None
                    | Some (i, name) \<Rightarrow>
                        (case (get msg i, get msg (i + 1), get msg (i + 2), get msg (i + 3), get_range msg 12 (i + 4)) of
                           (Some t0, Some t1, Some c0, Some c1, Some raw) \<Rightarrow>
                             Some \<lparr>dq_id = qid, dq_rd = rd, dq_name = to_lower name, dq_qtype = from_be16 t0 t1,
                                   dq_qclass = from_be16 c0 c1, dq_question_raw = raw\<rparr>
                         | _ \<Rightarrow> None)))))"

definition encode_labels :: "string list \<Rightarrow> bytes" where
  "encode_labels ls = concat (map (\<lambda>l. char_of (length l) # l) ls) @ [CHR 0x00]"

definition encode_name :: "string \<Rightarrow> bytes" where
  "encode_name name = encode_labels (filter (\<lambda>l. l \<noteq> []) (split_on CHR ''.'' name))"

datatype answer = Answer_A u32 u32 | Answer_Cname string u32

definition dns_flags :: "bool \<Rightarrow> bool \<Rightarrow> byte \<Rightarrow> u16" where
  "dns_flags rd aa rcode =
    (let f1 = 0x8000;
         f2 = (if aa then f1 OR 0x0400 else f1);
         f3 = (if rd then f2 OR 0x0100 else f2);
         f4 = f3 OR 0x0080
     in f4 OR (word_of rcode AND 0x000f))"

definition dns_header :: "u16 \<Rightarrow> bool \<Rightarrow> bool \<Rightarrow> byte \<Rightarrow> u16 \<Rightarrow> bytes" where
  "dns_header qid rd aa rcode ancount =
    be16 qid @ be16 (dns_flags rd aa rcode) @ [CHR 0x00, CHR 0x01] @ be16 ancount
    @ [CHR 0x00, CHR 0x00, CHR 0x00, CHR 0x00]"

definition ip_octets :: "u32 \<Rightarrow> bytes" where
  "ip_octets a = be32 a"

fun answer_bytes :: "answer \<Rightarrow> bytes" where
  "answer_bytes (Answer_A ip ttl) =
    [CHR 0xc0, CHR 0x0c] @ be16 TYPE_A @ be16 CLASS_IN @ be32 ttl @ be16 4 @ ip_octets ip"
| "answer_bytes (Answer_Cname name ttl) =
    (let encoded = encode_name name
     in [CHR 0xc0, CHR 0x0c] @ be16 TYPE_CNAME @ be16 CLASS_IN @ be32 ttl @ be16 (of_nat (length encoded)) @ encoded)"

definition build_response :: "query \<Rightarrow> answer list \<Rightarrow> bool \<Rightarrow> bytes" where
  "build_response q answers aa =
    dns_header (dq_id q) (dq_rd q) aa RCODE_NOERROR (of_nat (length answers)) @ dq_question_raw q
    @ concat (map answer_bytes answers)"

definition build_empty_noerror :: "query \<Rightarrow> bool \<Rightarrow> bytes" where
  "build_empty_noerror q aa = build_response q [] aa"

definition build_servfail :: "query \<Rightarrow> bytes" where
  "build_servfail q = dns_header (dq_id q) (dq_rd q) False RCODE_SERVFAIL 0 @ dq_question_raw q"

section \<open>Reference encodings\<close>

text \<open>A query as a client writes it (RFC 1035), and the names a label may hold.\<close>

definition label_ok :: "string \<Rightarrow> bool" where
  "label_ok l \<longleftrightarrow> 0 < length l \<and> length l < 64 \<and> utf8_valid l"

definition encode_question :: "string list \<Rightarrow> u16 \<Rightarrow> u16 \<Rightarrow> bytes" where
  "encode_question ls qtype qclass = encode_labels ls @ be16 qtype @ be16 qclass"

definition encode_query :: "u16 \<Rightarrow> bool \<Rightarrow> string list \<Rightarrow> u16 \<Rightarrow> u16 \<Rightarrow> bytes" where
  "encode_query qid rd ls qtype qclass =
    be16 qid @ be16 (if rd then 0x0100 else 0) @ be16 1 @ be16 0 @ be16 0 @ be16 0 @ encode_question ls qtype qclass"

text \<open>
  A response as a client reads it. A name is a sequence of labels of 1 to 63 bytes up to the empty one; the owner
  of a record may also be a pointer to a name earlier in the message. The data of an address record are its four bytes, those of a
  \<open>CNAME\<close> record are a name that fills them.
\<close>

function read_labels :: "bytes \<Rightarrow> (string list \<times> bytes) option" where
  "read_labels [] = None"
| "read_labels (b # bs) =
    (if code b = 0 then Some ([], bs)
     else if 64 \<le> code b \<or> length bs < code b then None
     else map_option (\<lambda>(ls, rest). (take (code b) bs # ls, rest)) (read_labels (drop (code b) bs)))"
  by pat_completeness auto
termination by (relation "measure length") auto

fun read_owner :: "bytes \<Rightarrow> bytes \<Rightarrow> (string list \<times> bytes) option" where
  "read_owner msg (p0 # p1 # rest) =
    (if 192 \<le> code p0
     then map_option (\<lambda>(ls, _). (ls, rest)) (read_labels (drop ((code p0 - 192) * 256 + code p1) msg))
     else read_labels (p0 # p1 # rest))"
| "read_owner msg bs = read_labels bs"

datatype rdata = Rd_Address u32 | Rd_Name "string list" | Rd_Other bytes

definition read_rdata :: "u16 \<Rightarrow> bytes \<Rightarrow> rdata option" where
  "read_rdata ty bs =
    (if ty = 1 then (case bs of [a, b, c, d] \<Rightarrow> Some (Rd_Address (from_be32 a b c d)) | _ \<Rightarrow> None)
     else if ty = 5 then (case read_labels bs of Some (ls, []) \<Rightarrow> Some (Rd_Name ls) | _ \<Rightarrow> None)
     else Some (Rd_Other bs))"

record rr =
  rr_owner :: "string list"
  rr_type :: u16
  rr_class :: u16
  rr_ttl :: u32
  rr_data :: rdata

definition read_rr :: "bytes \<Rightarrow> bytes \<Rightarrow> (rr \<times> bytes) option" where
  "read_rr msg bs =
    (case read_owner msg bs of
       Some (owner, t0 # t1 # c0 # c1 # l0 # l1 # l2 # l3 # n0 # n1 # rest) \<Rightarrow>
         (let n = unat (from_be16 n0 n1); ty = from_be16 t0 t1
          in if length rest < n then None
             else map_option (\<lambda>d. (\<lparr>rr_owner = owner, rr_type = ty, rr_class = from_be16 c0 c1,
                                     rr_ttl = from_be32 l0 l1 l2 l3, rr_data = d\<rparr>, drop n rest))
                    (read_rdata ty (take n rest)))
     | _ \<Rightarrow> None)"

fun read_rrs :: "bytes \<Rightarrow> nat \<Rightarrow> bytes \<Rightarrow> (rr list \<times> bytes) option" where
  "read_rrs msg 0 bs = Some ([], bs)"
| "read_rrs msg (Suc n) bs =
    (case read_rr msg bs of
       None \<Rightarrow> None
     | Some (r, rest) \<Rightarrow> map_option (\<lambda>(rs, rest'). (r # rs, rest')) (read_rrs msg n rest))"

record response =
  rs_id :: u16
  rs_authoritative :: bool
  rs_recursion_desired :: bool
  rs_recursion_available :: bool
  rs_rcode :: u16
  rs_question :: "string list \<times> u16 \<times> u16"
  rs_answers :: "rr list"

text \<open>A whole message: a response with one question, the announced answers, no other records and no byte after them.\<close>

definition read_response :: "bytes \<Rightarrow> response option" where
  "read_response msg =
    (case msg of
       i0 # i1 # f0 # f1 # q0 # q1 # a0 # a1 # n0 # n1 # d0 # d1 # body \<Rightarrow>
         (let flags = from_be16 f0 f1
          in if bit flags 15 \<and> from_be16 q0 q1 = 1 \<and> from_be16 n0 n1 = 0 \<and> from_be16 d0 d1 = 0
             then (case read_labels body of
                     Some (ls, t0 # t1 # c0 # c1 # rest) \<Rightarrow>
                       (case read_rrs msg (unat (from_be16 a0 a1)) rest of
                          Some (rs, []) \<Rightarrow>
                            Some \<lparr>rs_id = from_be16 i0 i1, rs_authoritative = bit flags 10, rs_recursion_desired = bit flags 8,
                                  rs_recursion_available = bit flags 7, rs_rcode = take_bit 4 flags,
                                  rs_question = (ls, from_be16 t0 t1, from_be16 c0 c1), rs_answers = rs\<rparr>
                        | _ \<Rightarrow> None)
                   | _ \<Rightarrow> None)
             else None)
     | _ \<Rightarrow> None)"

text \<open>The record that an answer stands for, and the names that labels can carry.\<close>

fun answer_rr :: "string list \<Rightarrow> answer \<Rightarrow> rr" where
  "answer_rr owner (Answer_A ip ttl) = \<lparr>rr_owner = owner, rr_type = 1, rr_class = 1, rr_ttl = ttl, rr_data = Rd_Address ip\<rparr>"
| "answer_rr owner (Answer_Cname name ttl) =
    \<lparr>rr_owner = owner, rr_type = 5, rr_class = 1, rr_ttl = ttl,
     rr_data = Rd_Name (filter (\<lambda>l. l \<noteq> []) (split_on CHR ''.'' name))\<rparr>"

fun answer_ok :: "answer \<Rightarrow> bool" where
  "answer_ok (Answer_A ip ttl) \<longleftrightarrow> True"
| "answer_ok (Answer_Cname name ttl) \<longleftrightarrow> list_all (\<lambda>l. length l < 64) (split_on CHR ''.'' name) \<and> length name + 2 < 2 ^ 16"

section \<open>Queries\<close>

lemma length_header [simp]: "length (dns_header qid rd aa rc n) = 12"
  by (simp add: dns_header_def Let_def)

lemma small_no_pointer: "n < 64 \<Longrightarrow> n AND 0xc0 = (0 :: nat)"
proof -
  assume "n < 64"
  then have t: "take_bit 6 n = n" by (simp add: take_bit_nat_eq_self)
  have p: "(0xc0 :: nat) = push_bit 6 3" by simp
  have "bit (n AND push_bit 6 3) k = bit 0 k" for k
    using bit_take_bit_iff [of 6 n k] unfolding t by (auto simp only: bit_and_iff bit_push_bit_iff bit_0_eq)
  then show ?thesis unfolding p by (rule bit_eqI)
qed

definition add_label :: "string \<Rightarrow> string \<Rightarrow> string" where
  "add_label name l = (if name \<noteq> [] then name @ ''.'' else name) @ l"

lemma encode_labels_Cons: "encode_labels (l # ls) = char_of (length l) # l @ encode_labels ls"
  by (simp add: encode_labels_def)

lemma qname_loop_labels:
  "list_all label_ok ls \<Longrightarrow>
   qname_loop (pre @ encode_labels ls @ post) (length pre) name =
     Some (length pre + length (encode_labels ls), foldl add_label name ls)"
proof (induction ls arbitrary: pre name)
  case Nil
  then show ?case by (subst qname_loop.simps) (simp add: encode_labels_def get_def)
next
  case (Cons l ls)
  let ?msg = "pre @ encode_labels (l # ls) @ post"
  let ?pre = "pre @ char_of (length l) # l"
  have l: "0 < length l" "length l < 64" "utf8_valid l" using Cons.prems by (simp_all add: label_ok_def)
  have msg: "?msg = ?pre @ encode_labels ls @ post" by (simp add: encode_labels_Cons)
  have g: "get ?msg (length pre) = Some (char_of (length l))"
    by (simp add: get_def encode_labels_Cons nth_append)
  have r: "get_range ?msg (length pre + 1) (length pre + 1 + length l) = Some l"
    by (simp add: get_range_def encode_labels_Cons)
  have c: "code (char_of (length l)) = length l" using l(2) by simp
  have "qname_loop ?msg (length pre) name = qname_loop ?msg (length pre + 1 + length l) (add_label name l)"
    using l g r small_no_pointer [OF l(2)]
    by (subst qname_loop.simps) (simp add: c Let_def add_label_def from_utf8_lossy_id)
  also have "\<dots> = qname_loop (?pre @ encode_labels ls @ post) (length ?pre) (add_label name l)"
    unfolding msg by simp
  also have "\<dots> = Some (length ?pre + length (encode_labels ls), foldl add_label (add_label name l) ls)"
    using Cons.IH [of ?pre "add_label name l"] Cons.prems by (simp only: list.pred_inject)
  finally show ?case by (simp add: encode_labels_Cons)
qed

lemma foldl_add_label: "name \<noteq> [] \<Longrightarrow> foldl add_label name ls = join_with ''.'' (name # ls)"
proof (induction ls arbitrary: name)
  case (Cons l ls)
  then have "add_label name l = name @ ''.'' @ l" by (simp add: add_label_def)
  then have "foldl add_label name (l # ls) = join_with ''.'' ((name @ ''.'' @ l) # ls)"
    using Cons.IH [of "name @ ''.'' @ l"] by simp
  also have "\<dots> = join_with ''.'' (name # l # ls)" by (cases ls) simp_all
  finally show ?case .
qed simp

lemma qname_is_join: "list_all label_ok ls \<Longrightarrow> foldl add_label [] ls = join_with ''.'' ls"
  by (cases ls) (auto simp: add_label_def label_ok_def foldl_add_label)

lemma nth_append_left: "i < length xs \<Longrightarrow> (xs @ ys) ! i = xs ! i"
  by (simp add: nth_append)

lemma parse_encode_query:
  assumes "list_all label_ok ls"
  shows "parse_query (encode_query qid rd ls qtype qclass @ extra) =
    Some \<lparr>dq_id = qid, dq_rd = rd, dq_name = to_lower (join_with ''.'' ls), dq_qtype = qtype, dq_qclass = qclass,
          dq_question_raw = encode_question ls qtype qclass\<rparr>"
proof -
  let ?hd = "be16 qid @ be16 (if rd then 0x0100 else 0) @ be16 1 @ be16 0 @ be16 0 @ be16 0"
  let ?post = "be16 qtype @ be16 qclass @ extra"
  let ?msg = "?hd @ encode_labels ls @ ?post"
  have msg: "encode_query qid rd ls qtype qclass @ extra = ?msg"
    by (simp add: encode_query_def encode_question_def)
  have hd: "length ?hd = 12" by simp
  have loop: "qname_loop ?msg 12 [] = Some (12 + length (encode_labels ls), join_with ''.'' ls)"
    using qname_loop_labels [OF assms, of ?hd ?post "[]"] qname_is_join [OF assms] hd by simp
  have raw: "get_range ?msg 12 (12 + length (encode_labels ls) + 4) = Some (encode_question ls qtype qclass)"
    by (simp add: get_range_def encode_question_def)
  let ?pre = "?hd @ encode_labels ls"
  have pre: "length ?pre = 12 + length (encode_labels ls)" by simp
  have g: "get ?msg (12 + length (encode_labels ls) + k) = get ?post k" for k
    using get_append [of ?pre ?post k] unfolding pre by simp
  have ids: "from_be16 (?msg ! 0) (?msg ! 1) = qid" "from_be16 (?msg ! 4) (?msg ! 5) = 1"
    "from_be16 (?msg ! 2) (?msg ! 3) = (if rd then 0x0100 else 0)"
    using from_be16_be16 [of qid] from_be16_be16 [of 1] from_be16_be16 [of "if rd then 0x0100 else 0"]
    by (simp_all add: be16_def numeral_eq_Suc)
  have ty: "get ?post 0 = Some (byte_of (drop_bit 8 qtype))" "get ?post 1 = Some (byte_of qtype)"
    "get ?post 2 = Some (byte_of (drop_bit 8 qclass))" "get ?post 3 = Some (byte_of qclass)"
    by (simp_all add: be16_def get_def)
  show ?thesis unfolding msg
    using loop raw g [of 0] g [of 1] g [of 2] g [of 3] ids ty hd
    by (simp add: parse_query_def Let_def from_be16_be16 del: append_assoc)
qed

lemma parse_query_name_lower: "parse_query msg = Some q \<Longrightarrow> to_lower (dq_name q) = dq_name q"
  by (auto simp: parse_query_def Let_def split: if_splits option.splits)

section \<open>Names read back\<close>

lemma read_labels_encode:
  "list_all (\<lambda>l. 0 < length l \<and> length l < 64) ls \<Longrightarrow> read_labels (encode_labels ls @ rest) = Some (ls, rest)"
  by (induction ls) (simp_all add: encode_labels_Cons, simp add: encode_labels_def)

text \<open>What a name is does not depend on what follows it.\<close>

lemma read_labels_front:
  "read_labels bs = Some (ls, rest) \<Longrightarrow>
   \<exists>front. bs = front @ rest \<and> (\<forall>tail. read_labels (front @ tail) = Some (ls, tail))"
proof (induction bs arbitrary: ls rule: read_labels.induct)
  case (2 b bs)
  show ?case
  proof (cases "code b = 0")
    case True
    with "2.prems" show ?thesis by (intro exI [of _ "[b]"]) simp
  next
    case False
    with "2.prems" obtain ls' where n: "code b < 64" "code b \<le> length bs" and ls: "ls = take (code b) bs # ls'"
      and tail: "read_labels (drop (code b) bs) = Some (ls', rest)"
      by (auto split: if_splits)
    from "2.IH" [OF False _ tail] n obtain front where
      f: "drop (code b) bs = front @ rest" "\<forall>tail. read_labels (front @ tail) = Some (ls', tail)" by auto
    have "bs = take (code b) bs @ front @ rest" using f(1) by (metis append_take_drop_id)
    with False n ls f(2) show ?thesis
      by (intro exI [of _ "b # take (code b) bs @ front"]) simp
  qed
qed simp

lemma no_pointer_small:
  assumes "n < 256" "n AND 0xc0 = (0 :: nat)"
  shows "n < 64"
proof -
  have "drop_bit 6 n AND drop_bit 6 0xc0 = (0 :: nat)" using assms(2) by (metis drop_bit_and drop_bit_of_0)
  then have zero: "n div 64 AND 3 = 0" by (simp add: drop_bit_eq_div)
  have "n div 64 < 4" using assms(1) by auto
  then have "n div 64 \<in> {0, 1, 2, 3}" by auto
  with zero have "n div 64 = 0" by auto
  then show ?thesis by simp
qed

text \<open>The loop of the parser reads the name that the reader reads.\<close>

lemma qname_loop_read:
  "qname_loop msg i name = Some (j, name') \<Longrightarrow>
   \<exists>ls. read_labels (drop i msg) = Some (ls, drop j msg) \<and> name' = foldl add_label name (map from_utf8_lossy ls) \<and>
     list_all (\<lambda>l. l \<noteq> []) ls \<and> i \<le> j \<and> j \<le> length msg"
proof (induction msg i name rule: qname_loop.induct)
  case (1 msg i name)
  from "1.prems" obtain b where b: "get msg i = Some b" by (subst (asm) qname_loop.simps) (auto split: option.splits)
  then have i: "i < length msg" "msg ! i = b" by (auto simp: get_def split: if_splits)
  then have d: "drop i msg = b # drop (i + 1) msg" by (metis Cons_nth_drop_Suc Suc_eq_plus1)
  show ?case
  proof (cases "code b = 0")
    case True
    with "1.prems" b i d show ?thesis by (subst (asm) qname_loop.simps) auto
  next
    case False
    from "1.prems" b False obtain l where np: "code b AND 0xc0 = 0" and l: "get_range msg (i + 1) (i + 1 + code b) = Some l"
      and rest: "qname_loop msg (i + 1 + code b) (add_label name (from_utf8_lossy l)) = Some (j, name')"
      by (subst (asm) qname_loop.simps) (auto simp: Let_def add_label_def split: if_splits option.splits)
    have len: "code b < 64" using no_pointer_small [OF _ np] by simp
    have le: "i + 1 + code b \<le> length msg" "l = take (code b) (drop (i + 1) msg)"
      using l by (auto simp: get_range_def split: if_splits)
    have nl: "l \<noteq> []" using le False by auto
    from "1.IH" [OF b refl False, of "if name \<noteq> [] then name @ ''.'' else name" l] np l rest obtain ls where
      "read_labels (drop (i + 1 + code b) msg) = Some (ls, drop j msg)" "list_all (\<lambda>l. l \<noteq> []) ls"
      "name' = foldl add_label (add_label name (from_utf8_lossy l)) (map from_utf8_lossy ls)" "i + 1 + code b \<le> j" "j \<le> length msg"
      by (auto simp: add_label_def [symmetric])
    with d len le nl False show ?thesis by (intro exI [of _ "l # ls"]) (simp add: add.commute)
  qed
qed

lemma from_utf8_lossy_not_Nil: "l \<noteq> [] \<Longrightarrow> from_utf8_lossy l \<noteq> []"
  using next_char_pos [of l] by (subst from_utf8_lossy.simps) (auto simp: replacement_def)

lemma parse_query_labels:
  assumes "parse_query request = Some q"
  obtains ls rest front t0 t1 c0 c1 where
    "read_labels (drop 12 request) = Some (ls, rest)"
    "dq_name q = to_lower (join_with ''.'' (map from_utf8_lossy ls))"
    "dq_question_raw q = front @ [t0, t1, c0, c1]" "\<And>tail. read_labels (front @ tail) = Some (ls, tail)"
    "from_be16 t0 t1 = dq_qtype q" "from_be16 c0 c1 = dq_qclass q"
proof -
  from assms obtain i name t0 t1 c0 c1 raw where
    loop: "qname_loop request 12 [] = Some (i, name)" and raw: "get_range request 12 (i + 4) = Some raw"
    and g: "get request i = Some t0" "get request (i + 1) = Some t1" "get request (i + 2) = Some c0" "get request (i + 3) = Some c1"
    and q: "dq_name q = to_lower name" "dq_qtype q = from_be16 t0 t1" "dq_qclass q = from_be16 c0 c1" "dq_question_raw q = raw"
    by (auto simp: parse_query_def Let_def split: if_splits option.splits prod.splits)
  from qname_loop_read [OF loop] obtain ls where
    ls: "read_labels (drop 12 request) = Some (ls, drop i request)" "list_all (\<lambda>l. l \<noteq> []) ls" "12 \<le> i" "i \<le> length request"
    and name: "name = foldl add_label [] (map from_utf8_lossy ls)" by blast
  have "name = join_with ''.'' (map from_utf8_lossy ls)"
    unfolding name using ls(2) by (cases ls) (auto simp: add_label_def foldl_add_label from_utf8_lossy_not_Nil)
  moreover obtain front where front: "drop 12 request = front @ drop i request"
    "\<forall>tail. read_labels (front @ tail) = Some (ls, tail)" using read_labels_front [OF ls(1)] by blast
  moreover have "raw = front @ [t0, t1, c0, c1]"
  proof -
    have four: "i + 3 < length request" using g(4) by (auto simp: get_def split: if_splits)
    then have "take 4 (drop i request) = [t0, t1, c0, c1]"
      using g by (auto simp: get_def take_Suc_conv_app_nth numeral_eq_Suc split: if_splits)
    moreover have "length front = i - 12"
      using arg_cong [OF front(1), of length] ls(3,4) by simp
    moreover have "raw = take (i - 12 + 4) (drop 12 request)"
      using raw ls(3) by (auto simp: get_range_def split: if_splits)
    ultimately show ?thesis unfolding front(1) by simp
  qed
  ultimately show thesis using that ls(1) q by auto
qed

section \<open>Responses\<close>

lemma encode_name_length: "length (encode_name name) \<le> length name + 2"
proof -
  have all: "length (concat (map (\<lambda>l. char_of (length l) # l) (split_on c s))) = length s + 1" for c and s :: string
  proof (induction s)
    case (Cons x xs)
    obtain y ys where "split_on c xs = y # ys" using split_on_not_Nil by (meson neq_Nil_conv)
    with Cons show ?case by auto
  qed simp
  have "length (concat (map (\<lambda>l. char_of (length l) # l) (filter P ls))) \<le> length (concat (map (\<lambda>l. char_of (length l) # l) ls))"
    for P and ls :: "string list" by (induction ls) auto
  from this [of "\<lambda>l. l \<noteq> []" "split_on CHR ''.'' name"] show ?thesis
    by (simp add: encode_name_def encode_labels_def all)
qed

lemma read_owner_pointer:
  "read_labels (drop 12 msg) = Some (ls, r) \<Longrightarrow> read_owner msg (CHR 0xc0 # CHR 0x0c # rest) = Some (ls, rest)"
  by simp

lemma type_bytes: "from_be16 (byte_of (0 :: u16)) (byte_of (1 :: u16)) = 1" "from_be16 (byte_of (0 :: u16)) (byte_of (5 :: u16)) = 5"
  using from_be16_be16 [of 1] from_be16_be16 [of 5] by simp_all

lemma read_rr_answer:
  assumes "answer_ok a" "read_labels (drop 12 msg) = Some (ls, r)"
  shows "read_rr msg (answer_bytes a @ rest) = Some (answer_rr ls a, rest)"
proof (cases a)
  case (Answer_A ip ttl)
  have "unat (from_be16 (byte_of (drop_bit 8 (4 :: u16))) (byte_of (4 :: u16))) = 4"
    unfolding from_be16_be16 by simp
  then show ?thesis
    using assms(2)
    by (simp add: Answer_A read_rr_def be16_def be32_def ip_octets_def from_be16_be16 from_be32_be32 Let_def read_rdata_def
        TYPE_A_def CLASS_IN_def type_bytes del: read_owner.simps add: read_owner_pointer)
next
  case (Answer_Cname name ttl)
  let ?n = "of_nat (length (encode_name name)) :: u16"
  have "unat ?n = length (encode_name name)"
    using assms(1) encode_name_length [of name] by (simp add: Answer_Cname unat_of_nat take_bit_nat_eq_self)
  moreover have "read_labels (encode_name name) = Some (filter (\<lambda>l. l \<noteq> []) (split_on CHR ''.'' name), [])"
    using assms(1) read_labels_encode [of "filter (\<lambda>l. l \<noteq> []) (split_on CHR ''.'' name)" "[]"]
    by (auto simp: Answer_Cname encode_name_def list_all_iff)
  ultimately show ?thesis
    using assms(2)
    by (simp add: Answer_Cname read_rr_def be16_def be32_def from_be16_be16 from_be32_be32 Let_def read_rdata_def
        TYPE_CNAME_def CLASS_IN_def type_bytes del: read_owner.simps add: read_owner_pointer)
qed

lemma read_rrs_answers:
  "list_all answer_ok as \<Longrightarrow> read_labels (drop 12 msg) = Some (ls, r) \<Longrightarrow>
   read_rrs msg (length as) (concat (map answer_bytes as)) = Some (map (answer_rr ls) as, [])"
  by (induction as) (simp_all add: read_rr_answer)

lemma header_bytes:
  obtains i0 i1 f0 f1 a0 a1 where
    "dns_header qid rd aa rc n =
       [i0, i1, f0, f1, CHR 0x00, CHR 0x01, a0, a1, CHR 0x00, CHR 0x00, CHR 0x00, CHR 0x00]"
    "from_be16 i0 i1 = qid" "from_be16 f0 f1 = dns_flags rd aa rc" "from_be16 a0 a1 = n"
proof -
  obtain a b where 1: "be16 qid = [a, b]" "from_be16 a b = qid" by (rule be16_bytes)
  obtain c d where 2: "be16 (dns_flags rd aa rc) = [c, d]" "from_be16 c d = dns_flags rd aa rc" by (rule be16_bytes)
  obtain e f where 3: "be16 n = [e, f]" "from_be16 e f = n" by (rule be16_bytes)
  show thesis by (rule that [of a b c d e f]) (simp_all add: dns_header_def 1 2 3)
qed

lemma flags_noerror:
  "bit (dns_flags rd aa RCODE_NOERROR) 15" "bit (dns_flags rd aa RCODE_NOERROR) 10 \<longleftrightarrow> aa"
  "bit (dns_flags rd aa RCODE_NOERROR) 8 \<longleftrightarrow> rd" "bit (dns_flags rd aa RCODE_NOERROR) 7"
  "take_bit 4 (dns_flags rd aa RCODE_NOERROR) = 0"
  by (cases aa; cases rd; simp add: dns_flags_def word_of_def RCODE_NOERROR_def)+

lemma read_build_response:
  assumes "parse_query request = Some q" "length answers < 2 ^ 16" "list_all answer_ok answers"
  obtains ls rest where "read_labels (drop 12 request) = Some (ls, rest)"
    "dq_name q = to_lower (join_with ''.'' (map from_utf8_lossy ls))"
    "read_response (build_response q answers aa) =
       Some \<lparr>rs_id = dq_id q, rs_authoritative = aa, rs_recursion_desired = dq_rd q, rs_recursion_available = True,
             rs_rcode = 0, rs_question = (ls, dq_qtype q, dq_qclass q), rs_answers = map (answer_rr ls) answers\<rparr>"
proof -
  from parse_query_labels [OF assms(1)] obtain ls rest front t0 t1 c0 c1 where
    ls: "read_labels (drop 12 request) = Some (ls, rest)" "dq_name q = to_lower (join_with ''.'' (map from_utf8_lossy ls))"
    and raw: "dq_question_raw q = front @ [t0, t1, c0, c1]" and tail: "\<And>tail. read_labels (front @ tail) = Some (ls, tail)"
    and ty: "from_be16 t0 t1 = dq_qtype q" "from_be16 c0 c1 = dq_qclass q" by blast
  obtain i0 i1 f0 f1 a0 a1 where h:
    "dns_header (dq_id q) (dq_rd q) aa RCODE_NOERROR (of_nat (length answers)) =
       [i0, i1, f0, f1, CHR 0x00, CHR 0x01, a0, a1, CHR 0x00, CHR 0x00, CHR 0x00, CHR 0x00]"
    and f: "from_be16 i0 i1 = dq_id q" "from_be16 f0 f1 = dns_flags (dq_rd q) aa RCODE_NOERROR"
      "from_be16 a0 a1 = of_nat (length answers)"
    by (rule header_bytes)
  have sections: "from_be16 (CHR 0x00) (CHR 0x01) = 1" "from_be16 (CHR 0x00) (CHR 0x00) = 0"
    by (simp_all add: from_be16_def word_of_def)
  have n: "unat (of_nat (length answers) :: u16) = length answers"
    using assms(2) by (simp add: unat_of_nat take_bit_nat_eq_self)
  define msg where "msg = build_response q answers aa"
  have msg: "msg = [i0, i1, f0, f1, CHR 0x00, CHR 0x01, a0, a1, CHR 0x00, CHR 0x00, CHR 0x00, CHR 0x00] @
      front @ t0 # t1 # c0 # c1 # concat (map answer_bytes answers)"
    by (simp add: msg_def build_response_def h raw)
  have "read_labels (drop 12 msg) = Some (ls, t0 # t1 # c0 # c1 # concat (map answer_bytes answers))"
    unfolding msg by (simp add: tail)
  from read_rrs_answers [OF assms(3) this] have "read_response msg =
       Some \<lparr>rs_id = dq_id q, rs_authoritative = aa, rs_recursion_desired = dq_rd q, rs_recursion_available = True,
             rs_rcode = 0, rs_question = (ls, dq_qtype q, dq_qclass q), rs_answers = map (answer_rr ls) answers\<rparr>"
    unfolding msg by (simp add: read_response_def Let_def sections f n tail ty flags_noerror)
  then show thesis using that ls msg_def by blast
qed

section \<open>Properties\<close>

text \<open>
  A query a client writes is read back: for labels of 1 to 63 bytes of text, whatever
  follows the question, the parser returns the identifier, the recursion flag, the lower-case
  dotted name, type and class, and the raw question.
\<close>

theorem dns_query_roundtrip:
  assumes "list_all label_ok ls"
  shows "parse_query (encode_query qid rd ls qtype qclass @ extra) =
    Some \<lparr>dq_id = qid, dq_rd = rd, dq_name = to_lower (join_with ''.'' ls), dq_qtype = qtype, dq_qclass = qclass,
          dq_question_raw = encode_question ls qtype qclass\<rparr>"
  using assms by (rule parse_encode_query)

theorem dns_query_roundtrip_witness:
  "list_all label_ok [''API'', ''example'', ''com''] \<and>
   map_option dq_name (parse_query (encode_query 7 True [''API'', ''example'', ''com''] 1 1 @ ''opt'')) = Some ''api.example.com''"
proof -
  have ok: "list_all label_ok [''API'', ''example'', ''com'']"
    by (simp add: label_ok_def utf8_valid_ascii)
  have "to_lower (join_with ''.'' [''API'', ''example'', ''com'']) = ''api.example.com''" by code_simp
  with ok dns_query_roundtrip [OF ok, of 7 True 1 1 "''opt''"] show ?thesis by simp
qed



text \<open>
  The length of a label is cut to a byte: a label of 300 bytes is announced with 44, and
  one of 64 bytes with the bits of a compression pointer.
\<close>

lemma encode_name_truncates: "hd (encode_name (replicate 300 CHR ''a'')) = CHR 0x2c"
proof -
  have "split_on CHR ''.'' (replicate 300 CHR ''a'') = [replicate 300 CHR ''a'']"
    by (rule split_on_fresh) simp
  moreover have "char_of (300 :: nat) = CHR 0x2c" by code_simp
  ultimately show ?thesis by (simp add: encode_name_def encode_labels_def)
qed

end
