(* ===== verification/Dns_Server.thy ===== *)
theory Dns_Server
  imports Matcher Dns_Wire
begin

text \<open>
  The DNS server: \<open>crates/hematite-dns/src/resolve.rs\<close> (the precedence of static records,
  passthrough zones and interception), \<open>server.rs\<close> (answering one request over UDP or TCP)
  and the part of \<open>crates/hematite/src/main.rs\<close> that builds its configuration. The exchange
  with the upstream resolver is a parameter: whether the socket took the datagram, and the one that came back, if it did in time.
  What is sent to the upstream resolver is part of what a request does.
\<close>

section \<open>Resolution\<close>

datatype static_record = Record_A u32 | Record_Cname string

record dns_config =
  dc_proxy_ip :: u32
  dc_passthrough :: "domain_glob list"
  dc_records :: "string \<rightharpoonup> static_record"
  dc_ttl :: u32

datatype decision = Decision_Answer "answer list" | Decision_EmptyNoError | Decision_Passthrough

definition normalize :: "string \<Rightarrow> string" where
  "normalize name = unwrap_or (strip_suffix ''.'' name) name"

definition resolve :: "dns_config \<Rightarrow> query \<Rightarrow> decision" where
  "resolve config q =
    (let name = normalize (dq_name q)
     in case dc_records config name of
          Some (Record_A ip) \<Rightarrow>
            if dq_qtype q = TYPE_A then Decision_Answer [Answer_A ip (dc_ttl config)] else Decision_EmptyNoError
        | Some (Record_Cname target) \<Rightarrow>
            if dq_qtype q = TYPE_CNAME \<or> dq_qtype q = TYPE_A
            then Decision_Answer [Answer_Cname target (dc_ttl config)] else Decision_EmptyNoError
        | None \<Rightarrow>
            if list_ex (\<lambda>g. DomainGlob_matches g name) (dc_passthrough config) then Decision_Passthrough
            else if dq_qtype q = TYPE_A then Decision_Answer [Answer_A (dc_proxy_ip config) (dc_ttl config)]
            else Decision_EmptyNoError)"

section \<open>The server\<close>

datatype dns_decision_kind = Kind_Static | Kind_Intercept | Kind_Passthrough | Kind_Error

datatype exchange = Not_Sent | Sent "bytes option"

type_synonym upstream_resolver = "bytes \<Rightarrow> exchange"

text \<open>
  The answer of the upstream resolver, and the datagrams sent to it. The socket may fail before it takes the datagram;
  \<open>recv\<close> fills a buffer of 4096 bytes: a longer datagram is cut.
\<close>

definition forward :: "upstream_resolver \<Rightarrow> bytes \<Rightarrow> bytes option \<times> bytes list" where
  "forward upstream request =
    (case upstream request of
       Not_Sent \<Rightarrow> (None, [])
     | Sent reply \<Rightarrow> (map_option (take 4096) reply, [request]))"

definition local_kind :: "dns_config \<Rightarrow> query \<Rightarrow> dns_decision_kind" where
  "local_kind config q =
    (if dc_records config (unwrap_or (strip_suffix ''.'' (dq_name q)) (dq_name q)) \<noteq> None
     then Kind_Static else Kind_Intercept)"

text \<open>The response with the decision reported to the callback, and the datagrams sent upstream.\<close>

definition respond ::
  "dns_config \<Rightarrow> upstream_resolver \<Rightarrow> bytes \<Rightarrow> (bytes \<times> dns_decision_kind) option \<times> bytes list" where
  "respond config upstream request =
    (case parse_query request of
       None \<Rightarrow> (None, [])
     | Some q \<Rightarrow>
         (case resolve config q of
            Decision_Answer answers \<Rightarrow> (Some (build_response q answers True, local_kind config q), [])
          | Decision_EmptyNoError \<Rightarrow> (Some (build_empty_noerror q True, local_kind config q), [])
          | Decision_Passthrough \<Rightarrow>
              (case forward upstream request of
                 (Some response, sent) \<Rightarrow> (Some (response, Kind_Passthrough), sent)
               | (None, sent) \<Rightarrow> (Some (build_servfail q, Kind_Error), sent))))"

text \<open>One datagram: the receive buffer holds 4096 bytes.\<close>

definition serve_udp_datagram ::
  "dns_config \<Rightarrow> upstream_resolver \<Rightarrow> bytes \<Rightarrow> (bytes \<times> dns_decision_kind) option \<times> bytes list" where
  "serve_udp_datagram config upstream datagram = respond config upstream (take 4096 datagram)"

text \<open>
  One connection: the request is as many bytes as the first two say, if the client sends them; the response is
  written back behind its length.
\<close>

definition framed :: "bytes \<Rightarrow> bytes option" where
  "framed input =
    (case input of
       l0 # l1 # rest \<Rightarrow> (let len = unat (from_be16 l0 l1) in if length rest < len then None else Some (take len rest))
     | _ \<Rightarrow> None)"

definition serve_tcp_stream ::
  "dns_config \<Rightarrow> upstream_resolver \<Rightarrow> bytes \<Rightarrow> (bytes \<times> dns_decision_kind) option \<times> bytes list" where
  "serve_tcp_stream config upstream input =
    (case framed input of
       None \<Rightarrow> (None, [])
     | Some request \<Rightarrow>
         (case respond config upstream request of
            (Some (response, kind), sent) \<Rightarrow> (Some (be16 (of_nat (length response)) @ response, kind), sent)
          | (None, sent) \<Rightarrow> (None, sent)))"

section \<open>Configuration\<close>

text \<open>The \<open>DnsResolved\<close> fields that \<open>spawn_dns\<close> turns into the server's configuration.\<close>

record dns_resolved =
  dr_listen :: string
  dr_proxy_ip :: u32
  dr_upstream_resolver :: string
  dr_passthrough :: "string list"
  dr_records :: "(string \<times> string \<times> string) list"

definition trim_end_dots :: "string \<Rightarrow> string" where
  "trim_end_dots s = rev (dropWhile (\<lambda>c. c = CHR ''.'') (rev s))"

definition parse_record :: "string \<Rightarrow> string \<Rightarrow> message + static_record" where
  "parse_record rtype val =
    (if rtype = ''A'' then
       and_then (ok_or [Lit ''bad A value '', Debug val] (parse_ipv4 val)) (\<lambda>ip. Inr (Record_A ip))
     else if rtype = ''CNAME'' then Inr (Record_Cname (to_lower (trim_end_dots val)))
     else Inl [Lit ''unsupported record type '', Debug rtype])"

fun insert_records ::
  "(string \<times> string \<times> string) list \<Rightarrow> (string \<rightharpoonup> static_record) \<Rightarrow> message + (string \<rightharpoonup> static_record)" where
  "insert_records [] m = Inr m"
| "insert_records ((name, rtype, val) # rs) m =
    and_then (parse_record rtype val) (\<lambda>r. insert_records rs (m(to_lower (trim_end_dots name) \<mapsto> r)))"

fun match_error_text :: "match_config_error \<Rightarrow> message" where
  "match_error_text (MatchConfigError m) = Lit ''invalid matcher: '' # m"

text \<open>\<open>spawn_dns\<close> up to the sockets; parsing a socket address is the standard library's.\<close>

definition dns_config_of :: "(string \<Rightarrow> 'addr option) \<Rightarrow> dns_resolved \<Rightarrow> message + (dns_config \<times> 'addr)" where
  "dns_config_of parse_addr dns =
    and_then (insert_records (dr_records dns) Map.empty) (\<lambda>records.
    and_then (try_collect (\<lambda>g. map_err match_error_text (DomainGlob_parse g)) (dr_passthrough dns)) (\<lambda>passthrough.
    and_then (ok_or [Lit ''bad upstream_resolver '', Debug (dr_upstream_resolver dns)]
        (parse_addr (dr_upstream_resolver dns))) (\<lambda>upstream.
    Inr (\<lparr>dc_proxy_ip = dr_proxy_ip dns, dc_passthrough = passthrough, dc_records = records, dc_ttl = 60\<rparr>, upstream))))"

definition listen_addr :: "string \<Rightarrow> string" where
  "listen_addr key = (if prefix '':'' key then ''0.0.0.0'' @ key else key)"

section \<open>Properties\<close>

text \<open>The zones whose queries may leave the machine.\<close>

definition may_forward :: "dns_config \<Rightarrow> string \<Rightarrow> bool" where
  "may_forward config name \<longleftrightarrow>
    dc_records config (normalize name) = None \<and> (\<exists>g \<in> set (dc_passthrough config). glob_labels g (normalize name))"

lemma resolve_passthrough: "resolve config q = Decision_Passthrough \<longleftrightarrow> may_forward config (dq_name q)"
  by (auto simp: resolve_def may_forward_def Let_def list_ex_iff DomainGlob_matches_labels
      split: option.splits static_record.splits)

lemma respond_sends:
  assumes "respond config upstream request = (answer, sent)" "r \<in> set sent"
  shows "r = request \<and> (\<exists>q. parse_query r = Some q \<and> may_forward config (dq_name q))"
  using assms
  by (auto simp: respond_def forward_def resolve_passthrough [symmetric] split: option.splits decision.splits exchange.splits)

text \<open>
  C14. Only the passthrough zones reach the upstream resolver: a datagram is sent there only for a query
  whose first question asks for a name in a zone and without a static record, and then it is the client's
  request, once. For any other request nothing is sent, and the answer is the same whatever the upstream would say.
  The name that is looked at is that of the first question; a request goes out with all it holds.
\<close>

theorem dns_no_leak:
  "case respond config upstream request of (answer, sent) \<Rightarrow>
    (case parse_query request of
       None \<Rightarrow> answer = None \<and> sent = []
     | Some q \<Rightarrow>
         if may_forward config (dq_name q) then sent = (if upstream request = Not_Sent then [] else [request])
         else sent = [] \<and> (\<forall>other. respond config other request = (answer, [])))"
  by (auto simp: respond_def forward_def resolve_passthrough [symmetric] split: option.split decision.split exchange.split)

definition example_dns :: dns_config where
  "example_dns =
    \<lparr>dc_proxy_ip = 0x0A000001, dc_passthrough = [\<lparr>dg_suffix = ''corp'', dg_wildcard = True\<rparr>],
     dc_records = [''static.test'' \<mapsto> Record_A 0x7F000001], dc_ttl = 60\<rparr>"

theorem dns_no_leak_witness:
  "let request = encode_query 1 True [''evil'', ''com''] TYPE_A CLASS_IN
   in \<not> may_forward example_dns ''evil.com'' \<and> snd (respond example_dns (\<lambda>_. Sent (Some ''x'')) request) = []"
proof -
  let ?request = "encode_query 1 True [''evil'', ''com''] TYPE_A CLASS_IN"
  have ok: "list_all label_ok [''evil'', ''com'']" by (simp add: label_ok_def utf8_valid_ascii)
  have n: "to_lower (join_with ''.'' [''evil'', ''com'']) = ''evil.com''" by code_simp
  have m: "\<not> may_forward example_dns ''evil.com''"
    unfolding may_forward_def example_dns_def by code_simp
  from parse_encode_query [OF ok, of 1 True TYPE_A CLASS_IN "[]"] n obtain q where
    q: "parse_query ?request = Some q" "dq_name q = ''evil.com''" by simp
  from dns_no_leak [of example_dns "\<lambda>_. Sent (Some ''x'')" ?request] m q show ?thesis
    by (auto simp: Let_def split: prod.splits)
qed

text \<open>
  A second question is not looked at: behind a name in a zone, a name that is to be intercepted goes out.
\<close>

definition two_questions :: bytes where
  "two_questions =
    be16 1 @ be16 0 @ be16 2 @ be16 0 @ be16 0 @ be16 0
    @ encode_question [''a'', ''corp''] TYPE_A CLASS_IN @ encode_question [''evil'', ''com''] TYPE_A CLASS_IN"

lemma second_question_leaks:
  "\<not> may_forward example_dns ''evil.com''"
  "snd (respond example_dns (\<lambda>_. Sent None) two_questions) = [two_questions]"
  "suffix (encode_question [''evil'', ''com''] TYPE_A CLASS_IN) two_questions"
proof -
  show "\<not> may_forward example_dns ''evil.com''" unfolding may_forward_def example_dns_def by code_simp
  show "snd (respond example_dns (\<lambda>_. Sent None) two_questions) = [two_questions]" by code_simp
qed (simp add: two_questions_def suffix_def)

text \<open>
  C32. Every name outside the static records and the passthrough zones is intercepted: an
  address query is answered with the address of the proxy under the name asked for and nothing else, a query of any other type
  with no answer and no error, the answer carries the identifier of the query, and nothing is sent upstream.
\<close>

theorem dns_intercepts:
  assumes "parse_query request = Some q" and "dc_records config (normalize (dq_name q)) = None"
    and "\<not> may_forward config (dq_name q)"
  shows "\<exists>msg ls rest. respond config upstream request = (Some (msg, Kind_Intercept), []) \<and>
    read_labels (drop 12 request) = Some (ls, rest) \<and>
    read_response msg =
      Some \<lparr>rs_id = dq_id q, rs_authoritative = True, rs_recursion_desired = dq_rd q, rs_recursion_available = True,
            rs_rcode = 0, rs_question = (ls, dq_qtype q, dq_qclass q),
            rs_answers = (if dq_qtype q = TYPE_A
              then [\<lparr>rr_owner = ls, rr_type = TYPE_A, rr_class = CLASS_IN, rr_ttl = dc_ttl config,
                     rr_data = Rd_Address (dc_proxy_ip config)\<rparr>] else [])\<rparr>"
proof -
  define answers where
    "answers = (if dq_qtype q = TYPE_A then [Answer_A (dc_proxy_ip config) (dc_ttl config)] else [])"
  have r: "respond config upstream request = (Some (build_response q answers True, Kind_Intercept), [])"
    using assms resolve_passthrough [of config q]
    by (auto simp: respond_def resolve_def Let_def local_kind_def normalize_def answers_def build_empty_noerror_def
        split: if_splits)
  have "length answers < 2 ^ 16" "list_all answer_ok answers" by (simp_all add: answers_def)
  then obtain ls rest where "read_labels (drop 12 request) = Some (ls, rest)"
    "read_response (build_response q answers True) =
       Some \<lparr>rs_id = dq_id q, rs_authoritative = True, rs_recursion_desired = dq_rd q, rs_recursion_available = True,
             rs_rcode = 0, rs_question = (ls, dq_qtype q, dq_qclass q), rs_answers = map (answer_rr ls) answers\<rparr>"
    by (rule read_build_response [OF assms(1)])
  with r show ?thesis by (auto simp: answers_def TYPE_A_def CLASS_IN_def)
qed

theorem dns_intercepts_witness:
  "\<exists>msg. respond example_dns (\<lambda>_. Not_Sent) (encode_query 1 True [''evil'', ''com''] TYPE_A CLASS_IN) =
      (Some (msg, Kind_Intercept), []) \<and>
     map_option (map rr_data \<circ> rs_answers) (read_response msg) = Some [Rd_Address 0x0A000001]"
proof -
  have ok: "list_all label_ok [''evil'', ''com'']" by (simp add: label_ok_def utf8_valid_ascii)
  have n: "to_lower (join_with ''.'' [''evil'', ''com'']) = ''evil.com''" by code_simp
  have m: "\<not> may_forward example_dns ''evil.com''" "dc_records example_dns (normalize ''evil.com'') = None"
    unfolding may_forward_def example_dns_def by code_simp+
  from parse_encode_query [OF ok, of 1 True TYPE_A CLASS_IN "[]"] n obtain q where
    q: "parse_query (encode_query 1 True [''evil'', ''com''] TYPE_A CLASS_IN) = Some q" "dq_name q = ''evil.com''" "dq_qtype q = TYPE_A"
    by simp
  have "dc_proxy_ip example_dns = 0x0A000001" by (simp add: example_dns_def)
  with dns_intercepts [OF q(1), of example_dns "\<lambda>_. Not_Sent"] m q(2,3) show ?thesis by auto
qed

text \<open>
  Over TCP a request in its length frame is answered with a length frame the client can
  decode: the two bytes are the length of the response that follows, for every response a
  frame can hold.
\<close>

lemma framed_request: "length request < 2 ^ 16 \<Longrightarrow> framed (be16 (of_nat (length request)) @ request @ extra) = Some request"
proof -
  assume "length request < 2 ^ 16"
  then have "unat (of_nat (length request) :: u16) = length request" by (simp add: unat_of_nat take_bit_nat_eq_self)
  moreover obtain a b where "be16 (of_nat (length request)) = [a, b]" "from_be16 a b = of_nat (length request)"
    by (rule be16_bytes)
  ultimately show ?thesis by (simp add: framed_def Let_def)
qed

theorem dns_tcp_framing:
  assumes "length request < 2 ^ 16" and "respond config upstream request = (Some (response, kind), sent)"
    and "length response < 2 ^ 16"
  shows "\<exists>l0 l1. serve_tcp_stream config upstream (be16 (of_nat (length request)) @ request @ extra) =
      (Some (l0 # l1 # response, kind), sent) \<and> unat (from_be16 l0 l1) = length response"
proof -
  obtain c d where "be16 (of_nat (length response)) = [c, d]" "from_be16 c d = of_nat (length response)"
    by (rule be16_bytes)
  with assms show ?thesis
    by (simp add: serve_tcp_stream_def framed_request unat_of_nat take_bit_nat_eq_self)
qed

theorem dns_tcp_framing_witness:
  "\<exists>l0 l1 response kind. serve_tcp_stream example_dns (\<lambda>_. Not_Sent)
      (be16 (of_nat (length (encode_query 1 True [''evil'', ''com''] TYPE_A CLASS_IN)))
       @ encode_query 1 True [''evil'', ''com''] TYPE_A CLASS_IN @ []) = (Some (l0 # l1 # response, kind), []) \<and>
    unat (from_be16 l0 l1) = length response"
proof -
  let ?request = "encode_query 1 True [''evil'', ''com''] TYPE_A CLASS_IN"
  have "map_prod (map_option (\<lambda>(r, _). length r < 2 ^ 16)) length (respond example_dns (\<lambda>_. Not_Sent) ?request) = (Some True, 0)"
    "length ?request < 2 ^ 16"
    by code_simp+
  then obtain response kind where "respond example_dns (\<lambda>_. Not_Sent) ?request = (Some (response, kind), [])"
    "length response < 2 ^ 16" "length ?request < 2 ^ 16" by (cases "respond example_dns (\<lambda>_. Not_Sent) ?request") auto
  from dns_tcp_framing [OF this(3,1,2), of "[]"] show ?thesis by blast
qed

text \<open>The frame of a response that does not fit announces its length modulo \<open>2 ^ 16\<close>.\<close>

lemma dns_tcp_frame_wraps:
  assumes "respond config upstream request = (Some (response, kind), sent)" and "length request < 2 ^ 16"
    and "serve_tcp_stream config upstream (be16 (of_nat (length request)) @ request @ extra) = (Some (l0 # l1 # out, kind'), sent')"
  shows "unat (from_be16 l0 l1) = length response mod 2 ^ 16"
proof -
  obtain c d where "be16 (of_nat (length response)) = [c, d]" "from_be16 c d = of_nat (length response)"
    by (rule be16_bytes)
  with assms show ?thesis by (auto simp: serve_tcp_stream_def framed_request unat_of_nat take_bit_eq_mod)
qed

end
