(* ===== verification/Proxy_Config.thy ===== *)
theory Proxy_Config
  imports Kernel_Config Proxy_State Leaf_Cache Resolver Dns_Server "HOL-Library.AList"
begin

text \<open>
  The configuration of the proxy, \<open>crates/hematite-proxy/src/config.rs\<close>: the sections of the file, the
  environment overrides, the load order with its defaults and validation, and the compilation into
  a runtime with the check that no transform is shadowed by a passthrough domain. The YAML and
  JSON libraries, the file system and the native certificate store are parameters.
\<close>

declare map_eq_Cons_D [rule del] Cons_eq_map_D [rule del]

section \<open>Definitions\<close>

subsection \<open>YAML\<close>

datatype yaml_float = Finite f64 | Infinite bool | NaN

datatype yaml =
    Y_Null
  | Y_Bool bool
  | Y_Int int
  | Y_Float yaml_float
  | Y_String string
  | Y_Seq "yaml list"
  | Y_Map "(yaml \<times> yaml) list"
  | Y_Tagged string yaml

subsection \<open>The sections of the file\<close>

record otlp_section =
  ot_enabled :: bool
  ot_endpoint :: "string option"
  ot_sample_ratio :: yaml_float
  ot_service_name :: string

definition OtlpSection_default :: otlp_section where
  "OtlpSection_default =
    \<lparr>ot_enabled = False, ot_endpoint = None, ot_sample_ratio = Finite 1, ot_service_name = ''hematite''\<rparr>"

record observability_section =
  ob_metrics_enabled :: bool
  ob_log_format :: string
  ob_otlp :: otlp_section

definition ObservabilitySection_default :: observability_section where
  "ObservabilitySection_default =
    \<lparr>ob_metrics_enabled = True, ob_log_format = ''json'', ob_otlp = OtlpSection_default\<rparr>"

record transform_spec_yaml =
  ty_name :: string
  ty_config :: yaml

record dns_record_section =
  dn_name :: string
  dn_record_type :: string
  dn_value :: string

record dns_section =
  ds_enabled :: bool
  ds_listen :: "string option"
  ds_proxy_ip :: "string option"
  ds_upstream_resolver :: "string option"
  ds_passthrough :: "string list"
  ds_records :: "dns_record_section list"

record proxy_section =
  px_http_listen :: "string option"
  px_https_listen :: "string option"
  px_tunnel_listen :: "string option"
  px_max_request_body_bytes :: "nat option"
  px_max_response_body_bytes :: "nat option"
  px_upstream_response_header_timeout :: "string option"
  px_upstream_deny_cidrs :: "string list option"
  px_http_proxy :: "string option"
  px_https_proxy :: "string option"
  px_no_proxy :: "string option"
  px_tunnel_passthrough_domains :: "string list option"

definition ProxySection_default :: proxy_section where
  "ProxySection_default =
    \<lparr>px_http_listen = None, px_https_listen = None, px_tunnel_listen = None, px_max_request_body_bytes = None,
     px_max_response_body_bytes = None, px_upstream_response_header_timeout = None,
     px_upstream_deny_cidrs = None, px_http_proxy = None, px_https_proxy = None, px_no_proxy = None,
     px_tunnel_passthrough_domains = None\<rparr>"

record tls_section =
  tl_ca_cert :: string
  tl_ca_key :: string
  tl_cert_cache_size :: "nat option"
  tl_leaf_cert_expiry_hours :: "u64 option"

record management_section =
  mg_listen :: string
  mg_api_key_env :: "string option"

record log_section =
  lg_level :: "string option"

record raw_config =
  rw_dns :: "dns_section option"
  rw_proxy :: proxy_section
  rw_tls :: "tls_section option"
  rw_transforms :: "transform_spec_yaml list"
  rw_management :: "management_section option"
  rw_log :: "log_section option"
  rw_observability :: observability_section

text \<open>
  The \<open>serde\<close> crates: reading YAML, decoding a value into the sections (with their defaults, and
  rejecting unknown keys), converting a value to JSON, and the float parser.
\<close>

record serde =
  sd_from_str :: "string \<Rightarrow> string + yaml"
  sd_from_value :: "yaml \<Rightarrow> string + raw_config"
  sd_to_json :: "yaml \<Rightarrow> string + json"
  sd_parse_f64 :: "string \<Rightarrow> yaml_float option"

subsection \<open>The resolved configuration\<close>

datatype load_error = LoadError message

fun from_config_error :: "config_error \<Rightarrow> load_error" where
  "from_config_error (ConfigError m) = LoadError (Lit ''config error: '' # m)"

fun from_guard_error :: "match_config_error \<Rightarrow> load_error" where
  "from_guard_error (MatchConfigError m) = LoadError (Lit ''invalid matcher: '' # m)"

record listen_keys =
  lk_http :: string
  lk_https :: "string option"
  lk_tunnel :: "string option"
  lk_dns :: "string option"
  lk_management :: "string option"

record tls_resolved =
  tr_ca_cert :: string
  tr_ca_key :: string
  tr_cert_cache_size :: nat
  tr_leaf_cert_expiry_hours :: u64

record config =
  cf_listen :: listen_keys
  cf_max_request_body_bytes :: nat
  cf_max_response_body_bytes :: nat
  cf_upstream_response_header_timeout :: nat
  cf_upstream_deny_cidrs :: "string list option"
  cf_management_api_key :: "string option"
  cf_log_level :: string
  cf_tls :: "tls_resolved option"
  cf_dns :: "dns_resolved option"
  cf_transforms :: "transform_spec list"
  cf_tunnel_passthrough_domains :: "string list"
  cf_warnings :: "string list"
  cf_observability :: observability_section

subsection \<open>Environment overrides\<close>

definition ENV_KEYS :: "string list" where
  "ENV_KEYS =
    [''dns.enabled'', ''dns.listen'', ''dns.proxy_ip'', ''dns.upstream_resolver'', ''proxy.http_listen'',
     ''proxy.https_listen'', ''proxy.tunnel_listen'', ''proxy.max_request_body_bytes'',
     ''proxy.max_response_body_bytes'', ''proxy.upstream_response_header_timeout'', ''proxy.http_proxy'',
     ''proxy.https_proxy'', ''proxy.no_proxy'', ''tls.ca_cert'', ''tls.ca_key'', ''tls.cert_cache_size'',
     ''tls.leaf_cert_expiry_hours'', ''management.listen'', ''management.api_key_env'', ''log.level'',
     ''observability.metrics.enabled'', ''observability.log.format'', ''observability.otlp.enabled'',
     ''observability.otlp.endpoint'', ''observability.otlp.sample_ratio'', ''observability.otlp.service_name'']"

definition env_name :: "string \<Rightarrow> string" where
  "env_name path = ''HEMATITE_'' @ map (\<lambda>c. if c = CHR ''.'' then CHR ''_'' else c) (to_upper path)"

text \<open>
  Writing a value at a path: missing sections are created; \<^const>\<open>None\<close> when something on
  the way is not a mapping. The mapping keeps the position of a key that is there.
\<close>

fun set_path :: "string list \<Rightarrow> yaml \<Rightarrow> yaml \<Rightarrow> yaml option" where
  "set_path [leaf] v (Y_Map m) = Some (Y_Map (AList.update (Y_String leaf) v m))"
| "set_path (seg # rest) v (Y_Map m) =
    map_option (\<lambda>sub. Y_Map (AList.update (Y_String seg) sub m))
      (set_path rest v (case map_of m (Y_String seg) of Some sub \<Rightarrow> sub | None \<Rightarrow> Y_Map []))"
| "set_path _ _ _ = None"

definition F64_PATHS :: "string list" where
  "F64_PATHS = [''observability.otlp.sample_ratio'']"

definition typed_scalar :: "(string \<Rightarrow> yaml_float option) \<Rightarrow> string \<Rightarrow> string \<Rightarrow> yaml" where
  "typed_scalar f64_of path raw =
    (if raw = ''true'' then Y_Bool True
     else if raw = ''false'' then Y_Bool False
     else if path \<in> set F64_PATHS then (case f64_of raw of Some f \<Rightarrow> Y_Float f | None \<Rightarrow> Y_String raw)
     else case parse_u64 raw of
            Some n \<Rightarrow> Y_Int (int n)
          | None \<Rightarrow> (case f64_of raw of Some f \<Rightarrow> Y_Float f | None \<Rightarrow> Y_String raw))"

text \<open>A path that leads through something else than a mapping ends the whole loop.\<close>

fun override_loop ::
  "(string \<Rightarrow> yaml_float option) \<Rightarrow> (string \<Rightarrow> string option) \<Rightarrow> string list \<Rightarrow> yaml \<Rightarrow> yaml" where
  "override_loop f64_of env [] val = val"
| "override_loop f64_of env (path # paths) val =
    (case env (env_name path) of
       None \<Rightarrow> override_loop f64_of env paths val
     | Some raw \<Rightarrow>
         (case set_path (split_on CHR ''.'' path) (typed_scalar f64_of path raw) val of
            None \<Rightarrow> val
          | Some val' \<Rightarrow> override_loop f64_of env paths val'))"

definition apply_env_overrides ::
  "(string \<Rightarrow> yaml_float option) \<Rightarrow> (string \<Rightarrow> string option) \<Rightarrow> yaml \<Rightarrow> yaml" where
  "apply_env_overrides f64_of env val = override_loop f64_of env ENV_KEYS val"

subsection \<open>Loading\<close>

definition parse_duration_key :: "string \<Rightarrow> load_error + nat" where
  "parse_duration_key s0 =
    (let s = trim s0;
         (digits, unit) = (if list_ex (\<lambda>c. \<not> is_digit c) s
                           then (takeWhile is_digit s, dropWhile is_digit s) else (s, ''s''))
     in and_then (ok_or (LoadError [Lit ''invalid duration: '', Debug s]) (parse_u64 digits)) (\<lambda>n.
        if unit = ''ms'' then Inr (n * 10 ^ 6)
        else if unit = ''s'' then Inr (n * 10 ^ 9)
        else if unit = ''m'' then Inr (n * 60 mod 2 ^ 64 * 10 ^ 9)
        else Inl (LoadError [Lit ''invalid duration unit: '', Debug s])))"

definition ListenKeys_of :: "raw_config \<Rightarrow> listen_keys" where
  "ListenKeys_of raw =
    \<lparr>lk_http = unwrap_or (px_http_listen (rw_proxy raw)) '':80'',
     lk_https = px_https_listen (rw_proxy raw),
     lk_tunnel = px_tunnel_listen (rw_proxy raw),
     lk_dns = (case rw_dns raw of
                 Some d \<Rightarrow> if ds_enabled d then Some (unwrap_or (ds_listen d) '':53'') else None
               | None \<Rightarrow> None),
     lk_management = map_option mg_listen (rw_management raw)\<rparr>"

fun check_records :: "dns_record_section list \<Rightarrow> load_error + unit" where
  "check_records [] = Inr ()"
| "check_records (r # rs) =
    (if dn_record_type r \<noteq> ''A'' \<and> dn_record_type r \<noteq> ''CNAME''
     then Inl (LoadError [Lit ''dns record type '', Debug (dn_record_type r),
                          Lit ('' is not A or CNAME (Part 06 '' @ section_sign @ ''2)'')])
     else check_records rs)"

definition validate_dns :: "raw_config \<Rightarrow> load_error + unit" where
  "validate_dns raw =
    (case rw_dns raw of
       None \<Rightarrow> Inr ()
     | Some d \<Rightarrow>
         if \<not> ds_enabled d then Inr ()
         else (case ds_proxy_ip d of
                 None \<Rightarrow> Inl (LoadError [Lit ''dns.proxy_ip is required when DNS is enabled''])
               | Some ip \<Rightarrow>
                   if parse_ipv4 ip = None then Inl (LoadError [Lit ''dns.proxy_ip must be IPv4: '', Debug ip])
                   else check_records (ds_records d)))"

definition validate_tls :: "raw_config \<Rightarrow> load_error + unit" where
  "validate_tls raw =
    (if (lk_https (ListenKeys_of raw) \<noteq> None \<or> lk_tunnel (ListenKeys_of raw) \<noteq> None) \<and> rw_tls raw = None
     then Inl (LoadError [Lit ''tls.ca_cert and tls.ca_key are required when the HTTPS or tunnel listener is enabled''])
     else Inr ())"

definition validate_guard :: "raw_config \<Rightarrow> load_error + unit" where
  "validate_guard raw =
    (case px_upstream_deny_cidrs (rw_proxy raw) of
       None \<Rightarrow> Inr ()
     | Some cidrs \<Rightarrow> and_then (map_err from_guard_error (Guard_new cidrs)) (\<lambda>_. Inr ()))"

fun in_unit_interval :: "yaml_float \<Rightarrow> bool" where
  "in_unit_interval (Finite r) \<longleftrightarrow> 0 \<le> r \<and> r \<le> 1"
| "in_unit_interval _ \<longleftrightarrow> False"

definition validate_observability :: "raw_config \<Rightarrow> load_error + unit" where
  "validate_observability raw =
    (let obs = rw_observability raw
     in if ot_enabled (ob_otlp obs) \<and> ot_endpoint (ob_otlp obs) = None
        then Inl (LoadError [Lit ''observability.otlp.endpoint is required when observability.otlp.enabled''])
        else if \<not> in_unit_interval (ot_sample_ratio (ob_otlp obs))
        then Inl (LoadError [Lit ''observability.otlp.sample_ratio must be within 0.0..=1.0''])
        else if ob_log_format obs \<noteq> ''json'' \<and> ob_log_format obs \<noteq> ''text''
        then Inl (LoadError [Lit ''observability.log.format must be \"json\" or \"text\"''])
        else Inr ())"

definition management_key :: "(string \<Rightarrow> string option) \<Rightarrow> raw_config \<Rightarrow> load_error + string option" where
  "management_key env raw =
    (case rw_management raw of
       None \<Rightarrow> Inr None
     | Some m \<Rightarrow>
         (let var = unwrap_or (mg_api_key_env m) ''HEMATITE_MANAGEMENT_API_KEY'';
              err = Inl (LoadError [Lit ''management.listen is set but env var '', Debug var,
                                    Lit '' is empty or unset''])
          in case env var of Some key \<Rightarrow> if key \<noteq> [] then Inr (Some key) else err | None \<Rightarrow> err))"

definition yaml_to_json :: "serde \<Rightarrow> yaml \<Rightarrow> load_error + json" where
  "yaml_to_json sd v = map_err (\<lambda>e. LoadError [Lit ''transform config: '', Disp e]) (sd_to_json sd v)"

definition transform_specs :: "serde \<Rightarrow> raw_config \<Rightarrow> load_error + transform_spec list" where
  "transform_specs sd raw =
    try_collect (\<lambda>t. and_then (yaml_to_json sd (ty_config t)) (\<lambda>j. Inr \<lparr>ts_name = ty_name t, ts_config = j\<rparr>))
      (rw_transforms raw)"

definition TlsResolved_of :: "tls_section \<Rightarrow> tls_resolved" where
  "TlsResolved_of t =
    \<lparr>tr_ca_cert = tl_ca_cert t, tr_ca_key = tl_ca_key t, tr_cert_cache_size = unwrap_or (tl_cert_cache_size t) 1000,
     tr_leaf_cert_expiry_hours = unwrap_or (tl_leaf_cert_expiry_hours t) 72\<rparr>"

text \<open>The two \<open>unwrap\<close>s are on what validation has established.\<close>

definition DnsResolved_of :: "dns_section \<Rightarrow> dns_resolved" where
  "DnsResolved_of d =
    \<lparr>dr_listen = unwrap_or (ds_listen d) '':53'', dr_proxy_ip = the (parse_ipv4 (the (ds_proxy_ip d))),
     dr_upstream_resolver = unwrap_or (ds_upstream_resolver d) ''1.1.1.1:53'', dr_passthrough = ds_passthrough d,
     dr_records = map (\<lambda>r. (dn_name r, dn_record_type r, dn_value r)) (ds_records d)\<rparr>"

definition resolve_raw ::
  "serde \<Rightarrow> decoders \<Rightarrow> regex_builder \<Rightarrow> (string \<Rightarrow> string option) \<Rightarrow> raw_config \<Rightarrow> load_error + config" where
  "resolve_raw sd de re_build env raw =
    and_then (map_transpose parse_duration_key (px_upstream_response_header_timeout (rw_proxy raw))) (\<lambda>timeout.
    and_then (validate_dns raw) (\<lambda>_.
    and_then (validate_tls raw) (\<lambda>_.
    and_then (validate_guard raw) (\<lambda>_.
    and_then (validate_observability raw) (\<lambda>_.
    and_then (management_key env raw) (\<lambda>management_api_key.
    and_then (transform_specs sd raw) (\<lambda>transforms.
    and_then (map_err from_config_error (build_pipeline_with_resolver de re_build transforms EnvFileResolver)) (\<lambda>built.
    Inr \<lparr>cf_listen = ListenKeys_of raw,
         cf_max_request_body_bytes = unwrap_or (px_max_request_body_bytes (rw_proxy raw)) (2 ^ 20),
         cf_max_response_body_bytes = unwrap_or (px_max_response_body_bytes (rw_proxy raw)) 0,
         cf_upstream_response_header_timeout = unwrap_or timeout (30 * 10 ^ 9),
         cf_upstream_deny_cidrs = px_upstream_deny_cidrs (rw_proxy raw),
         cf_management_api_key = management_api_key,
         cf_log_level = unwrap_or (Option.bind (rw_log raw) lg_level) ''info'',
         cf_tls = map_option TlsResolved_of (rw_tls raw),
         cf_dns = (case rw_dns raw of Some d \<Rightarrow> if ds_enabled d then Some (DnsResolved_of d) else None | None \<Rightarrow> None),
         cf_transforms = transforms,
         cf_tunnel_passthrough_domains = unwrap_or (px_tunnel_passthrough_domains (rw_proxy raw)) [],
         cf_warnings = bu_warnings built,
         cf_observability = rw_observability raw\<rparr>))))))))"

definition load_str ::
  "serde \<Rightarrow> decoders \<Rightarrow> regex_builder \<Rightarrow> (string \<Rightarrow> string option) \<Rightarrow> string \<Rightarrow> load_error + config" where
  "load_str sd de re_build env text =
    and_then (map_err (\<lambda>e. LoadError [Lit ''YAML parse error: '', Disp e]) (sd_from_str sd text)) (\<lambda>parsed.
      let val = (if parsed = Y_Null then Y_Map [] else parsed)
      in and_then (map_err (\<lambda>e. LoadError [Lit ''config error: '', Disp e])
                    (sd_from_value sd (apply_env_overrides (sd_parse_f64 sd) env val)))
           (resolve_raw sd de re_build env))"

subsection \<open>Compiling a runtime\<close>

fun rule_hosts :: "json \<Rightarrow> string list" where
  "rule_hosts (JObject members) =
    concat (map (\<lambda>(k, v). (if k = ''host'' then (case v of JString s \<Rightarrow> [s] | _ \<Rightarrow> []) else []) @ rule_hosts v) members)"
| "rule_hosts (JArray items) = concat (map rule_hosts items)"
| "rule_hosts _ = []"

definition overlaps :: "domain_glob \<Rightarrow> string \<Rightarrow> string \<Rightarrow> bool" where
  "overlaps g pattern host \<longleftrightarrow>
    DomainGlob_matches g host \<or>
    (case DomainGlob_parse host of Inr h \<Rightarrow> DomainGlob_matches h pattern | Inl _ \<Rightarrow> False)"

definition overlap_error :: "string \<Rightarrow> string \<Rightarrow> string \<Rightarrow> load_error" where
  "overlap_error name host pattern =
    LoadError [Lit ''transform '', Debug name, Lit '' has a rule for host '', Debug host,
      Lit '', which overlaps tunnel passthrough domain '', Debug pattern,
      Lit '': the transform could never run on passthrough traffic'']"

text \<open>The three nested loops, as the list of what they visit.\<close>

definition overlap_checks ::
  "transform_spec list \<Rightarrow> domain_glob list \<Rightarrow> string list \<Rightarrow> (string \<times> string \<times> domain_glob \<times> string) list" where
  "overlap_checks specs globs patterns =
    concat (map (\<lambda>spec. concat (map (\<lambda>host. map (\<lambda>(g, pattern). (ts_name spec, host, g, pattern)) (zip globs patterns))
      (rule_hosts (ts_config spec)))) (filter (\<lambda>spec. ts_name spec \<noteq> ''allowlist'') specs))"

definition check_overlap :: "transform_spec list \<Rightarrow> domain_glob list \<Rightarrow> string list \<Rightarrow> load_error + unit" where
  "check_overlap specs globs patterns =
    (case find (\<lambda>(name, host, g, pattern). overlaps g pattern host) (overlap_checks specs globs patterns) of
       Some (name, host, g, pattern) \<Rightarrow> Inl (overlap_error name host pattern)
     | None \<Rightarrow> Inr ())"

fun compile_passthrough :: "string \<Rightarrow> load_error + domain_glob" where
  "compile_passthrough d =
    map_err (\<lambda>e. case e of MatchConfigError m \<Rightarrow>
        LoadError ([Lit ''proxy.tunnel_passthrough_domains '', Debug d, Lit '': invalid matcher: ''] @ m))
      (DomainGlob_parse d)"

record cert_cache =
  cc_ca :: signing_ca
  cc_capacity :: nat

definition CertCache_new :: "signing_ca \<Rightarrow> nat \<Rightarrow> cert_cache" where
  "CertCache_new ca capacity = \<lparr>cc_ca = ca, cc_capacity = (if capacity = 0 then 1000 else capacity)\<rparr>"

text \<open>What compiling takes from outside: the native store, the file system, the loader of the CA and the clock.\<close>

record ('t, 'p, 'q) host_env =
  ho_native_certs :: "bytes list \<times> string"
  ho_add_root :: "bytes \<Rightarrow> bool"
  ho_client_config :: "bytes list \<Rightarrow> 't"
  ho_read_file :: "string \<Rightarrow> string + string"
  ho_ca_loader :: "('p, 'q) ca_loader"
  ho_clock :: "nat option"

definition build_cert_cache :: "('t, 'p, 'q) host_env \<Rightarrow> config \<Rightarrow> load_error + cert_cache option" where
  "build_cert_cache ho cfg =
    (case cf_tls cfg of
       Some tls \<Rightarrow>
         if lk_https (cf_listen cfg) \<noteq> None \<or> lk_tunnel (cf_listen cfg) \<noteq> None then
           and_then (map_err (\<lambda>e. LoadError [Lit ''tls.ca_cert '', Debug (tr_ca_cert tls), Lit '': '', Disp e])
             (ho_read_file ho (tr_ca_cert tls))) (\<lambda>cert_pem.
           and_then (map_err (\<lambda>e. LoadError [Lit ''tls.ca_key '', Debug (tr_ca_key tls), Lit '': '', Disp e])
             (ho_read_file ho (tr_ca_key tls))) (\<lambda>key_pem.
           and_then (map_err (\<lambda>e. case e of TlsError m \<Rightarrow> LoadError (Lit ''tls: '' # m))
             (from_pem (ho_ca_loader ho) (ho_clock ho) cert_pem key_pem (tr_leaf_cert_expiry_hours tls))) (\<lambda>ca.
           Inr (Some (CertCache_new ca (tr_cert_cache_size tls))))))
         else Inr None
     | None \<Rightarrow> Inr None)"

text \<open>\<^const>\<open>None\<close> is the panic of the default guard.\<close>

definition build_guard :: "config \<Rightarrow> (load_error + guard) option" where
  "build_guard cfg =
    (case cf_upstream_deny_cidrs cfg of
       None \<Rightarrow> map_option Inr default_set
     | Some cidrs \<Rightarrow> Some (map_err from_guard_error (Guard_new cidrs)))"

definition build_runtime ::
  "decoders \<Rightarrow> regex_builder \<Rightarrow> ('t, 'p, 'q) host_env \<Rightarrow> config \<Rightarrow>
   (load_error + (Resolver.world \<times> Resolver.cache, 't, cert_cache) runtime) option" where
  "build_runtime de re_build ho cfg =
    (case map_err from_config_error (build_pipeline_with_resolver de re_build (cf_transforms cfg) EnvFileResolver) of
       Inl e \<Rightarrow> Some (Inl e)
     | Inr built \<Rightarrow>
         map_option (\<lambda>guard.
           and_then guard (\<lambda>g.
           and_then (map_err LoadError (native_upstream_config (ho_native_certs ho) (ho_add_root ho) (ho_client_config ho)))
             (\<lambda>upstream_tls.
           and_then (try_collect compile_passthrough (cf_tunnel_passthrough_domains cfg)) (\<lambda>globs.
           and_then (check_overlap (cf_transforms cfg) globs (cf_tunnel_passthrough_domains cfg)) (\<lambda>_.
           and_then (build_cert_cache ho cfg) (\<lambda>cache.
           Inr \<lparr>rt_pipeline = bu_pipeline built, rt_guard = g,
                rt_max_request_body_bytes = cf_max_request_body_bytes cfg,
                rt_upstream_response_header_timeout = cf_upstream_response_header_timeout cfg,
                rt_dial_timeout = 30 * 10 ^ 9, rt_upstream_tls = upstream_tls, rt_cert_cache = cache,
                rt_tunnel_passthrough = globs\<rparr>))))))
         (build_guard cfg))"

section \<open>Overrides\<close>

fun get_path :: "string list \<Rightarrow> yaml \<Rightarrow> yaml option" where
  "get_path [] y = Some y"
| "get_path (s # ss) (Y_Map m) = Option.bind (map_of m (Y_String s)) (get_path ss)"
| "get_path (s # ss) _ = None"

text \<open>A path can be written when what is there of its sections are mappings.\<close>

fun open_path :: "string list \<Rightarrow> yaml \<Rightarrow> bool" where
  "open_path [leaf] (Y_Map m) \<longleftrightarrow> True"
| "open_path (seg # rest) (Y_Map m) \<longleftrightarrow>
    (case map_of m (Y_String seg) of Some sub \<Rightarrow> open_path rest sub | None \<Rightarrow> rest \<noteq> [])"
| "open_path _ _ \<longleftrightarrow> False"

lemma set_path_fresh: "set_path (s # rest) v (Y_Map []) \<noteq> None"
proof (induction rest arbitrary: s)
  case (Cons t rest)
  then show ?case using Cons.IH [of t] by auto
qed simp

lemma set_path_open: "set_path p v y \<noteq> None \<longleftrightarrow> open_path p y"
  by (induction p v y rule: set_path.induct) (auto simp: set_path_fresh split: option.splits)

lemma get_set_same: "set_path p v y = Some y' \<Longrightarrow> get_path p y' = Some v"
  by (induction p v y arbitrary: y' rule: set_path.induct) (auto simp: update_conv)

lemma get_set_other:
  "set_path p v y = Some y' \<Longrightarrow> \<not> prefix p q \<Longrightarrow> \<not> prefix q p \<Longrightarrow> get_path q y' = get_path q y"
proof (induction p v y arbitrary: q y' rule: set_path.induct)
  case (1 leaf v m)
  then show ?case by (cases q) (auto simp: update_conv)
next
  case (2 seg s rest v m)
  obtain sub where sub: "set_path (s # rest) v (case map_of m (Y_String seg) of Some y \<Rightarrow> y | None \<Rightarrow> Y_Map []) = Some sub"
    "y' = Y_Map (AList.update (Y_String seg) sub m)"
    using "2.prems"(1) by auto
  obtain t q' where q: "q = t # q'" using "2.prems"(3) by (cases q) auto
  show ?case
  proof (cases "t = seg")
    case True
    then have np: "\<not> prefix (s # rest) q'" "\<not> prefix q' (s # rest)" using "2.prems"(2,3) q by auto
    then have "q' \<noteq> []" by auto
    then have "get_path q' (Y_Map []) = None" by (cases q') auto
    then show ?thesis
      using "2.IH" [OF sub(1) np] sub(2) q True by (auto simp: update_conv split: option.splits)
  next
    case False
    then show ?thesis using sub(2) q by (auto simp: update_conv)
  qed
qed auto

lemma open_set_other:
  "set_path p v y = Some y' \<Longrightarrow> \<not> prefix p q \<Longrightarrow> open_path q y \<Longrightarrow> open_path q y'"
proof (induction p v y arbitrary: q y' rule: set_path.induct)
  case (1 leaf v m)
  then show ?case by (cases "(q, Y_Map m)" rule: open_path.cases) (auto simp: update_conv)
next
  case (2 seg s rest v m)
  obtain sub where sub: "set_path (s # rest) v (case map_of m (Y_String seg) of Some y \<Rightarrow> y | None \<Rightarrow> Y_Map []) = Some sub"
    "y' = Y_Map (AList.update (Y_String seg) sub m)"
    using "2.prems"(1) by auto
  have fresh: "open_path q' (Y_Map [])" if "q' \<noteq> []" for q' using that by (cases q'; cases "tl q'") auto
  show ?case
  proof (cases "(q, Y_Map m)" rule: open_path.cases)
    case (1 leaf m')
    then show ?thesis using sub(2) by simp
  next
    case (2 t u q' m')
    then show ?thesis
      using "2.IH" [OF sub(1), of "u # q'"] "2.prems"(2,3) sub(2) fresh [of "u # q'"]
      by (auto simp: update_conv split: option.splits if_splits)
  qed (use "2.prems"(3) in auto)
qed auto

definition prefix_free :: "string list \<Rightarrow> bool" where
  "prefix_free paths \<longleftrightarrow> distinct paths \<and>
    (\<forall>p \<in> set paths. \<forall>q \<in> set paths. p \<noteq> q \<longrightarrow> \<not> prefix (split_on CHR ''.'' p) (split_on CHR ''.'' q))"

lemma env_keys_prefix_free: "prefix_free ENV_KEYS"
  by code_simp

lemma env_names_distinct: "distinct (map env_name ENV_KEYS)"
  by code_simp

lemma override_loop_other:
  assumes "\<forall>p \<in> set paths. env (env_name p) \<noteq> None \<longrightarrow>
    \<not> prefix (split_on CHR ''.'' p) q \<and> \<not> prefix q (split_on CHR ''.'' p)"
  shows "get_path q (override_loop f64_of env paths val) = get_path q val"
  using assms by (induction paths arbitrary: val) (auto split: option.splits dest: get_set_other)

lemma override_loop_sets:
  assumes "prefix_free paths" "path \<in> set paths"
    and "\<forall>p \<in> set paths. env (env_name p) \<noteq> None \<longrightarrow> open_path (split_on CHR ''.'' p) val"
  shows "get_path (split_on CHR ''.'' path) (override_loop f64_of env paths val) =
    (case env (env_name path) of
       Some raw \<Rightarrow> Some (typed_scalar f64_of path raw)
     | None \<Rightarrow> get_path (split_on CHR ''.'' path) val)"
  using assms
proof (induction paths arbitrary: val)
  case (Cons p paths)
  let ?q = "split_on CHR ''.'' path" and ?p = "split_on CHR ''.'' p"
  have free: "prefix_free paths" using Cons.prems(1) by (simp add: prefix_free_def)
  have apart: "\<not> prefix ?p (split_on CHR ''.'' r)" "\<not> prefix (split_on CHR ''.'' r) ?p" if "r \<in> set paths" for r
    using Cons.prems(1) that by (auto simp: prefix_free_def)
  show ?case
  proof (cases "env (env_name p)")
    case None
    show ?thesis
    proof (cases "path = p")
      case True
      then show ?thesis using None override_loop_other [of paths env ?p] apart by auto
    next
      case False
      then show ?thesis using Cons.IH [OF free] Cons.prems None by simp
    qed
  next
    case (Some raw)
    then have "open_path ?p val" using Cons.prems(3) by simp
    then obtain val' where v: "set_path ?p (typed_scalar f64_of p raw) val = Some val'"
      using set_path_open [of ?p _ val] by blast
    show ?thesis
    proof (cases "path = p")
      case True
      then show ?thesis using Some v override_loop_other [of paths env ?p f64_of val'] apart get_set_same [OF v] by auto
    next
      case False
      then have path: "path \<in> set paths" using Cons.prems(2) by simp
      have "\<forall>r \<in> set paths. env (env_name r) \<noteq> None \<longrightarrow> open_path (split_on CHR ''.'' r) val'"
        using Cons.prems(3) open_set_other [OF v] apart by auto
      from Cons.IH [OF free path this] show ?thesis
        using Some v get_set_other [OF v, of ?q] apart [OF path] by (simp split: option.splits)
    qed
  qed
qed simp

section \<open>Passthrough domains\<close>

text \<open>Two patterns that match a common host match each other's text.\<close>

lemma norm_host_plain: "\<not> suffix ''.'' (to_lower h) \<Longrightarrow> norm_host h = to_lower h"
  by (auto simp: norm_host_def Let_def strip_suffix_def)

lemma parse_glob_text:
  "DomainGlob_parse p = Inr g \<Longrightarrow> to_lower p = (if dg_wildcard g then ''*.'' @ dg_suffix g else dg_suffix g) \<and> dg_suffix g \<noteq> []"
  by (auto simp: DomainGlob_parse_def Let_def strip_prefix_Some split: option.splits if_splits)

lemma norm_host_text:
  "to_lower p = (if w then ''*.'' @ s else s) \<and> s \<noteq> [] \<Longrightarrow> \<not> suffix ''.'' s \<Longrightarrow> norm_host p = to_lower p"
  by (rule norm_host_plain) (auto simp: suffix_Cons split: if_splits)

lemma label_suffixes:
  assumes "a @ CHR ''.'' # s = b @ CHR ''.'' # t"
  shows "s = t \<or> (\<exists>c. s = c @ CHR ''.'' # t) \<or> (\<exists>c. t = c @ CHR ''.'' # s)"
  using assms by (auto simp: append_eq_append_conv2 append_eq_Cons_conv Cons_eq_append_conv)

lemma suffix_label: "suffix s (a @ c # s)"
  using suffixI [of "a @ c # s" "a @ [c]" s] by simp

lemma common_host_overlaps:
  assumes g: "DomainGlob_parse p = Inr g" and h: "DomainGlob_parse host = Inr h"
    and x: "DomainGlob_matches g x" "DomainGlob_matches h x" and dot: "\<not> suffix ''.'' (norm_host x)"
  shows "overlaps g p host"
proof -
  let ?n = "norm_host x"
  note tp = parse_glob_text [OF g] and th = parse_glob_text [OF h]
  have sg: "?n = dg_suffix g \<or> dg_wildcard g \<and> (\<exists>a. ?n = a @ CHR ''.'' # dg_suffix g)"
    and sh: "?n = dg_suffix h \<or> dg_wildcard h \<and> (\<exists>a. ?n = a @ CHR ''.'' # dg_suffix h)"
    using x by (simp_all add: DomainGlob_matches_iff)
  have nodot: "\<not> suffix ''.'' (dg_suffix g)" "\<not> suffix ''.'' (dg_suffix h)"
    using sg sh dot suffix_label suffix_order.trans by metis+
  then have np: "norm_host p = to_lower p" and nh: "norm_host host = to_lower host"
    using norm_host_text [OF tp] norm_host_text [OF th] by simp_all
  show ?thesis
  proof (cases "dg_wildcard h \<and> dg_wildcard g")
    case True
    then have texts: "norm_host p = ''*.'' @ dg_suffix g" "norm_host host = ''*.'' @ dg_suffix h" using np nh tp th by auto
    have "dg_suffix g = dg_suffix h \<or> (\<exists>c. dg_suffix g = c @ CHR ''.'' # dg_suffix h) \<or>
        (\<exists>c. dg_suffix h = c @ CHR ''.'' # dg_suffix g)"
      using sg sh label_suffixes by metis
    then show ?thesis
      using True texts h unfolding overlaps_def DomainGlob_matches_iff
      by (auto intro: exI [of _ "''*''"] exI [of _ "''*.'' @ _"])
  next
    case False
    then show ?thesis
      using sg sh np nh tp th h x unfolding overlaps_def DomainGlob_matches_iff by (auto dest: sym)
  qed
qed

section \<open>Loading and compiling\<close>

text \<open>What validation promises of a configuration that loads.\<close>

definition config_wf :: "config \<Rightarrow> bool" where
  "config_wf cfg \<longleftrightarrow>
    (lk_https (cf_listen cfg) \<noteq> None \<longrightarrow> cf_tls cfg \<noteq> None) \<and>
    lk_dns (cf_listen cfg) = map_option dr_listen (cf_dns cfg) \<and>
    (\<forall>d. cf_dns cfg = Some d \<longrightarrow> (\<forall>(n, ty, v) \<in> set (dr_records d). ty = ''A'' \<or> ty = ''CNAME'')) \<and>
    (\<forall>cidrs. cf_upstream_deny_cidrs cfg = Some cidrs \<longrightarrow> (\<exists>g. Guard_new cidrs = Inr g)) \<and>
    (ot_enabled (ob_otlp (cf_observability cfg)) \<longrightarrow> ot_endpoint (ob_otlp (cf_observability cfg)) \<noteq> None) \<and>
    in_unit_interval (ot_sample_ratio (ob_otlp (cf_observability cfg))) \<and>
    (ob_log_format (cf_observability cfg) = ''json'' \<or> ob_log_format (cf_observability cfg) = ''text'') \<and>
    (lk_management (cf_listen cfg) \<noteq> None \<longleftrightarrow> cf_management_api_key cfg \<noteq> None) \<and>
    cf_management_api_key cfg \<noteq> Some []"

lemma check_records_ok: "check_records rs = Inr () \<longleftrightarrow> (\<forall>r \<in> set rs. dn_record_type r = ''A'' \<or> dn_record_type r = ''CNAME'')"
  by (induction rs) auto

lemma transform_specs_names: "transform_specs sd raw = Inr specs \<Longrightarrow> map ts_name specs = map ty_name (rw_transforms raw)"
proof -
  assume "transform_specs sd raw = Inr specs"
  then have "list_all2 (\<lambda>t sp. and_then (yaml_to_json sd (ty_config t)) (\<lambda>j. Inr \<lparr>ts_name = ty_name t, ts_config = j\<rparr>) = Inr sp)
      (rw_transforms raw) specs"
    by (simp add: transform_specs_def result_simps)
  then show ?thesis by (induction rule: list_all2_induct) (auto simp: and_then_Inr)
qed

lemma resolve_raw_wf:
  assumes "resolve_raw sd de re_build env raw = Inr cfg"
  shows "config_wf cfg"
    and "\<exists>b. build_pipeline_with_resolver de re_build (cf_transforms cfg) EnvFileResolver = Inr b \<and> cf_warnings cfg = bu_warnings b"
    and "case rw_dns raw of
        Some d \<Rightarrow>
          if ds_enabled d
          then \<exists>ip a. ds_proxy_ip d = Some ip \<and> parse_ipv4 ip = Some a \<and> map_option dr_proxy_ip (cf_dns cfg) = Some a
          else cf_dns cfg = None
      | None \<Rightarrow> cf_dns cfg = None"
    and "map ts_name (cf_transforms cfg) = map ty_name (rw_transforms raw)"
proof -
  obtain timeout key transforms built where
    dns: "validate_dns raw = Inr ()" and tls: "validate_tls raw = Inr ()" and guard: "validate_guard raw = Inr ()"
    and obs: "validate_observability raw = Inr ()" and key: "management_key env raw = Inr key"
    and specs: "transform_specs sd raw = Inr transforms"
    and built: "build_pipeline_with_resolver de re_build transforms EnvFileResolver = Inr built"
    and cfg: "cf_listen cfg = ListenKeys_of raw" "cf_upstream_deny_cidrs cfg = px_upstream_deny_cidrs (rw_proxy raw)"
      "cf_management_api_key cfg = key" "cf_tls cfg = map_option TlsResolved_of (rw_tls raw)"
      "cf_dns cfg = (case rw_dns raw of Some d \<Rightarrow> if ds_enabled d then Some (DnsResolved_of d) else None | None \<Rightarrow> None)"
      "cf_transforms cfg = transforms" "cf_warnings cfg = bu_warnings built" "cf_observability cfg = rw_observability raw"
    using assms by (auto simp: resolve_raw_def and_then_Inr map_err_Inr)
  show "\<exists>b. build_pipeline_with_resolver de re_build (cf_transforms cfg) EnvFileResolver = Inr b \<and> cf_warnings cfg = bu_warnings b"
    using built cfg by simp
  have d: "\<exists>ip a. ds_proxy_ip d = Some ip \<and> parse_ipv4 ip = Some a" "check_records (ds_records d) = Inr ()"
    if "rw_dns raw = Some d" "ds_enabled d" for d
    using dns that by (auto simp: validate_dns_def split: option.splits if_splits)
  show "case rw_dns raw of
        Some d \<Rightarrow>
          if ds_enabled d
          then \<exists>ip a. ds_proxy_ip d = Some ip \<and> parse_ipv4 ip = Some a \<and> map_option dr_proxy_ip (cf_dns cfg) = Some a
          else cf_dns cfg = None
      | None \<Rightarrow> cf_dns cfg = None"
    using d cfg(5) by (fastforce simp: DnsResolved_of_def split: option.splits)
  show "map ts_name (cf_transforms cfg) = map ty_name (rw_transforms raw)"
    using transform_specs_names [OF specs] cfg(6) by simp
  have "key \<noteq> Some []" "lk_management (ListenKeys_of raw) \<noteq> None \<longleftrightarrow> key \<noteq> None"
    using key by (auto simp: management_key_def ListenKeys_of_def Let_def split: option.splits if_splits dest: sym)
  moreover have "\<exists>g. Guard_new cidrs = Inr g" if "px_upstream_deny_cidrs (rw_proxy raw) = Some cidrs" for cidrs
    using guard that by (auto simp: validate_guard_def and_then_Inr map_err_Inr)
  moreover have "lk_dns (ListenKeys_of raw) = map_option dr_listen (cf_dns cfg)"
    using cfg(5) by (auto simp: ListenKeys_of_def DnsResolved_of_def split: option.splits)
  moreover have "\<forall>e. cf_dns cfg = Some e \<longrightarrow> (\<forall>(n, ty, v) \<in> set (dr_records e). ty = ''A'' \<or> ty = ''CNAME'')"
    using cfg(5) d(2) by (auto simp: DnsResolved_of_def check_records_ok split: option.splits if_splits)
  ultimately show "config_wf cfg"
    unfolding config_wf_def cfg using tls obs
    by (auto simp: validate_tls_def validate_observability_def Let_def split: if_splits)
qed

lemma load_str_raw:
  assumes "load_str sd de re_build env text = Inr cfg"
  obtains parsed raw where "sd_from_str sd text = Inr parsed"
    "sd_from_value sd (apply_env_overrides (sd_parse_f64 sd) env (if parsed = Y_Null then Y_Map [] else parsed)) = Inr raw"
    "resolve_raw sd de re_build env raw = Inr cfg"
  using assms by (auto simp: load_str_def and_then_Inr map_err_Inr Let_def)

lemma build_runtime_fields:
  assumes "build_runtime de re_build ho cfg = Some (Inr rt)"
  obtains b globs where "build_pipeline_with_resolver de re_build (cf_transforms cfg) EnvFileResolver = Inr b"
    "rt_pipeline rt = bu_pipeline b" "build_guard cfg = Some (Inr (rt_guard rt))"
    "try_collect compile_passthrough (cf_tunnel_passthrough_domains cfg) = Inr globs" "rt_tunnel_passthrough rt = globs"
    "check_overlap (cf_transforms cfg) globs (cf_tunnel_passthrough_domains cfg) = Inr ()"
    "build_cert_cache ho cfg = Inr (rt_cert_cache rt)"
  using assms
  by (auto simp: build_runtime_def and_then_Inr map_err_Inr split: sum.splits option.splits)

lemma compile_passthrough_all:
  "try_collect compile_passthrough ps = Inr globs \<longleftrightarrow> list_all2 (\<lambda>p g. DomainGlob_parse p = Inr g) ps globs"
proof (induction ps arbitrary: globs)
  case (Cons p ps)
  then show ?case by (cases globs) (auto simp: and_then_Inr map_err_Inr)
qed auto

lemma check_overlap_ok:
  "check_overlap specs globs patterns = Inr () \<longleftrightarrow>
    (\<forall>(name, host, g, pattern) \<in> set (overlap_checks specs globs patterns). \<not> overlaps g pattern host)"
proof -
  have "check_overlap specs globs patterns = Inr () \<longleftrightarrow>
      find (\<lambda>(name, host, g, pattern). overlaps g pattern host) (overlap_checks specs globs patterns) = None"
    by (simp add: check_overlap_def split: option.splits prod.splits)
  then show ?thesis by (auto simp: find_None_iff)
qed

lemma overlap_checks_all:
  "(name, host, g, pattern) \<in> set (overlap_checks specs globs patterns) \<longleftrightarrow>
    (\<exists>spec \<in> set specs. ts_name spec \<noteq> ''allowlist'' \<and> ts_name spec = name \<and> host \<in> set (rule_hosts (ts_config spec))) \<and>
    (g, pattern) \<in> set (zip globs patterns)"
  by (auto simp: overlap_checks_def)

section \<open>Properties\<close>


definition test_raw :: raw_config where
  "test_raw =
    \<lparr>rw_dns = Some \<lparr>ds_enabled = True, ds_listen = None, ds_proxy_ip = Some ''10.0.0.1'', ds_upstream_resolver = None,
                    ds_passthrough = [], ds_records = [\<lparr>dn_name = ''x'', dn_record_type = ''A'', dn_value = ''10.0.0.2''\<rparr>]\<rparr>,
     rw_proxy = ProxySection_default\<lparr>px_tunnel_passthrough_domains := Some [''*.pinned.com'']\<rparr>, rw_tls = None,
     rw_transforms = [\<lparr>ty_name = ''allowlist'', ty_config = Y_Null\<rparr>],
     rw_management = Some \<lparr>mg_listen = '':9000'', mg_api_key_env = None\<rparr>, rw_log = None,
     rw_observability = ObservabilitySection_default\<rparr>"

definition test_serde :: serde where
  "test_serde =
    \<lparr>sd_from_str = (\<lambda>_. Inr Y_Null), sd_from_value = (\<lambda>_. Inr test_raw),
     sd_to_json = (\<lambda>_. Inr (allowlist_json [''*.example.com''])), sd_parse_f64 = (\<lambda>_. None)\<rparr>"

definition test_getenv :: "string \<Rightarrow> string option" where
  "test_getenv name = (if name = ''HEMATITE_MANAGEMENT_API_KEY'' then Some ''k'' else None)"

definition example_specs :: "transform_spec list" where
  "example_specs = [\<lparr>ts_name = ''allowlist'', ts_config = allowlist_json [''*.example.com'']\<rparr>]"

definition example_allowlist :: "'s transform" where
  "example_allowlist = Allowlist \<lparr>al_domains = [\<lparr>dg_suffix = ''example.com'', dg_wildcard = True\<rparr>], al_cidrs = [], al_warn = False\<rparr>"

lemma example_builds:
  "build_pipeline_with_resolver object_decoders no_regex example_specs r = Inr \<lparr>bu_pipeline = [example_allowlist], bu_warnings = []\<rparr>"
proof -
  have d: "de_allowlist object_decoders (allowlist_json [''*.example.com'']) =
      Inr \<lparr>lc_domains = [''*.example.com''], lc_cidrs = [], lc_warn = False\<rparr>"
    by code_simp
  have g: "DomainGlob_parse ''*.example.com'' = Inr \<lparr>dg_suffix = ''example.com'', dg_wildcard = True\<rparr>"
    by code_simp
  show ?thesis
    by (simp add: build_pipeline_with_resolver_def build_pipeline_inner_def build_transform_def body_capture_ordering_def
        annotate_after_secret_swap_def deser_def d g example_specs_def example_allowlist_def)
qed

lemma test_loads:
  "\<exists>cfg. load_str test_serde object_decoders no_regex test_getenv text = Inr cfg \<and> cf_transforms cfg = example_specs \<and>
     cf_management_api_key cfg = Some ''k'' \<and> cf_upstream_deny_cidrs cfg = None \<and> cf_tls cfg = None \<and>
     cf_tunnel_passthrough_domains cfg = [''*.pinned.com'']"
proof -
  have "transform_specs test_serde test_raw = Inr example_specs"
    by (simp add: transform_specs_def test_raw_def test_serde_def yaml_to_json_def example_specs_def)
  moreover have "validate_dns test_raw = Inr ()" by code_simp
  moreover have "validate_tls test_raw = Inr ()" "validate_guard test_raw = Inr ()"
    "validate_observability test_raw = Inr ()" "management_key test_getenv test_raw = Inr (Some ''k'')"
    by (simp_all add: validate_tls_def validate_guard_def validate_observability_def management_key_def test_raw_def
        ProxySection_default_def ListenKeys_of_def ObservabilitySection_default_def OtlpSection_default_def test_getenv_def)
  moreover have "px_upstream_response_header_timeout (rw_proxy test_raw) = None"
    "px_upstream_deny_cidrs (rw_proxy test_raw) = None" "rw_tls test_raw = None"
    "px_tunnel_passthrough_domains (rw_proxy test_raw) = Some [''*.pinned.com'']"
    by (simp_all add: test_raw_def ProxySection_default_def)
  moreover have "sd_from_str test_serde text = Inr Y_Null" "sd_from_value test_serde v = Inr test_raw" for v
    by (simp_all add: test_serde_def)
  ultimately show ?thesis by (simp add: load_str_def resolve_raw_def example_builds)
qed


text \<open>
  C28. Environment variables win: when no section on the way of a set variable is something else
  than a mapping, then after the overrides every key of the list has the value of its variable, typed
  as boolean, number or string, or without a variable the value the file has. Every other place of the
  file, that is neither below nor above a key with a variable, is as the file has it. No two keys share a variable.
\<close>

theorem overrides_win:
  assumes "\<forall>p \<in> set ENV_KEYS. env (env_name p) \<noteq> None \<longrightarrow> open_path (split_on CHR ''.'' p) val"
  shows "(\<forall>path \<in> set ENV_KEYS. get_path (split_on CHR ''.'' path) (apply_env_overrides f64_of env val) =
      (case env (env_name path) of
         Some raw \<Rightarrow> Some (typed_scalar f64_of path raw)
       | None \<Rightarrow> get_path (split_on CHR ''.'' path) val)) \<and>
    (\<forall>place. (\<forall>p \<in> set ENV_KEYS. env (env_name p) \<noteq> None \<longrightarrow>
        \<not> prefix (split_on CHR ''.'' p) place \<and> \<not> prefix place (split_on CHR ''.'' p)) \<longrightarrow>
      get_path place (apply_env_overrides f64_of env val) = get_path place val) \<and>
    inj_on env_name (set ENV_KEYS)"
  using override_loop_sets [OF env_keys_prefix_free _ assms] override_loop_other [of ENV_KEYS env] env_names_distinct
  by (simp add: apply_env_overrides_def distinct_map)

definition override_env :: "string \<Rightarrow> string option" where
  "override_env name =
    (if name = ''HEMATITE_DNS_LISTEN'' then Some '':5353'' else if name = ''HEMATITE_LOG_LEVEL'' then Some ''debug'' else None)"

theorem overrides_win_witness:
  "get_path [''log'', ''level''] (apply_env_overrides (\<lambda>_. None) override_env (Y_Map [(Y_String ''transforms'', Y_Seq [])])) =
      Some (Y_String ''debug'') \<and>
   get_path [''transforms''] (apply_env_overrides (\<lambda>_. None) override_env (Y_Map [(Y_String ''transforms'', Y_Seq [])])) =
      Some (Y_Seq [])"
proof -
  let ?val = "Y_Map [(Y_String ''transforms'', Y_Seq [])]"
  have apart: "\<forall>p \<in> set ENV_KEYS. \<not> prefix (split_on CHR ''.'' p) [''transforms''] \<and> \<not> prefix [''transforms''] (split_on CHR ''.'' p)"
    by code_simp
  have s: "split_on CHR ''.'' ''log.level'' = [''log'', ''level'']" by code_simp
  have t: "override_env (env_name ''log.level'') = Some ''debug''" "typed_scalar (\<lambda>_. None) ''log.level'' ''debug'' = Y_String ''debug''"
    by code_simp+
  have "\<forall>p \<in> set ENV_KEYS. open_path (split_on CHR ''.'' p) ?val" by code_simp
  then have all: "\<forall>p \<in> set ENV_KEYS. override_env (env_name p) \<noteq> None \<longrightarrow> open_path (split_on CHR ''.'' p) ?val" by blast
  have "''log.level'' \<in> set ENV_KEYS" by (simp add: ENV_KEYS_def)
  with overrides_win [OF all, of "\<lambda>_. None"] have
    "get_path (split_on CHR ''.'' ''log.level'') (apply_env_overrides (\<lambda>_. None) override_env ?val) = Some (Y_String ''debug'')"
    "get_path [''transforms''] (apply_env_overrides (\<lambda>_. None) override_env ?val) = get_path [''transforms''] ?val"
    using t apart by (metis (no_types, lifting) option.simps(5), blast)
  then show ?thesis unfolding s by simp
qed

text \<open>Where the promise ends: one section that is not a mapping, here an empty one, silences every later variable.\<close>

lemma override_stops:
  "apply_env_overrides (\<lambda>_. None) override_env (Y_Map [(Y_String ''dns'', Y_Null)]) = Y_Map [(Y_String ''dns'', Y_Null)]"
  by code_simp

text \<open>
  C13. No policy is shadowed by a passthrough: in a runtime that compiled, a host whose tunnels are passed through
  unseen matches no domain pattern that stands as a rule's host anywhere in the configuration of
  a transform other than the allowlist. (The host has at most one trailing dot.)
\<close>

theorem passthrough_disjoint:
  assumes "build_runtime de re_build ho cfg = Some (Inr rt)"
    and "spec \<in> set (cf_transforms cfg)" "ts_name spec \<noteq> ''allowlist''" "host \<in> set (rule_hosts (ts_config spec))"
    and "DomainGlob_parse host = Inr h" "passthrough_matches rt x" "\<not> suffix ''.'' (norm_host x)"
  shows "\<not> DomainGlob_matches h x"
proof
  assume hx: "DomainGlob_matches h x"
  obtain globs where globs: "try_collect compile_passthrough (cf_tunnel_passthrough_domains cfg) = Inr globs"
      "rt_tunnel_passthrough rt = globs" "check_overlap (cf_transforms cfg) globs (cf_tunnel_passthrough_domains cfg) = Inr ()"
    using assms(1) by (rule build_runtime_fields)
  have all: "list_all2 (\<lambda>p g. DomainGlob_parse p = Inr g) (cf_tunnel_passthrough_domains cfg) globs"
    using globs(1) by (simp add: compile_passthrough_all)
  obtain i where i: "i < length globs" "DomainGlob_matches (globs ! i) x"
    using assms(6) globs(2) by (auto simp: passthrough_matches_def list_ex_iff in_set_conv_nth)
  let ?p = "cf_tunnel_passthrough_domains cfg ! i"
  have len: "length (cf_tunnel_passthrough_domains cfg) = length globs" using all by (simp add: list_all2_lengthD)
  have "DomainGlob_parse ?p = Inr (globs ! i)" using all i(1) len by (simp add: list_all2_conv_all_nth)
  from common_host_overlaps [OF this assms(5) i(2) hx assms(7)] have "overlaps (globs ! i) ?p host" .
  moreover have "(globs ! i, ?p) \<in> set (zip globs (cf_tunnel_passthrough_domains cfg))"
    using i(1) len by (auto simp: set_zip)
  ultimately show False
    using globs(3) assms(2,3,4) unfolding check_overlap_ok by (fastforce simp: overlap_checks_all)
qed

definition test_ho :: "(unit, unit, unit) host_env" where
  "test_ho = \<lparr>ho_native_certs = ([''root''], []), ho_add_root = (\<lambda>_. True), ho_client_config = (\<lambda>_. ()), ho_read_file = (\<lambda>_. Inl ''none''),
    ho_ca_loader = \<lparr>ld_key = (\<lambda>_. Inr ()), ld_params = (\<lambda>_. Inr ()), ld_self_signed = (\<lambda>_ _. None)\<rparr>, ho_clock = Some 1\<rparr>"

definition logged_specs :: "transform_spec list" where
  "logged_specs = example_specs @ [\<lparr>ts_name = ''body_capture'', ts_config = JObject [(''max_request_body_bytes'', JNumber 10),
     (''rules'', JArray [JObject [(''host'', JString ''api.example.com'')]])]\<rparr>]"

definition test_cfg :: config where
  "test_cfg =
    \<lparr>cf_listen = ListenKeys_of test_raw, cf_max_request_body_bytes = 10, cf_max_response_body_bytes = 0,
     cf_upstream_response_header_timeout = 30, cf_upstream_deny_cidrs = Some [''10.0.0.0/8''], cf_management_api_key = None,
     cf_log_level = ''info'', cf_tls = None, cf_dns = None, cf_transforms = logged_specs,
     cf_tunnel_passthrough_domains = [''*.pinned.com''], cf_warnings = [],
     cf_observability = ObservabilitySection_default\<rparr>"

theorem passthrough_disjoint_witness:
  "\<not> DomainGlob_matches \<lparr>dg_suffix = ''api.example.com'', dg_wildcard = False\<rparr> ''x.pinned.com''"
proof -
  have "case build_runtime object_decoders no_regex test_ho test_cfg of
      Some (Inr rt) \<Rightarrow> passthrough_matches rt ''x.pinned.com'' | _ \<Rightarrow> False"
    by code_simp
  then obtain rt where rt: "build_runtime object_decoders no_regex test_ho test_cfg = Some (Inr rt)"
      "passthrough_matches rt ''x.pinned.com''"
    by (auto split: option.splits sum.splits)
  let ?spec = "\<lparr>ts_name = ''body_capture'', ts_config = JObject [(''max_request_body_bytes'', JNumber 10),
     (''rules'', JArray [JObject [(''host'', JString ''api.example.com'')]])]\<rparr>"
  have "?spec \<in> set (cf_transforms test_cfg)" by (simp add: test_cfg_def logged_specs_def)
  moreover have "ts_name ?spec \<noteq> ''allowlist''" "''api.example.com'' \<in> set (rule_hosts (ts_config ?spec))" by simp_all
  moreover have "DomainGlob_parse ''api.example.com'' = Inr \<lparr>dg_suffix = ''api.example.com'', dg_wildcard = False\<rparr>"
    by code_simp
  moreover have "\<not> suffix ''.'' (norm_host ''x.pinned.com'')" by code_simp
  ultimately show ?thesis using passthrough_disjoint [OF rt(1) _ _ _ _ rt(2)] by blast
qed

text \<open>A rule for an address block is not seen by the check, though the passthrough name is an address of the block.\<close>

lemma cidr_rule_not_seen:
  "check_overlap [\<lparr>ts_name = ''secrets'', ts_config = JArray [JObject [(''host'', JString ''10.0.0.0/8'')]]\<rparr>]
     [\<lparr>dg_suffix = ''10.0.0.1'', dg_wildcard = False\<rparr>] [''10.0.0.1''] = Inr () \<and>
   (case HostClause_parse ''10.0.0.0/8'' of Inr c \<Rightarrow> HostClause_matches c ''10.0.0.1'' | Inl _ \<Rightarrow> False)"
  by code_simp

text \<open>A tunnel listener without TLS material is refused, also when every domain it serves is passed through.\<close>

lemma passthrough_needs_tls:
  assumes "rw_tls raw = None" "px_tunnel_listen (rw_proxy raw) = Some addr"
  shows "resolve_raw sd de re_build env raw \<noteq> Inr cfg"
  using assms by (auto simp: resolve_raw_def validate_tls_def ListenKeys_of_def and_then_Inr)

lemma build_guard_total: "build_guard cfg \<noteq> None"
  by (simp add: build_guard_def default_set_eq split: option.splits)

text \<open>Compiling never panics.\<close>

lemma build_runtime_total: "build_runtime de re_build ho cfg \<noteq> None"
  using build_guard_total by (auto simp: build_runtime_def split: sum.splits)

lemma from_str_show_big:
  assumes "2 \<le> r" and "r \<le> 36" and "mx < n"
  shows "from_str_radix mx r (show_radix r n) = None"
proof -
  obtain c cs where s: "show_radix r n = c # cs"
    using show_radix_not_Nil [of r n] by (meson neq_Nil_conv)
  with show_radix_digits [OF assms(1), of c n] obtain d where "d < r" "c = digit_char d" by auto
  with assms(2) have "c \<noteq> CHR ''+'' \<and> c \<noteq> CHR ''-''" using digit_char_sign [of d] by simp
  with s read_show_digits [OF assms(1,2), of n] assms(3) show ?thesis by (simp add: from_str_radix_def)
qed

text \<open>
  Durations: a number with a unit is read as that many milliseconds, seconds or minutes, a bare number as seconds,
  and a number of at least 2^64 is refused. The minutes are multiplied at the width of 64 bits: the
  result is exact below 2^64 / 60 and wraps from there on.
\<close>

theorem duration_bounds:
  "(n < 2 ^ 64 \<longrightarrow>
      parse_duration_key (show_dec n) = Inr (n * 10 ^ 9) \<and> parse_duration_key (show_dec n @ ''s'') = Inr (n * 10 ^ 9) \<and>
      parse_duration_key (show_dec n @ ''ms'') = Inr (n * 10 ^ 6) \<and>
      parse_duration_key (show_dec n @ ''m'') = Inr (n * 60 mod 2 ^ 64 * 10 ^ 9)) \<and>
   (n * 60 < 2 ^ 64 \<longrightarrow> parse_duration_key (show_dec n @ ''m'') = Inr (n * 60 * 10 ^ 9)) \<and>
   (2 ^ 64 \<le> n \<longrightarrow> (\<forall>unit \<in> {[], ''s'', ''ms'', ''m''}. \<exists>e. parse_duration_key (show_dec n @ unit) = Inl e))"
proof -
  have digit: "is_digit c" if "c \<in> set (show_dec n)" for c
    using show_radix_digits [of 10 c n] that by (auto simp: is_digit_def digit_char_def)
  have eq: "parse_duration_key (show_dec n @ unit) =
      and_then (ok_or (LoadError [Lit ''invalid duration: '', Debug (show_dec n @ unit)]) (parse_u64 (show_dec n))) (\<lambda>n.
        if unit = ''ms'' then Inr (n * 10 ^ 6)
        else if unit = ''m'' then Inr (n * 60 mod 2 ^ 64 * 10 ^ 9) else Inr (n * 10 ^ 9))"
    if "unit \<in> {[], ''s'', ''ms'', ''m''}" for unit
  proof -
    have "\<forall>c \<in> set (show_dec n @ unit). printable c"
      using show_dec_printable that by (auto simp: printable_def)
    then have trim: "trim (show_dec n @ unit) = show_dec n @ unit" by (rule trim_printable)
    have nd: "\<not> is_digit CHR ''s''" "\<not> is_digit CHR ''m''" by (simp_all add: is_digit_def)
    have "takeWhile is_digit (show_dec n @ unit) = show_dec n" "dropWhile is_digit (show_dec n @ unit) = unit"
      using that digit nd by auto
    moreover have "list_ex (\<lambda>c. \<not> is_digit c) (show_dec n @ unit) \<longleftrightarrow> unit \<noteq> []"
      using that digit nd by (auto simp: list_ex_iff)
    ultimately show ?thesis using that by (auto simp: parse_duration_key_def trim Let_def)
  qed
  have small: "parse_u64 (show_dec n) = Some n" if "n < 2 ^ 64"
    using that from_str_show [of 10 n "2 ^ 64 - 1"] by (simp add: parse_u64_def)
  have big: "parse_u64 (show_dec n) = None" if "2 ^ 64 \<le> n"
    using that from_str_show_big [of 10 "2 ^ 64 - 1" n] by (simp add: parse_u64_def)
  show ?thesis
    using eq [of "[]"] eq [of "''s''"] eq [of "''ms''"] eq [of "''m''"] small big by (auto simp: ok_or_def)
qed

theorem duration_bounds_witness:
  "parse_duration_key (show_dec 5 @ ''m'') = Inr 300000000000"
  using duration_bounds [of 5] by simp

end
