(* ===== verification/Telemetry.thy ===== *)
theory Telemetry
  imports Proxy_Config
begin

text \<open>
  Telemetry, \<open>crates/hematite/src/telemetry.rs\<close>: which log format, filter and span exporter the
  process installs, and the flush at shutdown. The tracing and OpenTelemetry crates are parameters.
\<close>

section \<open>Definitions\<close>

datatype log_format = Format_Json | Format_Compact

datatype sampler = TraceIdRatioBased yaml_float | ParentBased sampler

text \<open>
  The filter parser, the exporter for a client timeout in seconds and an endpoint, and the
  batch processor, which spawns a task: it is given whether the caller is inside the runtime, and
  \<^const>\<open>None\<close> is its panic.
\<close>

record ('f, 'x, 'b) otel =
  ol_try_filter :: "string \<Rightarrow> 'f option"
  ol_filter :: "string \<Rightarrow> 'f"
  ol_exporter :: "nat \<Rightarrow> string \<Rightarrow> string + 'x"
  ol_batch :: "bool \<Rightarrow> 'x \<Rightarrow> 'b option"

record 'b provider =
  pv_processor :: 'b
  pv_sampler :: sampler
  pv_service_name :: string

text \<open>A subscriber with the filter on everything, or with the filter on the log only and a tracer beside it.\<close>

datatype ('f, 'b) subscriber = Fmt log_format 'f | Fmt_Otel log_format 'f "'b provider" string

record 'b telemetry_guard =
  tg_provider :: "'b provider option"

definition build_otlp_provider ::
  "('f, 'x, 'b) otel \<Rightarrow> bool \<Rightarrow> otlp_section \<Rightarrow> (message + 'b provider) option" where
  "build_otlp_provider ol in_runtime otlp =
    (case ol_exporter ol 10 (unwrap_or (ot_endpoint otlp) ''http://localhost:4318'') of
       Inl e \<Rightarrow> Some (Inl [Lit ''failed to build OTLP span exporter: '', Disp e])
     | Inr exporter \<Rightarrow>
         map_option (\<lambda>batch_processor.
             Inr \<lparr>pv_processor = batch_processor,
                  pv_sampler = ParentBased (TraceIdRatioBased (ot_sample_ratio otlp)),
                  pv_service_name = ot_service_name otlp\<rparr>)
           (ol_batch ol in_runtime exporter))"

definition build_otlp_provider_if_enabled ::
  "('f, 'x, 'b) otel \<Rightarrow> bool \<Rightarrow> otlp_section \<Rightarrow> (message + 'b provider option) option" where
  "build_otlp_provider_if_enabled ol in_runtime otlp =
    (if ot_enabled otlp
     then map_option (\<lambda>r. and_then r (\<lambda>p. Inr (Some p))) (build_otlp_provider ol in_runtime otlp)
     else Some (Inr None))"

text \<open>Installing the global subscriber a second time panics.\<close>

definition init_subscriber :: "('f, 'b) subscriber \<Rightarrow> ('f, 'b) subscriber option \<Rightarrow> ('f, 'b) subscriber option option" where
  "init_subscriber sub global = (case global of None \<Rightarrow> Some (Some sub) | Some _ \<Rightarrow> None)"

definition init_telemetry ::
  "('f, 'x, 'b) otel \<Rightarrow> bool \<Rightarrow> string \<Rightarrow> string \<Rightarrow> otlp_section \<Rightarrow> ('f, 'b) subscriber option \<Rightarrow>
   ((message + 'b telemetry_guard) \<times> ('f, 'b) subscriber option) option" where
  "init_telemetry ol in_runtime format level otlp global =
    (let filter = (case ol_try_filter ol level of Some f \<Rightarrow> f | None \<Rightarrow> ol_filter ol ''info'');
         style = (if format = ''json'' then Format_Json else Format_Compact)
     in case build_otlp_provider_if_enabled ol in_runtime otlp of
          None \<Rightarrow> None
        | Some (Inl e) \<Rightarrow> Some (Inl e, global)
        | Some (Inr (Some provider)) \<Rightarrow>
            map_option (\<lambda>g. (Inr \<lparr>tg_provider = Some provider\<rparr>, g))
              (init_subscriber (Fmt_Otel style filter provider ''hematite'') global)
        | Some (Inr None) \<Rightarrow>
            map_option (\<lambda>g. (Inr \<lparr>tg_provider = None\<rparr>, g)) (init_subscriber (Fmt style filter) global))"

text \<open>How the flush on the blocking pool ended within the seconds it was given.\<close>

datatype flush_result = Flush_Elapsed | Flush_Panicked string | Flush_Error string | Flush_Ok

definition shutdown :: "('b provider \<Rightarrow> nat \<Rightarrow> flush_result) \<Rightarrow> 'b telemetry_guard \<Rightarrow> message list" where
  "shutdown flush guard =
    (case tg_provider guard of
       None \<Rightarrow> []
     | Some provider \<Rightarrow>
         (case flush provider 5 of
            Flush_Elapsed \<Rightarrow> [[Lit (''OTLP provider shutdown timed out after 5s '' @ em_dash @ '' spans may be lost'')]]
          | Flush_Panicked e \<Rightarrow> [[Lit ''OTLP provider shutdown task panicked'', Disp e]]
          | Flush_Error e \<Rightarrow> [[Lit ''OTLP provider shutdown error'', Disp e]]
          | Flush_Ok \<Rightarrow> []))"

section \<open>Lemmas\<close>

text \<open>With the export off, nothing of the exporter or the processor is touched.\<close>

lemma init_telemetry_disabled:
  assumes "\<not> ot_enabled otlp"
  shows "init_telemetry (ol\<lparr>ol_exporter := ex, ol_batch := ba\<rparr>) in_runtime format level otlp global =
    init_telemetry ol in_runtime' format level otlp global"
  using assms by (simp add: init_telemetry_def build_otlp_provider_if_enabled_def split: option.split)

text \<open>
  The first initialisation inside the runtime returns: it fails exactly when the export is on and its exporter
  cannot be built, and then nothing is installed.
\<close>

lemma init_telemetry_first:
  assumes "\<And>x. ol_batch ol True x \<noteq> None"
  obtains (failed) e where "ot_enabled otlp" "ol_exporter ol 10 (unwrap_or (ot_endpoint otlp) ''http://localhost:4318'') = Inl e"
      "init_telemetry ol True format level otlp None =
        Some (Inl [Lit ''failed to build OTLP span exporter: '', Disp e], None)"
  | (installed) guard sub where "init_telemetry ol True format level otlp None = Some (Inr guard, Some sub)"
      "tg_provider guard \<noteq> None \<longleftrightarrow> ot_enabled otlp"
proof (cases "ot_enabled otlp")
  case True
  show thesis
  proof (cases "ol_exporter ol 10 (unwrap_or (ot_endpoint otlp) ''http://localhost:4318'')")
    case (Inl e)
    then show ?thesis
      using True by (intro failed) (auto simp: init_telemetry_def build_otlp_provider_if_enabled_def build_otlp_provider_def
          Let_def)
  next
    case (Inr x)
    obtain b where "ol_batch ol True x = Some b" using assms by blast
    with Inr True show ?thesis
      by (intro installed) (auto simp: init_telemetry_def build_otlp_provider_if_enabled_def build_otlp_provider_def
          init_subscriber_def Let_def)
  qed
qed (intro installed, auto simp: init_telemetry_def build_otlp_provider_if_enabled_def init_subscriber_def Let_def)

end
