(* ===== verification/Dial.thy ===== *)
theory Dial
  imports Proxy_State
begin

text \<open>
  Upstream dialling, \<open>crates/hematite-proxy/src/dial.rs\<close>. The name resolver, the TCP connect and
  the upstream TLS handshake are parameters: the resolver answers once per call, and a connect
  may answer differently at each attempt. What the code does to the outside is a list of
  events in the order it happens.
\<close>

section \<open>Definitions\<close>

type_synonym socket_addr = "ip_addr \<times> u16"

definition show_socket_addr :: "socket_addr \<Rightarrow> string" where
  "show_socket_addr a =
    (case a of
       (V4 v, port) \<Rightarrow> show_ip (V4 v) @ '':'' @ show_radix 10 (unat port)
     | (V6 v, port) \<Rightarrow> ''['' @ show_ip (V6 v) @ '']:'' @ show_radix 10 (unat port))"

datatype connect_result = Connected | Connect_Refused string | Connect_Timeout

record 't network =
  nw_lookup_host :: "string \<Rightarrow> u16 \<Rightarrow> string + socket_addr list"
  nw_connect :: "nat \<Rightarrow> socket_addr \<Rightarrow> connect_result"
  nw_server_name :: "string \<Rightarrow> bool"
  nw_tls :: "'t \<Rightarrow> socket_addr \<Rightarrow> string \<Rightarrow> string option"

datatype dial_error = Denied guard_denial | Failed message

datatype dial_event =
    Dialling string u16
  | Checked ip_addr
  | Connecting socket_addr
  | Counted dial_result

text \<open>A stream is known by the address it is connected to and whether TLS runs over it.\<close>

type_synonym stream = "socket_addr \<times> bool"

text \<open>The loop over the addresses: \<open>n\<close> counts the attempts, \<open>last_err\<close> is the last failure.\<close>

fun dial_loop ::
  "'t network \<Rightarrow> string \<Rightarrow> bool \<Rightarrow> ('s, 't, 'c) runtime \<Rightarrow> nat \<Rightarrow> message option \<Rightarrow> socket_addr list \<Rightarrow>
   (dial_error + stream) \<times> dial_event list" where
  "dial_loop net host scheme_https rt n last_err [] =
    (Inl (Failed (unwrap_or last_err [Lit ''dial failed''])), [Counted Dial_ConnectError])"
| "dial_loop net host scheme_https rt n last_err (addr # addrs) =
    (case Guard_check (rt_guard rt) (fst addr) of
       Inl denial \<Rightarrow> (Inl (Denied denial), [Checked (fst addr), Counted Dial_GuardDenied])
     | Inr _ \<Rightarrow>
         let (result, events) =
           (case nw_connect net n addr of
              Connect_Refused e \<Rightarrow>
                dial_loop net host scheme_https rt (n + 1)
                  (Some [Lit ''connect '', Disp (show_socket_addr addr), Lit '': '', Disp e]) addrs
            | Connect_Timeout \<Rightarrow>
                dial_loop net host scheme_https rt (n + 1)
                  (Some [Lit ''connect '', Disp (show_socket_addr addr), Lit '': dial timeout'']) addrs
            | Connected \<Rightarrow>
                if \<not> scheme_https then (Inr (addr, False), [Counted Dial_Ok])
                else if \<not> nw_server_name net host then
                  (Inl (Failed [Lit ''invalid upstream server name '', Debug host]), [])
                else (case nw_tls net (rt_upstream_tls rt) addr host of
                        None \<Rightarrow> (Inr (addr, True), [Counted Dial_Ok])
                      | Some e \<Rightarrow> (Inl (Failed [Lit ''upstream TLS: '', Disp e]), [Counted Dial_TlsError])))
         in (result, Checked (fst addr) # Connecting addr # events))"

text \<open>Resolution: an IP literal is its own address, any other name is looked up.\<close>

definition resolve_host :: "'t network \<Rightarrow> string \<Rightarrow> u16 \<Rightarrow> string + socket_addr list" where
  "resolve_host net host port =
    (case parse_ip host of Some ip \<Rightarrow> Inr [(ip, port)] | None \<Rightarrow> nw_lookup_host net host port)"

definition connect_upstream ::
  "'t network \<Rightarrow> allow_proof \<Rightarrow> string \<Rightarrow> u16 \<Rightarrow> bool \<Rightarrow> ('s, 't, 'c) runtime \<Rightarrow>
   (dial_error + stream) \<times> dial_event list" where
  "connect_upstream net proof host port scheme_https rt =
    map_prod id (\<lambda>events. Dialling host port # events)
    (case resolve_host net host port of
       Inl e \<Rightarrow> (Inl (Failed [Lit ''resolution failed for '', Debug host, Lit '': '', Disp e]), [Counted Dial_DnsError])
     | Inr addrs \<Rightarrow>
         if addrs = [] then (Inl (Failed [Lit ''no addresses for '', Debug host]), [Counted Dial_DnsError])
         else dial_loop net host scheme_https rt 0 None addrs)"

section \<open>How a dial ends\<close>

text \<open>
  The events of a dial: the sockets it opens, the calls of its counter, and the destinations it is for.
\<close>

definition dialled :: "dial_event list \<Rightarrow> socket_addr list" where
  "dialled evs = concat (map (\<lambda>e. case e of Connecting a \<Rightarrow> [a] | _ \<Rightarrow> []) evs)"

definition counted :: "dial_event list \<Rightarrow> dial_result list" where
  "counted evs = concat (map (\<lambda>e. case e of Counted r \<Rightarrow> [r] | _ \<Rightarrow> []) evs)"

definition dial_targets :: "dial_event list \<Rightarrow> (string \<times> u16) list" where
  "dial_targets evs = concat (map (\<lambda>e. case e of Dialling h p \<Rightarrow> [(h, p)] | _ \<Rightarrow> []) evs)"

lemma event_simps [simp]:
  "dialled [] = []" "counted [] = []" "dial_targets [] = []"
  "dialled (Connecting a # evs) = a # dialled evs" "dialled (Checked ip # evs) = dialled evs"
  "dialled (Counted r # evs) = dialled evs" "dialled (Dialling h p # evs) = dialled evs"
  "counted (Connecting a # evs) = counted evs" "counted (Dialling h p # evs) = counted evs"
  "counted (Checked ip # evs) = counted evs" "counted (Counted r # evs) = r # counted evs"
  "dial_targets (Connecting a # evs) = dial_targets evs" "dial_targets (Checked ip # evs) = dial_targets evs"
  "dial_targets (Counted r # evs) = dial_targets evs" "dial_targets (Dialling h p # evs) = (h, p) # dial_targets evs"
  by (simp_all add: dialled_def counted_def dial_targets_def)

text \<open>
  What a dial comes to, from the answers of the outside alone: the addresses that are allowed and do not connect are passed
  over; the first other one is denied, or is connected to, and then the handshake decides. A name that TLS cannot use
  has no result of its own.
\<close>

definition passed_over :: "'t network \<Rightarrow> guard \<Rightarrow> nat \<times> socket_addr \<Rightarrow> bool" where
  "passed_over net g na \<longleftrightarrow> Guard_check g (fst (snd na)) = Inr () \<and> nw_connect net (fst na) (snd na) \<noteq> Connected"

definition loop_end ::
  "'t network \<Rightarrow> string \<Rightarrow> bool \<Rightarrow> ('s, 't, 'c) runtime \<Rightarrow> (nat \<times> socket_addr) list \<Rightarrow> dial_result option" where
  "loop_end net host https rt nas =
    (case dropWhile (passed_over net (rt_guard rt)) nas of
       [] \<Rightarrow> Some Dial_ConnectError
     | (n, a) # _ \<Rightarrow>
         if Guard_check (rt_guard rt) (fst a) \<noteq> Inr () then Some Dial_GuardDenied
         else if \<not> https then Some Dial_Ok
         else if \<not> nw_server_name net host then None
         else if nw_tls net (rt_upstream_tls rt) a host = None then Some Dial_Ok
         else Some Dial_TlsError)"

definition dial_end :: "'t network \<Rightarrow> string \<Rightarrow> u16 \<Rightarrow> bool \<Rightarrow> ('s, 't, 'c) runtime \<Rightarrow> dial_result option" where
  "dial_end net host port https rt =
    (case resolve_host net host port of
       Inl e \<Rightarrow> Some Dial_DnsError
     | Inr addrs \<Rightarrow> if addrs = [] then Some Dial_DnsError else loop_end net host https rt (List.enumerate 0 addrs))"

text \<open>Whether a result is one that ends so.\<close>

fun ends_as :: "dial_result option \<Rightarrow> dial_error + stream \<Rightarrow> bool" where
  "ends_as (Some Dial_Ok) (Inr _) \<longleftrightarrow> True"
| "ends_as (Some Dial_GuardDenied) (Inl (Denied _)) \<longleftrightarrow> True"
| "ends_as r (Inl (Failed _)) \<longleftrightarrow> r \<noteq> Some Dial_Ok \<and> r \<noteq> Some Dial_GuardDenied"
| "ends_as _ _ \<longleftrightarrow> False"

abbreviation results_of :: "dial_result option \<Rightarrow> dial_result list" where
  "results_of r \<equiv> (case r of Some d \<Rightarrow> [d] | None \<Rightarrow> [])"

text \<open>
  A run of the loop on a list of addresses: it dials a prefix of them, each one after its
  check, and the result tells how the run ended.
\<close>

definition dial_spec ::
  "guard \<Rightarrow> bool \<Rightarrow> socket_addr list \<Rightarrow> (dial_error + stream) \<times> dial_event list \<Rightarrow> bool" where
  "dial_spec g scheme_https addrs re \<longleftrightarrow>
    prefix (dialled (snd re)) addrs \<and>
    (\<forall>a \<in> set (dialled (snd re)). Guard_check g (fst a) = Inr ()) \<and>
    (case fst re of
       Inr (a, tls) \<Rightarrow> dialled (snd re) \<noteq> [] \<and> a = last (dialled (snd re)) \<and> tls = scheme_https
     | Inl (Denied d) \<Rightarrow> \<exists>a rest. addrs = dialled (snd re) @ a # rest \<and> Guard_check g (fst a) = Inl d
     | Inl (Failed m) \<Rightarrow> True)"

lemma dial_spec_step:
  assumes "Guard_check g (fst a) = Inr ()" "dial_spec g https addrs (res, evs)"
  shows "dial_spec g https (a # addrs) (res, Checked (fst a) # Connecting a # evs)"
  using assms by (auto simp: dial_spec_def split: sum.splits dial_error.splits prod.splits)

text \<open>The end of the loop as the loop goes along.\<close>

lemma loop_end_simps:
  "loop_end net host https rt [] = Some Dial_ConnectError"
  "Guard_check (rt_guard rt) (fst a) = Inl d \<Longrightarrow> loop_end net host https rt ((n, a) # nas) = Some Dial_GuardDenied"
  "Guard_check (rt_guard rt) (fst a) = Inr u \<Longrightarrow> nw_connect net n a \<noteq> Connected \<Longrightarrow>
    loop_end net host https rt ((n, a) # nas) = loop_end net host https rt nas"
  "Guard_check (rt_guard rt) (fst a) = Inr u \<Longrightarrow> nw_connect net n a = Connected \<Longrightarrow>
    loop_end net host https rt ((n, a) # nas) =
      (if \<not> https then Some Dial_Ok else if \<not> nw_server_name net host then None
       else if nw_tls net (rt_upstream_tls rt) a host = None then Some Dial_Ok else Some Dial_TlsError)"
  by (simp_all add: loop_end_def passed_over_def)

lemma dial_loop_ends:
  "ends_as (loop_end net host https rt (List.enumerate n addrs)) (fst (dial_loop net host https rt n last_err addrs)) \<and>
   counted (snd (dial_loop net host https rt n last_err addrs)) = results_of (loop_end net host https rt (List.enumerate n addrs)) \<and>
   dial_targets (snd (dial_loop net host https rt n last_err addrs)) = []"
proof (induction net host https rt n last_err addrs rule: dial_loop.induct)
  case (2 net host https rt n last_err addr addrs)
  show ?case
  proof (cases "Guard_check (rt_guard rt) (fst addr)")
    case (Inl d)
    then show ?thesis by (simp add: loop_end_simps)
  next
    case (Inr u)
    show ?thesis
    proof (cases "nw_connect net n addr")
      case Connected
      then show ?thesis using Inr by (simp add: loop_end_simps(4) case_prod_beta split: option.split)
    next
      case (Connect_Refused e)
      then show ?thesis using Inr 2(1) [OF Inr Connect_Refused] by (simp add: loop_end_simps(3) case_prod_beta)
    next
      case Connect_Timeout
      then show ?thesis using Inr 2(2) [OF Inr Connect_Timeout] by (simp add: loop_end_simps(3) case_prod_beta)
    qed
  qed
qed (simp add: loop_end_simps)

lemma dial_loop_spec: "dial_spec (rt_guard rt) https addrs (dial_loop net host https rt n last_err addrs)"
proof (induction net host https rt n last_err addrs rule: dial_loop.induct)
  case (2 net host https rt n last_err addr addrs)
  show ?case
  proof (cases "Guard_check (rt_guard rt) (fst addr)")
    case (Inl d)
    then show ?thesis by (simp add: dial_spec_def)
  next
    case (Inr u)
    then have ok: "Guard_check (rt_guard rt) (fst addr) = Inr ()" by simp
    show ?thesis
    proof (cases "nw_connect net n addr")
      case Connected
      have "dial_spec (rt_guard rt) https (addr # addrs) (res, Checked (fst addr) # Connecting addr # evs)"
        if "(res, evs) = (if \<not> https then (Inr (addr, False), [Counted Dial_Ok])
             else if \<not> nw_server_name net host then
               (Inl (Failed [Lit ''invalid upstream server name '', Debug host]), [])
             else (case nw_tls net (rt_upstream_tls rt) addr host of
                     None \<Rightarrow> (Inr (addr, True), [Counted Dial_Ok])
                   | Some e \<Rightarrow> (Inl (Failed [Lit ''upstream TLS: '', Disp e]), [Counted Dial_TlsError])))"
        for res evs
        using that ok by (auto simp: dial_spec_def split: if_splits option.splits)
      then show ?thesis using Connected Inr by (simp add: case_prod_beta)
    next
      case (Connect_Refused e)
      then show ?thesis using Inr ok 2(1) [OF Inr Connect_Refused]
        by (simp add: case_prod_beta dial_spec_step)
    next
      case Connect_Timeout
      then show ?thesis using Inr ok 2(2) [OF Inr Connect_Timeout]
        by (simp add: case_prod_beta dial_spec_step)
    qed
  qed
qed (simp add: dial_spec_def)

lemma connect_upstream_spec:
  assumes "connect_upstream net proof host port https rt = (res, evs)"
  shows "(case resolve_host net host port of
      Inl e \<Rightarrow> dialled evs = [] | Inr addrs \<Rightarrow> dial_spec (rt_guard rt) https addrs (res, evs))"
    and "ends_as (dial_end net host port https rt) res"
    and "counted evs = results_of (dial_end net host port https rt)"
    and "dial_targets evs = [(host, port)]"
proof -
  have loop: "dial_spec (rt_guard rt) https addrs (r, Dialling h p # es)"
    if "dial_loop net host https rt 0 None addrs = (r, es)" for addrs r es h p
    using dial_loop_spec [of rt https addrs net host 0 None]
    by (auto simp: that dial_spec_def split: sum.splits dial_error.splits)
  have nil: "dial_spec (rt_guard rt) https [] (Inl (Failed m), [Dialling host port, Counted r])" for m r
    by (simp add: dial_spec_def)
  show "(case resolve_host net host port of
      Inl e \<Rightarrow> dialled evs = [] | Inr addrs \<Rightarrow> dial_spec (rt_guard rt) https addrs (res, evs))"
    using assms loop nil by (auto simp: connect_upstream_def map_prod_def split: sum.splits if_splits prod.splits)
  show "ends_as (dial_end net host port https rt) res" "counted evs = results_of (dial_end net host port https rt)"
    "dial_targets evs = [(host, port)]"
    using assms dial_loop_ends [of net host https rt 0]
    by (auto simp: connect_upstream_def dial_end_def map_prod_def case_prod_beta split: sum.splits if_splits)
qed

lemma connect_upstream_guards:
  assumes "connect_upstream net proof host port https rt = (res, evs)"
  shows "(\<forall>a \<in> set (dialled evs). Guard_check (rt_guard rt) (fst a) = Inr ()) \<and>
    (\<forall>a tls. res = Inr (a, tls) \<longrightarrow> a \<in> set (dialled evs) \<and> tls = https)"
proof (cases "resolve_host net host port")
  case (Inl e)
  then show ?thesis using assms by (auto simp: connect_upstream_def)
next
  case (Inr addrs)
  then show ?thesis using connect_upstream_spec(1) [OF assms] by (auto simp: dial_spec_def)
qed

text \<open>
  C15. The dialler: the sockets it opens are to a prefix of the resolved addresses, in their
  order, and none of them to an address the guard denies. A success is the last address
  dialled, with TLS exactly when the client's leg has it; a denial is the denial of the
  first address not dialled, so no address after a denied one is tried. A dial ends as the answers of the outside have it,
  and it is counted once, under that end; only one that ends at a name TLS cannot use is counted nowhere.
\<close>

theorem connect_upstream_guarded:
  assumes "connect_upstream net proof host port https rt = (res, evs)"
  shows "(case resolve_host net host port of
      Inl e \<Rightarrow> dialled evs = [] | Inr addrs \<Rightarrow> dial_spec (rt_guard rt) https addrs (res, evs)) \<and>
    ends_as (dial_end net host port https rt) res \<and>
    counted evs = (case dial_end net host port https rt of Some r \<Rightarrow> [r] | None \<Rightarrow> []) \<and>
    (dial_end net host port https rt = None \<longrightarrow> https \<and> \<not> nw_server_name net host)"
proof -
  have "dial_end net host port https rt = None \<longrightarrow> https \<and> \<not> nw_server_name net host"
    by (auto simp: dial_end_def loop_end_def split: sum.splits if_splits list.splits)
  with connect_upstream_spec [OF assms] show ?thesis by blast
qed

definition test_network :: "unit network" where
  "test_network =
    \<lparr>nw_lookup_host = (\<lambda>host port. Inr [(V4 0x0A000001, port), (V4 0x0A000002, port), (V4 0x7F000001, port)]),
     nw_connect = (\<lambda>n a. if n = 0 then Connect_Timeout else Connected),
     nw_server_name = (\<lambda>_. True), nw_tls = (\<lambda>_ _ _. None)\<rparr>"

definition test_runtime :: "guard \<Rightarrow> (unit, unit, unit) runtime" where
  "test_runtime g =
    \<lparr>rt_pipeline = [], rt_guard = g, rt_max_request_body_bytes = 16, rt_upstream_response_header_timeout = 30,
     rt_dial_timeout = 30, rt_upstream_tls = (), rt_cert_cache = None, rt_tunnel_passthrough = []\<rparr>"

theorem connect_upstream_guarded_witness:
  "\<exists>evs. dialled evs = [(V4 0x0A000001, 80), (V4 0x0A000002, 80)] \<and> counted evs = [Dial_Ok] \<and>
     dial_spec \<lparr>gu_deny = []\<rparr> False [(V4 0x0A000001, 80), (V4 0x0A000002, 80), (V4 0x7F000001, 80)]
       (Inr ((V4 0x0A000002, 80), False), evs)"
proof -
  let ?rt = "test_runtime \<lparr>gu_deny = []\<rparr>"
  let ?evs = "[Dialling ''a.b'' 80, Checked (V4 0x0A000001), Connecting (V4 0x0A000001, 80),
        Checked (V4 0x0A000002), Connecting (V4 0x0A000002, 80), Counted Dial_Ok]"
  have look: "resolve_host test_network ''a.b'' 80 =
      Inr [(V4 0x0A000001, 80), (V4 0x0A000002, 80), (V4 0x7F000001, 80)]"
    by code_simp
  have run: "connect_upstream test_network AllowProof ''a.b'' 80 False ?rt = (Inr ((V4 0x0A000002, 80), False), ?evs)"
    unfolding connect_upstream_def look
    by (simp add: test_network_def test_runtime_def Guard_check_def)
  have "dial_end test_network ''a.b'' 80 False ?rt = Some Dial_Ok"
    unfolding dial_end_def look
    by (simp add: loop_end_def passed_over_def test_network_def test_runtime_def Guard_check_def)
  moreover have "rt_guard ?rt = \<lparr>gu_deny = []\<rparr>" by (simp add: test_runtime_def)
  ultimately show ?thesis using connect_upstream_guarded [OF run] look by (intro exI [of _ ?evs]) simp
qed

text \<open>An IP literal in a denied block is refused without a lookup or a socket.\<close>

lemma literal_denied:
  assumes "parse_ip host = Some ip" "Guard_check (rt_guard rt) ip = Inl d"
  shows "connect_upstream net proof host port https rt =
    (Inl (Denied d), [Dialling host port, Checked ip, Counted Dial_GuardDenied])"
  using assms by (simp add: connect_upstream_def resolve_host_def)

text \<open>A dial over TLS to a name that is none, once connected, fails without being counted.\<close>

lemma invalid_name_uncounted:
  assumes "resolve_host net host port = Inr (a # addrs)" "Guard_check (rt_guard rt) (fst a) = Inr ()"
    and "nw_connect net 0 a = Connected" "\<not> nw_server_name net host"
  shows "connect_upstream net proof host port True rt =
    (Inl (Failed [Lit ''invalid upstream server name '', Debug host]),
     [Dialling host port, Checked (fst a), Connecting a])"
  using assms by (simp add: connect_upstream_def)

end
