(* ===== verification/Hop.thy ===== *)
theory Hop
  imports Summary
begin

text \<open>
  Header hygiene, \<open>crates/hematite-proxy/src/hop.rs\<close>: the hop-by-hop headers are stripped from
  what is forwarded.
\<close>

section \<open>Definitions\<close>

definition HOP_BY_HOP :: "string list" where
  "HOP_BY_HOP = [''connection'', ''proxy-connection'', ''keep-alive'', ''proxy-authenticate'',
     ''proxy-authorization'', ''te'', ''trailer'', ''transfer-encoding'', ''upgrade'']"

definition connection_tokens :: "string \<Rightarrow> string list" where
  "connection_tokens v = map to_lower (filter (\<lambda>t. t \<noteq> []) (map trim (split_on CHR '','' v)))"

definition connection_named :: "headers \<Rightarrow> string list" where
  "connection_named hs =
    concat (map (\<lambda>(n, v). if eq_ignore_case n ''connection'' then connection_tokens v else []) hs)"

definition lists_token :: "string \<Rightarrow> string \<Rightarrow> bool" where
  "lists_token token v \<longleftrightarrow> list_ex (\<lambda>t. eq_ignore_case (trim t) token) (split_on CHR '','' v)"

fun strip_loop :: "bool \<Rightarrow> string list \<Rightarrow> headers \<Rightarrow> headers" where
  "strip_loop ws named [] = []"
| "strip_loop ws named ((name, v) # hs) =
    (let lower = to_lower name
     in if lower = ''te'' then
          (if lists_token ''trailers'' v then (name, ''trailers'') # strip_loop ws named hs
           else strip_loop ws named hs)
        else if ws \<and> (lower = ''upgrade'' \<or> lower = ''connection'') then (name, v) # strip_loop ws named hs
        else if lower \<in> set HOP_BY_HOP \<or> lower \<in> set named then strip_loop ws named hs
        else (name, v) # strip_loop ws named hs)"

definition strip_hop_by_hop :: "headers \<Rightarrow> bool \<Rightarrow> headers" where
  "strip_hop_by_hop hs ws = strip_loop ws (connection_named hs) hs"

section \<open>What is left\<close>

text \<open>A header is end-to-end when neither the fixed set nor a Connection value names it.\<close>

definition end_to_end :: "headers \<Rightarrow> string \<Rightarrow> bool" where
  "end_to_end hs name \<longleftrightarrow> to_lower name \<notin> set HOP_BY_HOP \<and> to_lower name \<notin> set (connection_named hs)"

text \<open>Names are compared whole; the classical rules must not take them apart letter by letter.\<close>

declare map_eq_Cons_D [rule del] Cons_eq_map_D [rule del]

lemma fixed_names [simp]:
  "''te'' \<in> set HOP_BY_HOP" "''connection'' \<in> set HOP_BY_HOP" "''upgrade'' \<in> set HOP_BY_HOP"
  by (simp_all add: HOP_BY_HOP_def)

lemma lower_connection: "to_lower ''connection'' = ''connection''"
  by code_simp

lemma strip_loop_kept:
  "(n, v) \<in> set (strip_loop ws named hs) \<Longrightarrow>
     (to_lower n = ''te'' \<and> v = ''trailers'' \<and> (\<exists>v'. (n, v') \<in> set hs \<and> lists_token ''trailers'' v'))
   \<or> (ws \<and> to_lower n \<in> {''upgrade'', ''connection''} \<and> (n, v) \<in> set hs)
   \<or> (to_lower n \<notin> set HOP_BY_HOP \<and> to_lower n \<notin> set named \<and> (n, v) \<in> set hs)"
  by (induction ws named hs rule: strip_loop.induct) (auto simp: Let_def split: if_splits)

lemma strip_loop_order:
  "filter (\<lambda>(n, v). to_lower n \<notin> set HOP_BY_HOP \<and> to_lower n \<notin> set named) (strip_loop ws named hs) =
   filter (\<lambda>(n, v). to_lower n \<notin> set HOP_BY_HOP \<and> to_lower n \<notin> set named) hs"
  by (induction ws named hs rule: strip_loop.induct) (auto simp: Let_def)

lemma connection_named_strip:
  "connection_named (strip_loop ws named hs) = (if ws then connection_named hs else [])"
proof (induction ws named hs rule: strip_loop.induct)
  case (2 ws named name v hs)
  have step: "connection_named ((n, v) # hs) =
      (if to_lower n = ''connection'' then connection_tokens v else []) @ connection_named hs" for n v hs
    unfolding connection_named_def eq_ignore_case_def lower_connection by simp
  show ?case using 2 by (cases "to_lower name = ''te''"; cases "to_lower name = ''connection''";
        cases ws) (simp_all add: Let_def step del: list.map(2))
qed (simp add: connection_named_def)

lemma strip_loop_again:
  "set named' \<subseteq> set named \<Longrightarrow> strip_loop ws named' (strip_loop ws named hs) = strip_loop ws named hs"
proof (induction ws named hs rule: strip_loop.induct)
  case (2 ws named name v hs)
  have trailers: "lists_token ''trailers'' ''trailers''" by code_simp
  show ?case using 2 trailers by (auto simp: Let_def)
qed simp

lemma strip_hop_by_hop_idem: "strip_hop_by_hop (strip_hop_by_hop hs ws) ws = strip_hop_by_hop hs ws"
  unfolding strip_hop_by_hop_def connection_named_strip by (rule strip_loop_again) (cases ws; simp)

lemma strip_kept:
  assumes "(n, v) \<in> set (strip_hop_by_hop hs ws)"
  shows "end_to_end hs n
     \<or> (to_lower n = ''te'' \<and> v = ''trailers'' \<and> (\<exists>v'. (n, v') \<in> set hs \<and> lists_token ''trailers'' v'))
     \<or> (ws \<and> to_lower n \<in> {''upgrade'', ''connection''} \<and> (n, v) \<in> set hs)"
  using strip_loop_kept [OF assms [unfolded strip_hop_by_hop_def]] unfolding end_to_end_def by blast

text \<open>
  C36. Header hygiene: what is forwarded is, in the order of the client, every end-to-end
  header unchanged, and besides those only \<open>TE: trailers\<close> where the client listed that coding
  and, for a WebSocket handshake, the Upgrade and Connection headers. Stripping again changes
  nothing.
\<close>

theorem strip_hop_by_hop_correct:
  "filter (\<lambda>(n, v). end_to_end hs n) (strip_hop_by_hop hs ws) = filter (\<lambda>(n, v). end_to_end hs n) hs \<and>
   (\<forall>n v. (n, v) \<in> set (strip_hop_by_hop hs ws) \<longrightarrow> end_to_end hs n
     \<or> (to_lower n = ''te'' \<and> v = ''trailers'' \<and> (\<exists>v'. (n, v') \<in> set hs \<and> lists_token ''trailers'' v'))
     \<or> (ws \<and> to_lower n \<in> {''upgrade'', ''connection''} \<and> (n, v) \<in> set hs)) \<and>
   strip_hop_by_hop (strip_hop_by_hop hs ws) ws = strip_hop_by_hop hs ws"
proof (intro conjI allI impI)
  show "filter (\<lambda>(n, v). end_to_end hs n) (strip_hop_by_hop hs ws) = filter (\<lambda>(n, v). end_to_end hs n) hs"
    unfolding strip_hop_by_hop_def end_to_end_def by (rule strip_loop_order)
  show "end_to_end hs n
     \<or> (to_lower n = ''te'' \<and> v = ''trailers'' \<and> (\<exists>v'. (n, v') \<in> set hs \<and> lists_token ''trailers'' v'))
     \<or> (ws \<and> to_lower n \<in> {''upgrade'', ''connection''} \<and> (n, v) \<in> set hs)"
    if "(n, v) \<in> set (strip_hop_by_hop hs ws)" for n v
    using that by (rule strip_kept)
qed (rule strip_hop_by_hop_idem)

theorem strip_hop_by_hop_correct_witness:
  "(''TE'', ''trailers'') \<in> set (strip_hop_by_hop [(''TE'', ''gzip, Trailers''), (''Connection'', ''x-a'')] False) \<and>
   (\<exists>v'. (''TE'', v') \<in> set [(''TE'', ''gzip, Trailers''), (''Connection'', ''x-a'')] \<and>
      lists_token ''trailers'' v')"
proof -
  let ?hs = "[(''TE'', ''gzip, Trailers''), (''Connection'', ''x-a'')]"
  have kept: "(''TE'', ''trailers'') \<in> set (strip_hop_by_hop ?hs False)" by code_simp
  moreover have "\<not> end_to_end ?hs ''TE''" by code_simp
  ultimately have "\<exists>v'. (''TE'', v') \<in> set ?hs \<and> lists_token ''trailers'' v'"
    using strip_hop_by_hop_correct [of ?hs False] by blast
  then show ?thesis using kept by (rule_tac conjI)
qed

end
