(* ===== verification/Http.thy ===== *)
theory Http
  imports Dial Hop
begin

text \<open>
  Request handling, \<open>crates/hematite-proxy/src/http.rs\<close>: extracting the target, the checks before
  the pipeline, the body buffer, the pipeline, the dial, the upstream request and the response.
  What \<open>hyper\<close> hands to the handler is a record of its parts: the request line as parsed, the
  headers in the order the header map yields them (names in lower case), and the body as the
  sequence of its frames. The constructors of \<open>hyper\<close> that can fail are parameters, and so is
  the upstream: a request sent on a stream gives a response or a failure.
\<close>

section \<open>Definitions\<close>

subsection \<open>What hyper provides\<close>

datatype frame = Frame_Data bytes | Frame_Trailers | Frame_Error

record http_request =
  hr_method :: string
  hr_authority :: "(string \<times> u16 option) option"
  hr_path :: string
  hr_query :: "string option"
  hr_headers :: "(string \<times> bytes) list"
  hr_frames :: "frame list"

datatype out_body = Buffered bytes | Chained bytes "frame list"

record upstream_request =
  ur_method :: string
  ur_uri :: string
  ur_headers :: "(string \<times> bytes) list"
  ur_body :: out_body

record 'b upstream_response =
  up_status :: u16
  up_headers :: "(string \<times> bytes) list"
  up_body :: 'b

datatype 'b sent =
    Handshake_Failed string
  | Request_Failed string
  | Header_Timeout
  | Answered "'b upstream_response"

record hyper =
  hy_to_str :: "bytes \<Rightarrow> string option"
  hy_method :: "string \<Rightarrow> string option"
  hy_uri :: "string \<Rightarrow> string option"
  hy_name :: "string \<Rightarrow> string + string"
  hy_value :: "string \<Rightarrow> string option"
  hy_status :: "u16 \<Rightarrow> bool"

datatype 'b reply_body = Reply_Empty | Reply_Bytes bytes | Reply_Stream 'b

record 'b reply =
  re_status :: u16
  re_headers :: "(string \<times> bytes) list"
  re_body :: "'b reply_body"

text \<open>\<open>HeaderMap::get\<close>: the first value of a name.\<close>

definition header_get :: "(string \<times> bytes) list \<Rightarrow> string \<Rightarrow> bytes option" where
  "header_get hs name = map_of hs name"

definition header_str :: "hyper \<Rightarrow> (string \<times> bytes) list \<Rightarrow> string \<Rightarrow> string option" where
  "header_str hy hs name = (case header_get hs name of None \<Rightarrow> None | Some v \<Rightarrow> hy_to_str hy v)"

definition header_pairs :: "(string \<times> bytes) list \<Rightarrow> headers" where
  "header_pairs hs = map (\<lambda>(n, v). (n, from_utf8_lossy v)) hs"

subsection \<open>The connection context\<close>

record conn_ctx =
  cn_remote_addr :: string
  cn_mode :: mode
  cn_sni :: "string option"
  cn_scheme_https :: bool
  cn_forced_upstream :: "(string \<times> u16) option"
  cn_tunnel_target :: "string option"
  cn_tunnel_traces :: "trace list"

definition http_ctx :: "string \<Rightarrow> conn_ctx" where
  "http_ctx remote =
    \<lparr>cn_remote_addr = remote, cn_mode = Http, cn_sni = None, cn_scheme_https = False,
     cn_forced_upstream = None, cn_tunnel_target = None, cn_tunnel_traces = []\<rparr>"

subsection \<open>The target\<close>

definition u16_of :: "string \<Rightarrow> u16 option" where
  "u16_of s = map_option of_nat (parse_u16 s)"

definition split_plain :: "string \<Rightarrow> string \<times> u16 option" where
  "split_plain s =
    (case rsplit_once CHR '':'' s of
       Some (h, p) \<Rightarrow> if CHR '':'' \<notin> set h then (to_lower h, u16_of p) else (to_lower s, None)
     | None \<Rightarrow> (to_lower s, None))"

definition split_host_port :: "string \<Rightarrow> string \<times> u16 option" where
  "split_host_port str =
    (let s = trim str
     in case strip_prefix ''['' s of
          None \<Rightarrow> split_plain s
        | Some rest \<Rightarrow>
            (case find_sub '']'' rest of
               None \<Rightarrow> split_plain s
             | Some e \<Rightarrow>
                 (to_lower (take e rest),
                  case strip_prefix '':'' (drop (e + 1) rest) of None \<Rightarrow> None | Some p \<Rightarrow> u16_of p)))"

text \<open>One escape: \<open>u8::from_str_radix\<close> on the two bytes after a percent sign, if they are UTF-8.\<close>

definition hex_escape :: "bytes \<Rightarrow> nat option" where
  "hex_escape two = from_str_radix 255 16 (if utf8_valid two then two else ''zz'')"

fun percent_decode_segment :: "bytes \<Rightarrow> bytes" where
  "percent_decode_segment [] = []"
| "percent_decode_segment (c # cs) =
    (if c = CHR 0x25 \<and> 2 \<le> length cs then
       (case hex_escape (take 2 cs) of
          Some b \<Rightarrow> char_of b # percent_decode_segment (drop 2 cs)
        | None \<Rightarrow> c # percent_decode_segment cs)
     else c # percent_decode_segment cs)"

definition has_dot_segment :: "string \<Rightarrow> bool" where
  "has_dot_segment path \<longleftrightarrow>
    list_ex (\<lambda>seg. percent_decode_segment seg = ''.'' \<or> percent_decode_segment seg = ''..'') (split_on CHR ''/'' path)"

record target =
  tg_host :: string
  tg_port :: u16
  tg_path :: string
  tg_query :: string

datatype target_error = Bad string string

definition extract_target :: "hyper \<Rightarrow> http_request \<Rightarrow> u16 \<Rightarrow> target_error + target" where
  "extract_target hy req default_port =
    (let host_header = map_option split_host_port (header_str hy (hr_headers req) ''host'');
         auth = map_option (\<lambda>(h, p). (to_lower h, p)) (hr_authority req);
         mk = (\<lambda>h p. Inr \<lparr>tg_host = h, tg_port = unwrap_or p default_port, tg_path = hr_path req,
                           tg_query = unwrap_or (hr_query req) []\<rparr>)
     in case (auth, host_header) of
          (Some (ah, ap), Some (hh, _)) \<Rightarrow>
            if ah \<noteq> hh then Inl (Bad ''request-target authority disagrees with Host header'' ah) else mk ah ap
        | (Some (ah, ap), None) \<Rightarrow> mk ah ap
        | (None, Some (hh, hp)) \<Rightarrow>
            if hh \<noteq> [] then mk hh hp else Inl (Bad ''missing or empty Host / authority'' [])
        | (None, None) \<Rightarrow> Inl (Bad ''missing or empty Host / authority'' []))"

definition resolve_target :: "hyper \<Rightarrow> http_request \<Rightarrow> conn_ctx \<Rightarrow> target_error + target" where
  "resolve_target hy req ctx =
    (case cn_forced_upstream ctx of
       Some (host, port) \<Rightarrow>
         Inr \<lparr>tg_host = host, tg_port = port, tg_path = hr_path req, tg_query = unwrap_or (hr_query req) []\<rparr>
     | None \<Rightarrow>
         and_then (extract_target hy req (if cn_scheme_https ctx then 443 else 80)) (\<lambda>t.
           case cn_sni ctx of
             Some sni \<Rightarrow>
               if fst (split_host_port sni) \<noteq> tg_host t then Inl (Bad ''SNI does not match Host'' (tg_host t))
               else Inr t
           | None \<Rightarrow> Inr t))"

definition is_websocket :: "hyper \<Rightarrow> http_request \<Rightarrow> bool" where
  "is_websocket hy req \<longleftrightarrow>
    hr_method req = ''GET'' \<and>
    (case header_str hy (hr_headers req) ''upgrade'' of
       Some v \<Rightarrow> eq_ignore_case v ''websocket'' | None \<Rightarrow> False) \<and>
    (case header_str hy (hr_headers req) ''connection'' of
       Some v \<Rightarrow> lists_token ''upgrade'' v | None \<Rightarrow> False)"

subsection \<open>Spans\<close>

text \<open>
  The tracing spans of a request, as the telemetry layer exports them: a name, the parent, and attributes given when the span
  is created. \<open>record_outcome\<close> adds attributes to the root span.
\<close>

datatype attribute = Attr_Str string | Attr_Int nat | Attr_Mode mode | Attr_Action action

record span =
  sp_name :: string
  sp_parent :: "string option"
  sp_fields :: "(string \<times> attribute) list"

text \<open>The root span of a request; no context is taken from the client.\<close>

definition request_span :: "conn_ctx \<Rightarrow> http_request \<Rightarrow> target \<Rightarrow> span" where
  "request_span ctx req t =
    \<lparr>sp_name = ''hematite.request'', sp_parent = None,
     sp_fields = [(''method'', Attr_Str (hr_method req)), (''host'', Attr_Str (tg_host t)), (''port'', Attr_Int (unat (tg_port t))),
       (''path'', Attr_Str (tg_path t)), (''mode'', Attr_Mode (cn_mode ctx))]\<rparr>"

definition dial_span :: "string \<Rightarrow> u16 \<Rightarrow> span" where
  "dial_span host port =
    \<lparr>sp_name = ''dial'', sp_parent = Some ''hematite.request'',
     sp_fields = [(''host'', Attr_Str host), (''port'', Attr_Int (unat port))]\<rparr>"

definition upstream_span :: span where
  "upstream_span = \<lparr>sp_name = ''upstream'', sp_parent = Some ''hematite.request'', sp_fields = []\<rparr>"

definition record_outcome :: "audit_record \<Rightarrow> (string \<times> attribute) list" where
  "record_outcome r =
    [(''action'', Attr_Action (ar_action r))] @
    (case ar_rejected_by r of Some rb \<Rightarrow> [(''rejected_by'', Attr_Str rb)] | None \<Rightarrow> []) @
    (case ar_status_code r of Some sc \<Rightarrow> [(''status'', Attr_Int (unat sc))] | None \<Rightarrow> [])"

subsection \<open>The handler\<close>

text \<open>
  What a request does: spans are created and attributes recorded on the root, the dial, a request sent, a bridge, a record emitted.
\<close>

datatype http_event =
    Ev_Span span
  | Ev_Outcome "(string \<times> attribute) list"
  | Ev_Dial dial_event
  | Ev_Send stream upstream_request
  | Ev_Bridge stream
  | Ev_Emit emission

record ('t, 'b) http_env =
  he_hyper :: hyper
  he_net :: "'t network"
  he_send :: "stream \<Rightarrow> upstream_request \<Rightarrow> nat \<Rightarrow> 'b sent"
  he_elapsed :: f64

type_synonym ('b, 's) handled = "'b reply \<times> http_event list \<times> pending_audit \<times> 's"

definition base_record :: "conn_ctx \<Rightarrow> string \<Rightarrow> string \<Rightarrow> string \<Rightarrow> action \<Rightarrow> audit_record" where
  "base_record ctx host meth path act =
    \<lparr>ar_host = host, ar_method = meth, ar_path = path, ar_remote_addr = Some (cn_remote_addr ctx),
     ar_sni = cn_sni ctx, ar_mode = cn_mode ctx, ar_action = act, ar_status_code = None, ar_duration_ms = 0,
     ar_rejected_by = None, ar_stubbed_by = None, ar_error = None, ar_request_transforms = [],
     ar_response_transforms = [],
     ar_tunnel = map_option (\<lambda>t. \<lparr>tg_target = t, tg_request_transforms = cn_tunnel_traces ctx,
       tg_passthrough = False\<rparr>) (cn_tunnel_target ctx),
     ar_guard = None, ar_body_capture = None\<rparr>"

definition status_response :: "u16 \<Rightarrow> 'b reply" where
  "status_response status = \<lparr>re_status = status, re_headers = [], re_body = Reply_Empty\<rparr>"

text \<open>Headers that \<open>hyper\<close> refuses are an error toward the upstream and are dropped toward the client.\<close>

definition typed_header :: "hyper \<Rightarrow> string \<times> string \<Rightarrow> string + (string \<times> bytes)" where
  "typed_header hy h =
    (case h of (n, v) \<Rightarrow>
       and_then (hy_name hy n) (\<lambda>n'. case hy_value hy v of Some e \<Rightarrow> Inl e | None \<Rightarrow> Inr (n', v)))"

definition client_headers :: "hyper \<Rightarrow> headers \<Rightarrow> (string \<times> bytes) list" where
  "client_headers hy hs = concat (map (\<lambda>h. case typed_header hy h of Inr h' \<Rightarrow> [h'] | Inl _ \<Rightarrow> []) hs)"

definition build_response :: "hyper \<Rightarrow> response \<Rightarrow> 'b reply" where
  "build_response hy r =
    (case try_collect (typed_header hy) (rs_headers r) of
       Inr hs \<Rightarrow>
         if hy_status hy (rs_status r)
         then \<lparr>re_status = rs_status r, re_headers = hs, re_body = Reply_Bytes (rs_body r)\<rparr>
         else status_response 502
     | Inl _ \<Rightarrow> status_response 502)"

text \<open>The body loop: \<^const>\<open>None\<close> is a client that went away.\<close>

fun read_body :: "nat \<Rightarrow> bytes \<Rightarrow> frame list \<Rightarrow> (bytes \<times> bool \<times> frame list) option" where
  "read_body cap buffered frames =
    (if cap < length buffered then Some (buffered, True, frames)
     else (case frames of
             [] \<Rightarrow> Some (buffered, False, [])
           | Frame_Data d # rest \<Rightarrow> read_body cap (buffered @ d) rest
           | Frame_Trailers # rest \<Rightarrow> read_body cap buffered rest
           | Frame_Error # rest \<Rightarrow> None))"

declare read_body.simps [simp del]

definition emit_with ::
  "('t, 'b) http_env \<Rightarrow> pending_audit \<Rightarrow> audit_record \<Rightarrow> 'b reply \<Rightarrow> http_event list \<Rightarrow> 's \<Rightarrow> ('b, 's) handled" where
  "emit_with env pending r reply events s =
    (let (es, pending') = PendingAudit_emit pending (r\<lparr>ar_duration_ms := he_elapsed env\<rparr>)
     in (reply, events @ map Ev_Emit es, pending', s))"

text \<open>Once there is a span, its outcome is recorded before the record is emitted.\<close>

definition emit_recorded ::
  "('t, 'b) http_env \<Rightarrow> pending_audit \<Rightarrow> audit_record \<Rightarrow> 'b reply \<Rightarrow> http_event list \<Rightarrow> 's \<Rightarrow> ('b, 's) handled" where
  "emit_recorded env pending r reply events s =
    emit_with env pending r reply (events @ [Ev_Outcome (record_outcome r)]) s"

definition mk_summary :: "conn_ctx \<Rightarrow> http_request \<Rightarrow> target \<Rightarrow> nat \<Rightarrow> bytes \<Rightarrow> bool \<Rightarrow> request_summary" where
  "mk_summary ctx req t cap buffered over_cap =
    \<lparr>rq_mode = cn_mode ctx, rq_method = hr_method req, rq_host = tg_host t, rq_port = tg_port t,
     rq_path = tg_path t, rq_query = tg_query t, rq_headers = header_pairs (hr_headers req),
     rq_body = (if over_cap then \<lparr>bd_bytes = take cap buffered, bd_over_cap = True\<rparr>
                else \<lparr>bd_bytes = buffered, bd_over_cap = False\<rparr>),
     rq_sni = cn_sni ctx, rq_remote_addr = Some (cn_remote_addr ctx)\<rparr>"

definition upstream_headers :: "request_summary \<Rightarrow> bool \<Rightarrow> bool \<Rightarrow> headers" where
  "upstream_headers summary is_ws over_cap =
    (let out = strip_hop_by_hop (rq_headers summary) is_ws
     in if over_cap then out else filter (\<lambda>(n, v). \<not> eq_ignore_case n ''content-length'') out)"

definition build_upstream :: "hyper \<Rightarrow> request_summary \<Rightarrow> headers \<Rightarrow> out_body \<Rightarrow> string + upstream_request" where
  "build_upstream hy summary out_headers out_body =
    (let path_and_query =
       (if rq_query summary = [] then rq_path summary else rq_path summary @ ''?'' @ rq_query summary)
     in case hy_method hy (rq_method summary) of
          Some e \<Rightarrow> Inl e
        | None \<Rightarrow>
            (case hy_uri hy path_and_query of
               Some e \<Rightarrow> Inl e
             | None \<Rightarrow>
                 and_then (try_collect (typed_header hy) out_headers) (\<lambda>hs.
                   Inr \<lparr>ur_method = rq_method summary, ur_uri = path_and_query, ur_headers = hs,
                        ur_body = out_body\<rparr>)))"

definition send_upstream ::
  "('t, 'b) http_env \<Rightarrow> stream \<Rightarrow> upstream_request \<Rightarrow> nat \<Rightarrow> message + 'b upstream_response" where
  "send_upstream env st ur timeout =
    (case he_send env st ur timeout of
       Handshake_Failed e \<Rightarrow> Inl [Lit ''upstream handshake: '', Disp e]
     | Request_Failed e \<Rightarrow> Inl [Lit ''upstream request: '', Disp e]
     | Header_Timeout \<Rightarrow> Inl [Lit ''upstream response header timeout'']
     | Answered resp \<Rightarrow> Inr resp)"

definition stripped_reply ::
  "hyper \<Rightarrow> 'b upstream_response \<Rightarrow> bool \<Rightarrow> 'b reply_body \<Rightarrow> 'b reply" where
  "stripped_reply hy resp ws body =
    \<lparr>re_status = up_status resp,
     re_headers = client_headers hy (strip_hop_by_hop (header_pairs (up_headers resp)) ws), re_body = body\<rparr>"

text \<open>From the upstream's response to the client's.\<close>

definition handle_response ::
  "('t, 'b) http_env \<Rightarrow> ('s, 't, 'c) runtime \<Rightarrow> bool \<Rightarrow> stream \<Rightarrow> request_summary \<Rightarrow> audit_record \<Rightarrow>
   'b upstream_response \<Rightarrow> http_event list \<Rightarrow> pending_audit \<Rightarrow> 's \<Rightarrow> ('b, 's) handled" where
  "handle_response env rt is_ws st summary r resp events pending s =
    (if is_ws \<and> up_status resp = 101 then
       emit_recorded env pending (r\<lparr>ar_action := Allow, ar_status_code := Some 101\<rparr>)
         (stripped_reply (he_hyper env) resp True Reply_Empty) (events @ [Ev_Bridge st]) s
     else
       (let (ro, s') = evaluate_response (rt_pipeline rt) s summary;
            r' = r\<lparr>ar_response_transforms := ro_traces ro\<rparr>
        in case ro_action ro of
             Forward \<Rightarrow>
               emit_recorded env pending (r'\<lparr>ar_action := Allow, ar_status_code := Some (up_status resp)\<rparr>)
                 (stripped_reply (he_hyper env) resp False (Reply_Stream (up_body resp))) events s'
           | Replace by_name response stub \<Rightarrow>
               emit_recorded env pending
                 (if stub
                  then r'\<lparr>ar_action := Stub, ar_status_code := Some (rs_status response), ar_stubbed_by := Some by_name\<rparr>
                  else r'\<lparr>ar_action := Reject, ar_status_code := Some (rs_status response), ar_rejected_by := Some by_name\<rparr>)
                 (build_response (he_hyper env) response) events s'
           | Action_Failed by_name msg \<Rightarrow>
               emit_recorded env pending (r'\<lparr>ar_action := Error, ar_status_code := Some 502, ar_error := Some msg\<rparr>)
                 (status_response 502) events s'))"

text \<open>From the pipeline's approval to the upstream's response.\<close>

definition handle_allowed ::
  "('t, 'b) http_env \<Rightarrow> ('s, 't, 'c) runtime \<Rightarrow> conn_ctx \<Rightarrow> allow_proof \<Rightarrow> bool \<Rightarrow> request_summary \<Rightarrow>
   bytes \<Rightarrow> bool \<Rightarrow> frame list \<Rightarrow> audit_record \<Rightarrow> http_event list \<Rightarrow> pending_audit \<Rightarrow> 's \<Rightarrow> ('b, 's) handled" where
  "handle_allowed env rt ctx proof is_ws summary buffered over_cap rest r events0 pending s =
    (let (dial_host, dial_port) = unwrap_or (cn_forced_upstream ctx) (rq_host summary, rq_port summary);
         (dialled_to, dial_events) =
           connect_upstream (he_net env) proof dial_host dial_port (cn_scheme_https ctx) rt;
         events = events0 @ [Ev_Span (dial_span dial_host dial_port)] @ map Ev_Dial dial_events
     in case dialled_to of
          Inl (Denied denial) \<Rightarrow>
            emit_recorded env pending
              (r\<lparr>ar_action := Reject, ar_rejected_by := Some ''guard'', ar_status_code := Some 502, ar_guard := Some denial\<rparr>)
              (status_response 502) events s
        | Inl (Failed msg) \<Rightarrow>
            emit_recorded env pending (r\<lparr>ar_action := Error, ar_status_code := Some 502, ar_error := Some msg\<rparr>)
              (status_response 502) events s
        | Inr st \<Rightarrow>
            (let out_headers = upstream_headers summary is_ws over_cap;
                 out_body = (if over_cap then Chained buffered rest else Buffered (bd_bytes (rq_body summary)))
             in case build_upstream (he_hyper env) summary out_headers out_body of
                  Inl e \<Rightarrow>
                    emit_recorded env pending
                      (r\<lparr>ar_action := Error, ar_status_code := Some 502,
                         ar_error := Some [Lit ''building upstream request: '', Disp e]\<rparr>)
                      (status_response 502) events s
                | Inr ur \<Rightarrow>
                    (case send_upstream env st ur (rt_upstream_response_header_timeout rt) of
                       Inl msg \<Rightarrow>
                         emit_recorded env pending
                           (r\<lparr>ar_action := Error, ar_status_code := Some 502, ar_error := Some msg\<rparr>)
                           (status_response 502) (events @ [Ev_Span upstream_span, Ev_Send st ur]) s
                     | Inr resp \<Rightarrow>
                         handle_response env rt is_ws st summary r resp (events @ [Ev_Span upstream_span, Ev_Send st ur]) pending s)))"

text \<open>From the resolved target through the pipeline.\<close>

definition handle_target ::
  "('t, 'b) http_env \<Rightarrow> ('s, 't, 'c) runtime \<Rightarrow> conn_ctx \<Rightarrow> http_request \<Rightarrow> target \<Rightarrow> pending_audit \<Rightarrow> 's \<Rightarrow>
   ('b, 's) handled" where
  "handle_target env rt ctx req t pending s =
    (if has_dot_segment (tg_path t) then
       emit_with env pending
         ((base_record ctx (tg_host t) (hr_method req) (tg_path t) Reject)
            \<lparr>ar_rejected_by := Some ''listener'', ar_status_code := Some 400\<rparr>)
         (status_response 400) [] s
     else let opened = [Ev_Span (request_span ctx req t)] in
       case read_body (rt_max_request_body_bytes rt) [] (hr_frames req) of
       None \<Rightarrow>
         emit_recorded env pending (base_record ctx (tg_host t) (hr_method req) (tg_path t) ClientCancel)
           (status_response 400) opened s
     | Some (buffered, over_cap, rest) \<Rightarrow>
         (let (po, summary, s') =
            evaluate_request (rt_pipeline rt) s
              (mk_summary ctx req t (rt_max_request_body_bytes rt) buffered over_cap);
              r = (base_record ctx (rq_host summary) (hr_method req) (po_request_path po) Allow)
                    \<lparr>ar_request_transforms := po_request_traces po, ar_body_capture := po_body_capture po\<rparr>
          in case po_outcome po of
               Outcome_Reject by_name response \<Rightarrow>
                 emit_recorded env pending
                   (r\<lparr>ar_action := Reject,
                      ar_status_code := Some (unwrap_or (map_option rs_status response) 403),
                      ar_rejected_by := Some by_name\<rparr>)
                   (case response of Some resp \<Rightarrow> build_response (he_hyper env) resp
                                   | None \<Rightarrow> status_response 403) opened s'
             | Outcome_Stub by_name response \<Rightarrow>
                 emit_recorded env pending
                   (r\<lparr>ar_action := Stub, ar_status_code := Some (rs_status response), ar_stubbed_by := Some by_name\<rparr>)
                   (build_response (he_hyper env) response) opened s'
             | Outcome_Error by_name msg \<Rightarrow>
                 emit_recorded env pending (r\<lparr>ar_action := Error, ar_status_code := Some 502, ar_error := Some msg\<rparr>)
                   (status_response 502) opened s'
             | Outcome_Continue proof \<Rightarrow>
                 handle_allowed env rt ctx proof (is_websocket (he_hyper env) req) summary buffered over_cap rest
                   r opened pending s'))"

text \<open>The whole handler; the pending audit is dropped when it returns.\<close>

definition handle ::
  "('t, 'b) http_env \<Rightarrow> ('s, 't, 'c) runtime \<Rightarrow> conn_ctx \<Rightarrow> http_request \<Rightarrow> 's \<Rightarrow> 'b reply \<times> http_event list \<times> 's" where
  "handle env rt ctx req s =
    (let pending = PendingAudit_new (Some (cn_remote_addr ctx));
         (reply, events, pending', s') =
           (case resolve_target (he_hyper env) req ctx of
              Inl (Bad reason host) \<Rightarrow>
                emit_with env pending
                  ((base_record ctx host (hr_method req) (hr_path req) Reject)
                     \<lparr>ar_rejected_by := Some ''listener'', ar_status_code := Some 400\<rparr>)
                  (status_response 400) [] s
            | Inr t \<Rightarrow> handle_target env rt ctx req t pending s)
     in (reply, events @ map Ev_Emit (PendingAudit_drop pending'), s'))"

declare map_eq_Cons_D [rule del] Cons_eq_map_D [rule del]

section \<open>Events of a run\<close>

definition emitted :: "http_event list \<Rightarrow> emission list" where
  "emitted evs = concat (map (\<lambda>e. case e of Ev_Emit x \<Rightarrow> [x] | _ \<Rightarrow> []) evs)"

definition dial_events :: "http_event list \<Rightarrow> dial_event list" where
  "dial_events evs = concat (map (\<lambda>e. case e of Ev_Dial x \<Rightarrow> [x] | _ \<Rightarrow> []) evs)"

definition sends :: "http_event list \<Rightarrow> (stream \<times> upstream_request) list" where
  "sends evs = concat (map (\<lambda>e. case e of Ev_Send st ur \<Rightarrow> [(st, ur)] | _ \<Rightarrow> []) evs)"

definition created :: "http_event list \<Rightarrow> span list" where
  "created evs = concat (map (\<lambda>e. case e of Ev_Span sp \<Rightarrow> [sp] | _ \<Rightarrow> []) evs)"

definition outcomes :: "http_event list \<Rightarrow> (string \<times> attribute) list list" where
  "outcomes evs = concat (map (\<lambda>e. case e of Ev_Outcome fs \<Rightarrow> [fs] | _ \<Rightarrow> []) evs)"

lemma http_event_simps [simp]:
  "emitted [] = []" "emitted (xs @ ys) = emitted xs @ emitted ys" "emitted (Ev_Emit e # evs) = e # emitted evs"
  "emitted (Ev_Dial d # evs) = emitted evs" "emitted (Ev_Send st ur # evs) = emitted evs"
  "emitted (Ev_Span sp # evs) = emitted evs" "emitted (Ev_Outcome fs # evs) = emitted evs"
  "emitted (Ev_Bridge st # evs) = emitted evs" "emitted (map Ev_Dial ds) = []" "emitted (map Ev_Emit es) = es"
  "dial_events [] = []" "dial_events (xs @ ys) = dial_events xs @ dial_events ys"
  "dial_events (Ev_Emit e # evs) = dial_events evs" "dial_events (Ev_Dial d # evs) = d # dial_events evs"
  "dial_events (Ev_Send st ur # evs) = dial_events evs" "dial_events (Ev_Bridge st # evs) = dial_events evs"
  "dial_events (Ev_Span sp # evs) = dial_events evs" "dial_events (Ev_Outcome fs # evs) = dial_events evs"
  "dial_events (map Ev_Dial ds) = ds" "dial_events (map Ev_Emit es) = []"
  "sends [] = []" "sends (xs @ ys) = sends xs @ sends ys" "sends (Ev_Emit e # evs) = sends evs"
  "sends (Ev_Dial d # evs) = sends evs" "sends (Ev_Send st ur # evs) = (st, ur) # sends evs"
  "sends (Ev_Span sp # evs) = sends evs" "sends (Ev_Outcome fs # evs) = sends evs"
  "sends (Ev_Bridge st # evs) = sends evs" "sends (map Ev_Dial ds) = []" "sends (map Ev_Emit es) = []"
  by (simp_all add: emitted_def dial_events_def sends_def) (induction ds; simp)+

lemma span_event_simps [simp]:
  "created [] = []" "created (xs @ ys) = created xs @ created ys" "created (Ev_Span sp # evs) = sp # created evs"
  "created (Ev_Dial d # evs) = created evs" "created (Ev_Send st ur # evs) = created evs"
  "created (Ev_Emit e # evs) = created evs" "created (Ev_Outcome fs # evs) = created evs"
  "created (Ev_Bridge st # evs) = created evs" "created (map Ev_Dial ds) = []" "created (map Ev_Emit es) = []"
  "outcomes [] = []" "outcomes (xs @ ys) = outcomes xs @ outcomes ys" "outcomes (Ev_Outcome fs # evs) = fs # outcomes evs"
  "outcomes (Ev_Dial d # evs) = outcomes evs" "outcomes (Ev_Send st ur # evs) = outcomes evs"
  "outcomes (Ev_Emit e # evs) = outcomes evs" "outcomes (Ev_Span sp # evs) = outcomes evs"
  "outcomes (Ev_Bridge st # evs) = outcomes evs" "outcomes (map Ev_Dial ds) = []" "outcomes (map Ev_Emit es) = []"
  by (simp_all add: created_def outcomes_def comp_def)

text \<open>
  What every way through the handler promises: one record, emitted at the level of its action,
  and everything asked of the record, the reply and the events before it.
\<close>

definition recorded ::
  "('b reply \<Rightarrow> audit_record \<Rightarrow> http_event list \<Rightarrow> bool) \<Rightarrow> ('b, 's) handled \<Rightarrow> bool" where
  "recorded P h \<longleftrightarrow>
    (case h of (reply, evs, p, s) \<Rightarrow>
       \<exists>r evs0. evs = evs0 @ [Ev_Emit (r, level_for (ar_action r))] \<and> emitted evs0 = [] \<and> pa_emitted p \<and> P reply r evs0)"

lemma recorded_emit_with:
  "emitted events = [] \<Longrightarrow> P reply (r\<lparr>ar_duration_ms := he_elapsed env\<rparr>) events \<Longrightarrow>
   recorded P (emit_with env pending r reply events s)"
  by (simp add: recorded_def emit_with_def PendingAudit_emit_def)

text \<open>
  A truthful record: it is well formed, it names the client, the listener's mode and the
  request's method, its status is the one the client got unless the client was given a 502
  in place of a response that could not be built, and an allowed request was sent upstream.
\<close>

definition truthful ::
  "conn_ctx \<Rightarrow> http_request \<Rightarrow> 'b reply \<Rightarrow> audit_record \<Rightarrow> http_event list \<Rightarrow> bool" where
  "truthful ctx req reply r evs \<longleftrightarrow>
    record_wf r \<and> ar_remote_addr r = Some (cn_remote_addr ctx) \<and> ar_mode r = cn_mode ctx \<and>
    ar_sni r = cn_sni ctx \<and> ar_method r = hr_method req \<and>
    (ar_status_code r = None \<longleftrightarrow> ar_action r = ClientCancel) \<and>
    (\<forall>c. ar_status_code r = Some c \<longrightarrow> re_status reply = c \<or> re_status reply = 502 \<and> re_body reply = Reply_Empty) \<and>
    (ar_action r = Allow \<longrightarrow> sends evs \<noteq> []) \<and>
    (\<forall>b. re_body reply = Reply_Stream b \<longrightarrow> ar_action r = Allow) \<and>
    (ar_guard r \<noteq> None \<longrightarrow> sends evs = [])"

text \<open>The record template the later stages fill in.\<close>

definition fresh_record :: "conn_ctx \<Rightarrow> http_request \<Rightarrow> audit_record \<Rightarrow> bool" where
  "fresh_record ctx req r \<longleftrightarrow>
    ar_rejected_by r = None \<and> ar_stubbed_by r = None \<and> ar_error r = None \<and> ar_guard r = None \<and>
    ar_remote_addr r = Some (cn_remote_addr ctx) \<and> ar_mode r = cn_mode ctx \<and>
    ar_sni r = cn_sni ctx \<and> ar_method r = hr_method req"

lemma fresh_base_record [simp]: "fresh_record ctx req (base_record ctx host (hr_method req) path act)"
  by (simp add: fresh_record_def base_record_def)

lemma base_record_simps [simp]:
  "ar_action (base_record ctx host m path act) = act" "ar_status_code (base_record ctx host m path act) = None"
  by (simp_all add: base_record_def)

lemma status_response_simps [simp]:
  "re_status (status_response c) = c" "re_body (status_response c) = Reply_Empty"
  by (simp_all add: status_response_def)

lemma build_response_cases:
  "(re_status (build_response hy r) = rs_status r \<or>
      re_status (build_response hy r) = 502 \<and> re_body (build_response hy r) = Reply_Empty) \<and>
   re_body (build_response hy r) \<noteq> Reply_Stream b"
  by (simp add: build_response_def split: sum.splits)

lemma build_response_no_stream [simp]: "re_body (build_response hy r) \<noteq> Reply_Stream b"
  by (rule conjunct2 [OF build_response_cases])

lemmas truthful_simps = truthful_def fresh_record_def record_wf_def stripped_reply_def

lemma truthful_duration [simp]: "truthful ctx req reply (r\<lparr>ar_duration_ms := d\<rparr>) evs = truthful ctx req reply r evs"
  by (simp add: truthful_def record_wf_def)

lemma recorded_truthful:
  "emitted events = [] \<Longrightarrow> truthful ctx req reply r events \<Longrightarrow>
   recorded (truthful ctx req) (emit_with env pending r reply events s)"
  "emitted events = [] \<Longrightarrow> truthful ctx req reply r events \<Longrightarrow>
   recorded (truthful ctx req) (emit_recorded env pending r reply events s)"
  unfolding emit_recorded_def by (rule recorded_emit_with, simp_all, simp add: truthful_def)+

lemma truthful_built:
  assumes "fresh_record ctx req r"
  shows "truthful ctx req (build_response hy resp)
      (r\<lparr>ar_action := Reject, ar_status_code := Some (rs_status resp), ar_rejected_by := Some by_name\<rparr>) evs"
    and "truthful ctx req (build_response hy resp)
      (r\<lparr>ar_action := Stub, ar_status_code := Some (rs_status resp), ar_stubbed_by := Some by_name\<rparr>) evs"
  using assms build_response_cases [of hy resp] by (auto simp: truthful_simps)

lemma truthful_status:
  assumes "fresh_record ctx req r"
  shows "truthful ctx req (status_response c)
      (r\<lparr>ar_action := Reject, ar_status_code := Some c, ar_rejected_by := Some by_name\<rparr>) evs"
    and "truthful ctx req (status_response c)
      (r\<lparr>ar_action := Error, ar_status_code := Some c, ar_error := Some msg\<rparr>) evs"
    and "sends evs = [] \<Longrightarrow> truthful ctx req (status_response c)
      (r\<lparr>ar_action := Reject, ar_rejected_by := Some by_name, ar_status_code := Some c, ar_guard := Some d\<rparr>) evs"
  using assms by (auto simp: truthful_simps)

lemma truthful_listener:
  "truthful ctx req (status_response c)
     ((base_record ctx host (hr_method req) path Reject)\<lparr>ar_rejected_by := Some by_name, ar_status_code := Some c\<rparr>) evs"
  "truthful ctx req (status_response c) (base_record ctx host (hr_method req) path ClientCancel) evs"
  by (auto simp: truthful_simps base_record_def)

lemma truthful_forward:
  assumes "fresh_record ctx req r" "sends evs \<noteq> []"
  shows "truthful ctx req (stripped_reply hy resp ws body)
      (r\<lparr>ar_action := Allow, ar_status_code := Some (up_status resp)\<rparr>) evs"
  using assms by (auto simp: truthful_simps)

lemma fresh_record_response [simp]:
  "fresh_record ctx req (r\<lparr>ar_response_transforms := ts\<rparr>) = fresh_record ctx req r"
  by (simp add: fresh_record_def)

lemma handle_response_truthful:
  assumes fresh: "fresh_record ctx req r" and "emitted events = []" "sends events \<noteq> []"
  shows "recorded (truthful ctx req) (handle_response env rt is_ws st summary r resp events pending s)"
proof (cases "is_ws \<and> up_status resp = 101")
  case True
  have "truthful ctx req (stripped_reply (he_hyper env) resp True Reply_Empty)
      (r\<lparr>ar_action := Allow, ar_status_code := Some 101\<rparr>) (events @ [Ev_Bridge st])"
    using truthful_forward [OF fresh, of "events @ [Ev_Bridge st]" _ resp] True assms(3) by simp
  with True assms(2) show ?thesis
    by (simp add: handle_response_def recorded_truthful)
next
  case False
  obtain ro s' where ro: "evaluate_response (rt_pipeline rt) s summary = (ro, s')" by force
  have fresh': "fresh_record ctx req (r\<lparr>ar_response_transforms := ro_traces ro\<rparr>)" using fresh by simp
  show ?thesis
    unfolding handle_response_def if_not_P [OF False] using assms(2,3) ro
    by (cases "ro_action ro")
      (simp_all add: Let_def recorded_truthful truthful_forward [OF fresh'] truthful_built [OF fresh']
        truthful_status [OF fresh'])
qed

lemma handle_allowed_truthful:
  assumes "fresh_record ctx req r" "emitted events0 = []" "sends events0 = []"
  shows "recorded (truthful ctx req)
    (handle_allowed env rt ctx pf is_ws summary buffered over_cap rest r events0 pending s)"
proof -
  obtain h p where hp: "unwrap_or (cn_forced_upstream ctx) (rq_host summary, rq_port summary) = (h, p)" by force
  obtain res des where dial: "connect_upstream (he_net env) pf h p (cn_scheme_https ctx) rt = (res, des)" by force
  show ?thesis
  proof (cases res)
    case (Inl e)
    then show ?thesis using hp dial assms(2,3)
      by (cases e) (simp_all add: handle_allowed_def recorded_truthful truthful_status [OF assms(1)])
  next
    case (Inr st)
    define ob where "ob = (if over_cap then Chained buffered rest else Buffered (bd_bytes (rq_body summary)))"
    show ?thesis
    proof (cases "build_upstream (he_hyper env) summary (upstream_headers summary is_ws over_cap) ob")
      case (Inl e)
      then show ?thesis using Inr assms hp dial unfolding ob_def
        by (simp add: handle_allowed_def recorded_truthful truthful_status [OF assms(1)])
    next
      case (Inr ur)
      show ?thesis
      proof (cases "send_upstream env st ur (rt_upstream_response_header_timeout rt)")
        case (Inl msg)
        then show ?thesis using Inr \<open>res = Inr st\<close> assms hp dial unfolding ob_def
          by (simp add: handle_allowed_def recorded_truthful truthful_status [OF assms(1)])
      next
        case (Inr resp)
        then show ?thesis
          using \<open>build_upstream _ _ _ _ = Inr ur\<close> \<open>res = Inr st\<close> hp dial
            handle_response_truthful [OF assms(1),
              of "events0 @ Ev_Span (dial_span h p) # map Ev_Dial des @ [Ev_Span upstream_span, Ev_Send st ur]"]
            assms(2)
          unfolding ob_def by (simp add: handle_allowed_def)
      qed
    qed
  qed
qed

lemma handle_target_truthful:
  "recorded (truthful ctx req) (handle_target env rt ctx req t pending s)"
proof (cases "has_dot_segment (tg_path t)")
  case True
  then show ?thesis
    by (simp add: handle_target_def recorded_truthful truthful_listener)
next
  case no_dot: False
  show ?thesis
  proof (cases "read_body (rt_max_request_body_bytes rt) [] (hr_frames req)")
    case None
    then show ?thesis using no_dot
      by (simp add: handle_target_def recorded_truthful truthful_listener)
  next
    case (Some brs)
    then obtain b oc rest where brs: "read_body (rt_max_request_body_bytes rt) [] (hr_frames req) = Some (b, oc, rest)"
      by (cases brs) auto
    obtain po summary s' where run: "evaluate_request (rt_pipeline rt) s
        (mk_summary ctx req t (rt_max_request_body_bytes rt) b oc) = (po, summary, s')" by (metis prod_cases3)
    define r where "r = (base_record ctx (rq_host summary) (hr_method req) (po_request_path po) Allow)
        \<lparr>ar_request_transforms := po_request_traces po, ar_body_capture := po_body_capture po\<rparr>"
    have r: "fresh_record ctx req r" by (simp add: r_def fresh_record_def base_record_def)
    show ?thesis
      using no_dot brs run
      by (cases "po_outcome po")
        (simp_all add: handle_target_def r_def [symmetric] recorded_truthful handle_allowed_truthful [OF r]
          truthful_built [OF r] truthful_status [OF r] split: option.split)
  qed
qed

lemma handle_recorded:
  assumes "handle env rt ctx req s = (reply, evs, s')"
  shows "\<exists>r evs0. evs = evs0 @ [Ev_Emit (r, level_for (ar_action r))] \<and> emitted evs0 = [] \<and>
    truthful ctx req reply r evs0"
proof -
  define pending where "pending = PendingAudit_new (Some (cn_remote_addr ctx))"
  define h where "h = (case resolve_target (he_hyper env) req ctx of
      Inl (Bad reason host) \<Rightarrow>
        emit_with env pending
          ((base_record ctx host (hr_method req) (hr_path req) Reject)
             \<lparr>ar_rejected_by := Some ''listener'', ar_status_code := Some 400\<rparr>)
          (status_response 400) [] s
    | Inr t \<Rightarrow> handle_target env rt ctx req t pending s)"
  have rec: "recorded (truthful ctx req) h"
    unfolding h_def
    by (auto simp: recorded_truthful truthful_listener handle_target_truthful split: sum.split target_error.split)
  obtain rp es p s1 where h: "h = (rp, es, p, s1)" by (metis prod_cases4)
  have "handle env rt ctx req s = (rp, es @ map Ev_Emit (PendingAudit_drop p), s1)"
    using h unfolding handle_def h_def pending_def by simp
  moreover have "PendingAudit_drop p = []" using rec h by (auto simp: recorded_def PendingAudit_drop_def)
  ultimately show ?thesis using rec h assms by (auto simp: recorded_def)
qed

text \<open>
  C5. One request, one record: whatever the request, the pipeline, the network and the
  upstream do, the handler emits exactly one audit record, as its last act and at the level of
  its action. The record is truthful: it carries the client's address, the listener's mode,
  the SNI and the method; only a client that went away has no status; the status is the one the client received
  (or the client received a bare 502); an Allow means the request was sent upstream; only under
  an Allow does the client get the upstream's body; a guard denial means nothing was sent.
\<close>

theorem handle_one_record:
  assumes "handle env rt ctx req s = (reply, evs, s')"
  shows "\<exists>r evs0. evs = evs0 @ [Ev_Emit (r, level_for (ar_action r))] \<and> emitted evs0 = [] \<and>
    truthful ctx req reply r evs0"
  using assms by (rule handle_recorded)

text \<open>A small instance: one allowed host, an upstream that answers 200.\<close>

definition test_hyper :: hyper where
  "test_hyper =
    \<lparr>hy_to_str = Some, hy_method = (\<lambda>_. None), hy_uri = (\<lambda>_. None), hy_name = (\<lambda>n. Inr (to_lower n)),
     hy_value = (\<lambda>_. None), hy_status = (\<lambda>_. True)\<rparr>"

definition test_env :: "(unit, string) http_env" where
  "test_env =
    \<lparr>he_hyper = test_hyper, he_net = test_network,
     he_send = (\<lambda>_ _ _. Answered \<lparr>up_status = 200, up_headers = [(''connection'', ''close'')], up_body = ''ok''\<rparr>),
     he_elapsed = 3\<rparr>"

definition test_rt :: "(unit, unit, unit) runtime" where
  "test_rt = (test_runtime \<lparr>gu_deny = []\<rparr>)\<lparr>rt_pipeline :=
     [Allowlist \<lparr>al_domains = [\<lparr>dg_suffix = ''a.b'', dg_wildcard = False\<rparr>], al_cidrs = [], al_warn = False\<rparr>]\<rparr>"

definition test_request :: http_request where
  "test_request =
    \<lparr>hr_method = ''POST'', hr_authority = None, hr_path = ''/x'', hr_query = Some ''q=1'',
     hr_headers = [(''host'', ''A.b:8080''), (''content-length'', ''2''), (''te'', ''trailers'')],
     hr_frames = [Frame_Data ''h'', Frame_Trailers, Frame_Data ''i'']\<rparr>"

theorem handle_one_record_witness:
  "\<exists>reply evs r. handle test_env test_rt (http_ctx ''10.0.0.9:1'') test_request () = (reply, evs, ()) \<and>
     emitted evs = [(r, level_for (ar_action r))] \<and> ar_remote_addr r = Some ''10.0.0.9:1'' \<and> ar_action r = Allow"
proof -
  obtain reply evs where run: "handle test_env test_rt (http_ctx ''10.0.0.9:1'') test_request () = (reply, evs, ())"
    by (metis prod_cases3 old.unit.exhaust)
  obtain r evs0 where evs: "evs = evs0 @ [Ev_Emit (r, level_for (ar_action r))]" "emitted evs0 = []"
    and r: "truthful (http_ctx ''10.0.0.9:1'') test_request reply r evs0"
    using handle_one_record [OF run] by blast
  have "map (ar_action \<circ> fst) (emitted (fst (snd (handle test_env test_rt (http_ctx ''10.0.0.9:1'') test_request ())))) = [Allow]"
    by code_simp
  then show ?thesis using run evs r by (auto simp: truthful_def http_ctx_def)
qed

section \<open>No way around the pipeline\<close>

text \<open>What a run of the handler that reached out to the network has behind it.\<close>

definition approved ::
  "('t, 'b) http_env \<Rightarrow> ('s, 't, 'c) runtime \<Rightarrow> conn_ctx \<Rightarrow> http_request \<Rightarrow> target \<Rightarrow> 's \<Rightarrow>
   bytes \<Rightarrow> bool \<Rightarrow> frame list \<Rightarrow> pipeline_outcome \<Rightarrow> request_summary \<Rightarrow> bool" where
  "approved env rt ctx req t s buffered over_cap rest po summary \<longleftrightarrow>
    resolve_target (he_hyper env) req ctx = Inr t \<and> \<not> has_dot_segment (tg_path t) \<and>
    read_body (rt_max_request_body_bytes rt) [] (hr_frames req) = Some (buffered, over_cap, rest) \<and>
    (\<exists>s'. evaluate_request (rt_pipeline rt) s
        (mk_summary ctx req t (rt_max_request_body_bytes rt) buffered over_cap) = (po, summary, s')) \<and>
    is_allowed (po_outcome po)"

text \<open>The dial and the request of an approved run.\<close>

definition dial_of ::
  "('t, 'b) http_env \<Rightarrow> ('s, 't, 'c) runtime \<Rightarrow> conn_ctx \<Rightarrow> request_summary \<Rightarrow> (dial_error + stream) \<times> dial_event list" where
  "dial_of env rt ctx summary =
    (case unwrap_or (cn_forced_upstream ctx) (rq_host summary, rq_port summary) of
       (host, port) \<Rightarrow> connect_upstream (he_net env) AllowProof host port (cn_scheme_https ctx) rt)"

definition request_of ::
  "('t, 'b) http_env \<Rightarrow> http_request \<Rightarrow> bytes \<Rightarrow> bool \<Rightarrow> frame list \<Rightarrow> request_summary \<Rightarrow> string + upstream_request" where
  "request_of env req buffered over_cap rest summary =
    build_upstream (he_hyper env) summary (upstream_headers summary (is_websocket (he_hyper env) req) over_cap)
      (if over_cap then Chained buffered rest else Buffered (bd_bytes (rq_body summary)))"

lemma emit_with_events [simp]:
  "dial_events (fst (snd (emit_with env pending r reply events s))) = dial_events events"
  "sends (fst (snd (emit_with env pending r reply events s))) = sends events"
  "dial_events (fst (snd (emit_recorded env pending r reply events s))) = dial_events events"
  "sends (fst (snd (emit_recorded env pending r reply events s))) = sends events"
  by (simp_all add: emit_recorded_def emit_with_def PendingAudit_emit_def)

lemma handle_response_events [simp]:
  "dial_events (fst (snd (handle_response env rt ws st summary r resp events pending s))) = dial_events events"
  "sends (fst (snd (handle_response env rt ws st summary r resp events pending s))) = sends events"
  by (auto simp: handle_response_def Let_def split: prod.split response_action.split)

lemma handle_allowed_events:
  assumes "h = handle_allowed env rt ctx AllowProof (is_websocket (he_hyper env) req) summary buffered over_cap rest r events0 pending s"
    and "dial_events events0 = []" "sends events0 = []"
  shows "dial_events (fst (snd h)) = snd (dial_of env rt ctx summary) \<and>
    (\<forall>(st, ur) \<in> set (sends (fst (snd h))).
       fst (dial_of env rt ctx summary) = Inr st \<and> request_of env req buffered over_cap rest summary = Inr ur) \<and>
    length (sends (fst (snd h))) \<le> 1"
  unfolding assms(1) handle_allowed_def dial_of_def request_of_def Let_def
  using assms(2,3) by (simp split: prod.split sum.split dial_error.split)

lemma handle_target_events:
  assumes "handle_target env rt ctx req t pending s = (reply, evs, p, s')"
    and "resolve_target (he_hyper env) req ctx = Inr t"
    and "dial_events evs \<noteq> [] \<or> sends evs \<noteq> []"
  shows "\<exists>buffered over_cap rest po summary. approved env rt ctx req t s buffered over_cap rest po summary \<and>
    dial_events evs = snd (dial_of env rt ctx summary) \<and>
    (\<forall>(st, ur) \<in> set (sends evs).
       fst (dial_of env rt ctx summary) = Inr st \<and> request_of env req buffered over_cap rest summary = Inr ur) \<and>
    length (sends evs) \<le> 1"
proof -
  have evs: "evs = fst (snd (handle_target env rt ctx req t pending s))" using assms(1) by simp
  have no_dot: "\<not> has_dot_segment (tg_path t)"
    using assms(3) unfolding evs handle_target_def by auto
  obtain b oc rest where body: "read_body (rt_max_request_body_bytes rt) [] (hr_frames req) = Some (b, oc, rest)"
    using assms(3) no_dot unfolding evs handle_target_def
    by (cases "read_body (rt_max_request_body_bytes rt) [] (hr_frames req)") auto
  obtain po summary s1 where run: "evaluate_request (rt_pipeline rt) s
      (mk_summary ctx req t (rt_max_request_body_bytes rt) b oc) = (po, summary, s1)" by (metis prod_cases3)
  obtain pf where cont: "po_outcome po = Outcome_Continue pf"
    using assms(3) no_dot body run unfolding evs handle_target_def
    by (cases "po_outcome po") (auto simp: Let_def)
  have pf: "pf = AllowProof" by (cases pf)
  have "approved env rt ctx req t s b oc rest po summary"
    using assms(2) no_dot body run cont by (simp add: approved_def)
  moreover define h where "h = handle_allowed env rt ctx AllowProof (is_websocket (he_hyper env) req) summary b oc rest
      ((base_record ctx (rq_host summary) (hr_method req) (po_request_path po) Allow)
        \<lparr>ar_request_transforms := po_request_traces po, ar_body_capture := po_body_capture po\<rparr>) [Ev_Span (request_span ctx req t)] pending s1"
  moreover have "evs = fst (snd h)"
    unfolding evs handle_target_def h_def using no_dot body run cont pf by (simp add: Let_def)
  ultimately show ?thesis using handle_allowed_events [OF h_def]
    by (intro exI [of _ b] exI [of _ oc] exI [of _ rest] exI [of _ po] exI [of _ summary]) simp
qed

lemma handle_events:
  assumes "handle env rt ctx req s = (reply, evs, s')" "dial_events evs \<noteq> [] \<or> sends evs \<noteq> []"
  obtains t buffered over_cap rest po summary
  where "approved env rt ctx req t s buffered over_cap rest po summary"
    and "dial_events evs = snd (dial_of env rt ctx summary)"
    and "\<And>st ur. (st, ur) \<in> set (sends evs) \<Longrightarrow>
      fst (dial_of env rt ctx summary) = Inr st \<and> request_of env req buffered over_cap rest summary = Inr ur"
    and "length (sends evs) \<le> 1"
proof -
  obtain t where t: "resolve_target (he_hyper env) req ctx = Inr t"
  proof (cases "resolve_target (he_hyper env) req ctx")
    case (Inl e)
    then show ?thesis using assms by (cases e) (auto simp: handle_def emit_with_def PendingAudit_emit_def)
  qed auto
  obtain rp es p s1 where h: "handle_target env rt ctx req t (PendingAudit_new (Some (cn_remote_addr ctx))) s = (rp, es, p, s1)"
    by (metis prod_cases4)
  have evs: "evs = es @ map Ev_Emit (PendingAudit_drop p)" using assms(1) t h by (simp add: handle_def)
  have same: "dial_events evs = dial_events es" "sends evs = sends es" by (simp_all add: evs)
  have "dial_events es \<noteq> [] \<or> sends es \<noteq> []" using assms(2) same by simp
  from handle_target_events [OF h t this] show thesis
    using that unfolding same by blast
qed

text \<open>The handler only ever opens sockets its guard lets through, and sends on the one it opened.\<close>

lemma dial_of_guarded:
  "(\<forall>a \<in> set (dialled (snd (dial_of env rt ctx summary))). Guard_check (rt_guard rt) (fst a) = Inr ()) \<and>
   (\<forall>a tls. fst (dial_of env rt ctx summary) = Inr (a, tls) \<longrightarrow>
      a \<in> set (dialled (snd (dial_of env rt ctx summary))) \<and> tls = cn_scheme_https ctx)"
proof -
  obtain host port where hp: "unwrap_or (cn_forced_upstream ctx) (rq_host summary, rq_port summary) = (host, port)"
    by force
  obtain res es where run: "connect_upstream (he_net env) AllowProof host port (cn_scheme_https ctx) rt = (res, es)"
    by force
  have "dial_of env rt ctx summary = (res, es)" using hp run by (simp add: dial_of_def)
  moreover have "(\<forall>a \<in> set (dialled es). Guard_check (rt_guard rt) (fst a) = Inr ()) \<and>
      (\<forall>a tls. res = Inr (a, tls) \<longrightarrow> a \<in> set (dialled es) \<and> tls = cn_scheme_https ctx)"
    using connect_upstream_guards [OF run] by blast
  ultimately show ?thesis by simp
qed

text \<open>
  C3. Nothing leaves the proxy without the pipeline's approval: when the handler so much as
  resolves a name, opens a socket or sends a request, then the target was extracted, its path has no dot segment,
  the body was read, and the pipeline, run on exactly this request, continued. Every
  address dialled passed the guard, and at most one request is sent, over a connection opened
  in this run, encrypted exactly when the client's side was.
\<close>

theorem handle_no_bypass:
  assumes "handle env rt ctx req s = (reply, evs, s')" "dial_events evs \<noteq> [] \<or> sends evs \<noteq> []"
  shows "\<exists>t buffered over_cap rest po summary. approved env rt ctx req t s buffered over_cap rest po summary \<and>
    (\<forall>a \<in> set (dialled (dial_events evs)). Guard_check (rt_guard rt) (fst a) = Inr ()) \<and>
    (\<forall>st ur. (st, ur) \<in> set (sends evs) \<longrightarrow>
       fst st \<in> set (dialled (dial_events evs)) \<and> snd st = cn_scheme_https ctx) \<and>
    length (sends evs) \<le> 1"
proof -
  obtain t b oc rest po summary
    where ok: "approved env rt ctx req t s b oc rest po summary"
    and dial: "dial_events evs = snd (dial_of env rt ctx summary)"
    and sent: "\<And>st ur. (st, ur) \<in> set (sends evs) \<Longrightarrow> fst (dial_of env rt ctx summary) = Inr st"
    and one: "length (sends evs) \<le> 1"
    using handle_events [OF assms] by (metis (no_types, lifting))
  have "fst st \<in> set (dialled (dial_events evs)) \<and> snd st = cn_scheme_https ctx"
    if "(st, ur) \<in> set (sends evs)" for st ur
    using sent [OF that] dial_of_guarded [of env rt ctx summary] dial by (cases st) auto
  moreover have "\<forall>a \<in> set (dialled (dial_events evs)). Guard_check (rt_guard rt) (fst a) = Inr ()"
    using dial_of_guarded [of env rt ctx summary] dial by simp
  ultimately show ?thesis using ok one by blast
qed

theorem handle_no_bypass_witness:
  "\<exists>reply evs s'. handle test_env test_rt (http_ctx ''10.0.0.9:1'') test_request () = (reply, evs, s') \<and>
     length (sends evs) = 1 \<and>
     (\<forall>a \<in> set (dialled (dial_events evs)). Guard_check (rt_guard test_rt) (fst a) = Inr ())"
proof -
  obtain reply evs s' where run: "handle test_env test_rt (http_ctx ''10.0.0.9:1'') test_request () = (reply, evs, s')"
    by (metis prod_cases3)
  have "length (sends (fst (snd (handle test_env test_rt (http_ctx ''10.0.0.9:1'') test_request ())))) = 1"
    by code_simp
  then have one: "length (sends evs) = 1" using run by simp
  then have "dial_events evs \<noteq> [] \<or> sends evs \<noteq> []" by auto
  from handle_no_bypass [OF run this] run one show ?thesis by blast
qed

section \<open>What is sent\<close>

definition frame_bytes :: "frame list \<Rightarrow> bytes" where
  "frame_bytes frames = concat (map (\<lambda>f. case f of Frame_Data d \<Rightarrow> d | _ \<Rightarrow> []) frames)"

fun out_bytes :: "out_body \<Rightarrow> bytes" where
  "out_bytes (Buffered bs) = bs"
| "out_bytes (Chained bs frames) = bs @ frame_bytes frames"

lemma read_body_eqs:
  "cap < length b \<Longrightarrow> read_body cap b fs = Some (b, True, fs)"
  "\<not> cap < length b \<Longrightarrow> read_body cap b [] = Some (b, False, [])"
  "\<not> cap < length b \<Longrightarrow> read_body cap b (Frame_Data d # fs) = read_body cap (b @ d) fs"
  "\<not> cap < length b \<Longrightarrow> read_body cap b (Frame_Trailers # fs) = read_body cap b fs"
  "\<not> cap < length b \<Longrightarrow> read_body cap b (Frame_Error # fs) = None"
  by (subst read_body.simps, simp)+

lemma read_body_frames:
  "read_body cap buffered frames = Some (b, oc, rest) \<Longrightarrow>
     b @ frame_bytes rest = buffered @ frame_bytes frames \<and> (oc \<longleftrightarrow> cap < length b) \<and> (\<not> oc \<longrightarrow> rest = [])"
proof (induction frames arbitrary: buffered)
  case Nil
  then show ?case by (cases "cap < length buffered") (auto simp: read_body_eqs)
next
  case (Cons f fs)
  have bytes: "frame_bytes (f # fs) = (case f of Frame_Data d \<Rightarrow> d | _ \<Rightarrow> []) @ frame_bytes fs"
    by (simp add: frame_bytes_def)
  show ?case
  proof (cases "cap < length buffered")
    case True
    then show ?thesis using Cons.prems by (auto simp: read_body_eqs)
  next
    case False
    show ?thesis
    proof (cases f)
      case (Frame_Data d)
      then show ?thesis using False Cons.prems Cons.IH [of "buffered @ d"] bytes by (simp add: read_body_eqs)
    next
      case Frame_Trailers
      then show ?thesis using False Cons.prems Cons.IH [of buffered] bytes by (simp add: read_body_eqs)
    next
      case Frame_Error
      then show ?thesis using False Cons.prems by (simp add: read_body_eqs)
    qed
  qed
qed

lemma eq_content_length: "eq_ignore_case n ''content-length'' \<longleftrightarrow> to_lower n = ''content-length''"
proof -
  have "to_lower ''content-length'' = ''content-length''" by code_simp
  then show ?thesis unfolding eq_ignore_case_def by (rule arg_cong)
qed

lemma typed_header_Inr:
  "typed_header hy (n, v) = Inr (n', v') \<longleftrightarrow> hy_name hy n = Inr n' \<and> v' = v \<and> hy_value hy v = None"
  by (auto simp: typed_header_def result_simps split: option.splits)

lemma build_upstream_Inr:
  "build_upstream hy summary hs body = Inr ur \<Longrightarrow>
     ur_method ur = rq_method summary \<and> ur_body ur = body \<and>
     ur_uri ur = rq_path summary @ (if rq_query summary = [] then [] else ''?'' @ rq_query summary) \<and>
     list_all2 (\<lambda>h h'. typed_header hy h = Inr h') hs (ur_headers ur)"
  by (auto simp: build_upstream_def Let_def result_simps split: option.splits if_splits)

text \<open>
  What becomes of a header on its way to the upstream, given all headers, whether the request is a WebSocket handshake and whether
  the body is above the cap: TE is reduced to the trailers coding, end-to-end headers go out as they are, but for the length of a
  buffered body, a WebSocket handshake keeps its own two, all others go.
\<close>

definition header_out :: "headers \<Rightarrow> bool \<Rightarrow> bool \<Rightarrow> string \<times> string \<Rightarrow> headers" where
  "header_out hs ws over_cap h =
    (case h of (n, v) \<Rightarrow>
       if to_lower n = ''te'' then (if lists_token ''trailers'' v then [(to_lower n, ''trailers'')] else [])
       else if to_lower n = ''content-length'' \<and> \<not> over_cap then []
       else if end_to_end hs n \<or> ws \<and> to_lower n \<in> {''upgrade'', ''connection''} then [(to_lower n, v)]
       else [])"

lemma strip_loop_out:
  "map (\<lambda>(n, v). (to_lower n, v))
     (if over_cap then strip_loop ws (connection_named hs) xs
      else filter (\<lambda>(n, v). to_lower n \<noteq> ''content-length'') (strip_loop ws (connection_named hs) xs)) =
   concat (map (header_out hs ws over_cap) xs)"
  by (induction xs) (auto simp: header_out_def end_to_end_def Let_def)

lemma upstream_headers_out:
  "map (\<lambda>(n, v). (to_lower n, v)) (upstream_headers summary ws over_cap) =
   concat (map (header_out (rq_headers summary) ws over_cap) (rq_headers summary))"
  unfolding upstream_headers_def strip_hop_by_hop_def eq_content_length Let_def by (rule strip_loop_out)



section \<open>Dot segments\<close>

definition dots :: "string set" where
  "dots = {''.'', ''%2e'', ''%2E''}"

lemma to_digit_2: "to_digit 16 c = Some 2 \<longleftrightarrow> c = CHR ''2''"
  and to_digit_14: "to_digit 16 c = Some 14 \<longleftrightarrow> c = CHR ''e'' \<or> c = CHR ''E''"
  and to_digit_16: "to_digit 16 c = Some d \<Longrightarrow> d < 16"
proof -
  have "c = CHR ''2'' \<longleftrightarrow> code c = 50" "c = CHR ''e'' \<longleftrightarrow> code c = 101" "c = CHR ''E'' \<longleftrightarrow> code c = 69"
    using of_char_eq_iff [of c "CHR ''2''", where 'a = nat] of_char_eq_iff [of c "CHR ''e''", where 'a = nat]
      of_char_eq_iff [of c "CHR ''E''", where 'a = nat] by simp_all
  moreover have "to_digit 16 c = Some 2 \<longleftrightarrow> code c = 50" "to_digit 16 c = Some 14 \<longleftrightarrow> code c = 101 \<or> code c = 69"
    unfolding to_digit_def Let_def is_digit_def is_lower_def is_upper_def
    by (cases "48 \<le> code c \<and> code c \<le> 57"; cases "97 \<le> code c \<and> code c \<le> 122";
        cases "65 \<le> code c \<and> code c \<le> 90"; simp; linarith)+
  ultimately show "to_digit 16 c = Some 2 \<longleftrightarrow> c = CHR ''2''"
    "to_digit 16 c = Some 14 \<longleftrightarrow> c = CHR ''e'' \<or> c = CHR ''E''" by blast+
  show "to_digit 16 c = Some d \<Longrightarrow> d < 16"
    by (auto simp: to_digit_def Let_def split: if_splits)
qed

lemma hex_digits: "from_str_radix 255 16 [a, b] = Some 46 \<longleftrightarrow> a = CHR ''2'' \<and> (b = CHR ''e'' \<or> b = CHR ''E'')"
proof (cases "a = CHR ''+''")
  case True
  then show ?thesis by (auto simp: from_str_radix_def dest!: to_digit_16 split: option.splits if_splits)
next
  case False
  have sum: "x * 16 + y = 46 \<longleftrightarrow> x = 2 \<and> y = 14" if "x < 16" "y < 16" for x y :: nat
    using that by presburger
  show ?thesis
  proof (cases "to_digit 16 a"; cases "to_digit 16 b")
    fix x y assume xy: "to_digit 16 a = Some x" "to_digit 16 b = Some y"
    then show ?thesis using False sum [OF to_digit_16 to_digit_16, OF xy] to_digit_2 [of a] to_digit_14 [of b]
      by (auto simp: from_str_radix_def)
  qed (use False to_digit_2 [of a] to_digit_14 [of b] in \<open>auto simp: from_str_radix_def\<close>)
qed

lemma hex_escape_dot: "hex_escape [a, b] = Some 46 \<longleftrightarrow> a = CHR ''2'' \<and> (b = CHR ''e'' \<or> b = CHR ''E'')"
proof -
  have "utf8_valid ''2e''" "utf8_valid ''2E''" "from_str_radix 255 16 ''zz'' = None" by code_simp+
  then show ?thesis using hex_digits [of a b] by (auto simp: hex_escape_def)
qed

lemma hex_escape_byte: "hex_escape two = Some n \<Longrightarrow> n < 256"
  by (auto simp: hex_escape_def from_str_radix_def split: list.splits if_splits option.splits)

lemma decode_dot:
  "percent_decode_segment s = CHR ''.'' # t \<longleftrightarrow> (\<exists>d s'. d \<in> dots \<and> s = d @ s' \<and> percent_decode_segment s' = t)"
proof (cases s)
  case (Cons c cs)
  define e where "e = (if c = CHR 0x25 \<and> 2 \<le> length cs then hex_escape (take 2 cs) else None)"
  have step: "percent_decode_segment s =
      (case e of Some n \<Rightarrow> char_of n # percent_decode_segment (drop 2 cs) | None \<Rightarrow> c # percent_decode_segment cs)"
    by (simp add: Cons e_def)
  show ?thesis
  proof (cases e)
    case None
    have "c \<noteq> CHR 0x25" if "cs = CHR ''2'' # x # r" "x = CHR ''e'' \<or> x = CHR ''E''" for x r
      using None that hex_escape_dot [of "CHR ''2''" x] by (auto simp: e_def)
    then show ?thesis using None Cons step by (auto simp: dots_def)
  next
    case (Some n)
    then have esc: "c = CHR 0x25" "2 \<le> length cs" "hex_escape (take 2 cs) = Some n"
      by (auto simp: e_def split: if_splits)
    obtain a b r where cs: "cs = a # b # r" using esc(2) by (cases cs; cases "tl cs") auto
    have "char_of n = CHR ''.'' \<longleftrightarrow> n = 46"
      using hex_escape_byte [OF esc(3)] of_char_eq_iff [of "char_of n" "CHR ''.''", where 'a = nat]
      by (simp add: of_char_of)
    then show ?thesis using esc Some step Cons cs hex_escape_dot [of a b] by (auto simp: dots_def)
  qed
qed (auto simp: dots_def)

lemma decode_Nil: "percent_decode_segment s = [] \<longleftrightarrow> s = []"
  by (cases s) (auto split: option.splits)

text \<open>
  C34. The dot check finds every spelling: a path is refused exactly when one of its segments is
  a dot or two dots, each written plainly or as the escape of its byte in either case.
\<close>

theorem dot_segment_spellings:
  "has_dot_segment path \<longleftrightarrow>
    (\<exists>seg \<in> set (split_on CHR ''/'' path). \<exists>d d'. d \<in> dots \<and> d' \<in> insert [] dots \<and> seg = d @ d')"
proof -
  have "percent_decode_segment seg = ''.'' \<longleftrightarrow> (\<exists>d. d \<in> dots \<and> seg = d)" for seg
    by (auto simp: decode_dot decode_Nil)
  moreover have "percent_decode_segment seg = ''..'' \<longleftrightarrow> (\<exists>d d'. d \<in> dots \<and> d' \<in> dots \<and> seg = d @ d')" for seg
    by (auto simp: decode_dot decode_Nil)
  ultimately have "percent_decode_segment seg = ''.'' \<or> percent_decode_segment seg = ''..'' \<longleftrightarrow>
      (\<exists>d d'. d \<in> dots \<and> d' \<in> insert [] dots \<and> seg = d @ d')" for seg
    by auto
  then show ?thesis unfolding has_dot_segment_def list_ex_iff by (rule bex_cong [OF refl])
qed


end
