(* ===== verification/Management.thy ===== *)
theory Management
  imports Proxy_Config Http
begin

text \<open>
  The management API, \<open>crates/hematite-proxy/src/management.rs\<close>: the comparison of the bearer token, the reload
  with its atomic swap, and the handler. The accept loop and the HTTP server are the libraries'.
\<close>

declare map_eq_Cons_D [rule del] Cons_eq_map_D [rule del]

unbundle bit_operations_syntax

section \<open>Definitions\<close>

text \<open>The loop runs over the longer of the two; a missing byte reads as zero.\<close>

definition byte_at :: "bytes \<Rightarrow> nat \<Rightarrow> nat" where
  "byte_at bs i = (if i < length bs then code (bs ! i) else 0)"

definition constant_time_eq :: "bytes \<Rightarrow> bytes \<Rightarrow> bool" where
  "constant_time_eq a b \<longleftrightarrow>
    fold (\<lambda>i diff. diff OR (byte_at a i XOR byte_at b i)) [0 ..< max (length a) (length b)] (length a XOR length b) = 0"

type_synonym 't proxy_runtime = "(Resolver.world \<times> Resolver.cache, 't, cert_cache) runtime"

type_synonym 't managed = "'t proxy_runtime shared_state \<times> metrics"

text \<open>What a reload reads: the file of the configuration, the environment, and what compiling takes.\<close>

record ('t, 'p, 'q) reload_env =
  rl_read_config :: "string + string"
  rl_env :: "string \<Rightarrow> string option"
  rl_serde :: serde
  rl_decoders :: decoders
  rl_regex :: regex_builder
  rl_host_env :: "('t, 'p, 'q) host_env"

text \<open>\<^const>\<open>None\<close> is a panic while compiling.\<close>

definition reload ::
  "('t, 'p, 'q) reload_env \<Rightarrow> listen_keys \<Rightarrow> 't managed \<Rightarrow> ((u16 \<times> message) \<times> 't managed) option" where
  "reload rl current_listen st =
    (case st of (state, metrics) \<Rightarrow>
      (let failed = (\<lambda>status m. Some ((status, m), (state, inc_reload False metrics)))
       in case rl_read_config rl of
            Inl e \<Rightarrow> failed 500 [Lit ''cannot read config: '', Disp e]
          | Inr yaml \<Rightarrow>
              (case load_str (rl_serde rl) (rl_decoders rl) (rl_regex rl) (rl_env rl) yaml of
                 Inl (LoadError m) \<Rightarrow> failed 422 m
               | Inr cfg \<Rightarrow>
                   if cf_listen cfg \<noteq> current_listen
                   then failed 422 [Lit (''listener addresses are not reloadable in v1 (Part 09 '' @ section_sign @ ''4)'')]
                   else (case build_runtime (rl_decoders rl) (rl_regex rl) (rl_host_env rl) cfg of
                           None \<Rightarrow> None
                         | Some (Inl (LoadError m)) \<Rightarrow> failed 422 m
                         | Some (Inr rt) \<Rightarrow>
                             Some ((200, [Lit ''reloaded'']), (swap rt state, inc_reload True metrics))))))"

text \<open>The answers of the handler: a status with a text, or the rendered metrics.\<close>

record management =
  mn_api_key :: string
  mn_current_listen :: listen_keys
  mn_metrics_enabled :: bool

definition authorized :: "hyper \<Rightarrow> string \<Rightarrow> http_request \<Rightarrow> bool" where
  "authorized hy api_key req \<longleftrightarrow>
    (case Option.bind (header_str hy (hr_headers req) ''authorization'') (strip_prefix ''Bearer '') of
       Some token \<Rightarrow> constant_time_eq token api_key
     | None \<Rightarrow> False)"

definition manage ::
  "hyper \<Rightarrow> (f64 \<Rightarrow> string) \<Rightarrow> management \<Rightarrow> ('t, 'p, 'q) reload_env \<Rightarrow> http_request \<Rightarrow> 't managed \<Rightarrow>
   (u16 \<times> message) \<times> 't managed" where
  "manage hy show_f64 mn rl req st =
    (if hr_method req = ''GET'' \<and> hr_path req = ''/metrics'' then
       (if \<not> mn_metrics_enabled mn then ((404, [Lit ''not found'']), st)
        else ((200, [Disp (render show_f64 (snd st))]), st))
     else if hr_method req \<noteq> ''POST'' \<or> hr_path req \<noteq> ''/v1/reload'' then ((404, [Lit ''not found'']), st)
     else if \<not> authorized hy (mn_api_key mn) req then ((401, [Lit ''unauthorized'']), st)
     else (case reload rl (mn_current_listen mn) st of
             Some (answer, st') \<Rightarrow> (answer, st')
           | None \<Rightarrow> ((500, [Lit ''reload task failed'']), st)))"

section \<open>The comparison\<close>

lemma fold_or_zero: "fold (\<lambda>i (diff :: nat). diff OR f i) is d = 0 \<longleftrightarrow> d = 0 \<and> (\<forall>i \<in> set is. f i = 0)"
  by (induction "is" arbitrary: d) (auto simp: or_eq_0_iff)

lemma xor_zero_nat: "a XOR b = 0 \<longleftrightarrow> a = (b :: nat)"
  by (auto simp: bit_eq_iff bit_simps)

text \<open>Folding the differences of the lengths and of all bytes up to the longer length gives zero for equal strings only.\<close>

lemma constant_time_eq_iff: "constant_time_eq a b \<longleftrightarrow> a = b"
proof
  assume "constant_time_eq a b"
  then have len: "length a = length b" and same: "\<forall>i < length a. byte_at a i = byte_at b i"
    by (auto simp: constant_time_eq_def fold_or_zero xor_zero_nat)
  then show "a = b" by (intro nth_equalityI) (auto simp: byte_at_def)
qed (simp add: constant_time_eq_def fold_or_zero xor_zero_nat del: xor_self_eq bit.xor_self fold_simps)

lemma authorized_iff:
  "authorized hy key req \<longleftrightarrow> header_str hy (hr_headers req) ''authorization'' = Some (''Bearer '' @ key)"
  by (auto simp: authorized_def constant_time_eq_iff strip_prefix_def prefix_def split: option.splits bind_splits)

section \<open>Properties\<close>

text \<open>
  C16. Only the key holder reloads: a management request changes the state or the counters only if it is a POST to the reload
  path whose Authorization header is the bearer token with exactly the key.
\<close>

theorem manage_needs_key:
  assumes "manage hy show_f64 mn rl req st = (answer, st')" "st' \<noteq> st"
  shows "hr_method req = ''POST'' \<and> hr_path req = ''/v1/reload'' \<and>
    header_str hy (hr_headers req) ''authorization'' = Some (''Bearer '' @ mn_api_key mn)"
  using assms by (auto simp: manage_def authorized_iff split: if_splits)

text \<open>
  C8. A reload is all or nothing and never goes down: it always returns, with 200 exactly when the file was read, loads,
  keeps the listen addresses and compiles; then the next handler reads the new runtime and a handler
  under way keeps its own. On any failure the old runtime keeps serving untouched, with 500 for
  an unreadable file and 422 otherwise. Either way exactly one counter is bumped.
\<close>

theorem reload_atomic:
  assumes "deref state a = Some old"
  shows "\<exists>status m state' metrics'. reload rl listen (state, metrics) = Some ((status, m), (state', metrics')) \<and>
    deref state' a = Some old \<and> metrics' = inc_reload (status = 200) metrics \<and>
    (status = 200 \<longleftrightarrow>
       (\<exists>yaml cfg rt. rl_read_config rl = Inr yaml \<and>
          load_str (rl_serde rl) (rl_decoders rl) (rl_regex rl) (rl_env rl) yaml = Inr cfg \<and> cf_listen cfg = listen \<and>
          build_runtime (rl_decoders rl) (rl_regex rl) (rl_host_env rl) cfg = Some (Inr rt) \<and>
          deref state' (current state') = Some rt)) \<and>
    (status \<noteq> 200 \<longrightarrow> state' = state \<and> (if \<exists>e. rl_read_config rl = Inl e then status = 500 else status = 422))"
proof (cases "rl_read_config rl")
  case (Inr yaml)
  show ?thesis
  proof (cases "load_str (rl_serde rl) (rl_decoders rl) (rl_regex rl) (rl_env rl) yaml")
    case (Inl e)
    with Inr assms show ?thesis by (cases e) (simp add: reload_def)
  next
    case load: (Inr cfg)
    obtain r where r: "build_runtime (rl_decoders rl) (rl_regex rl) (rl_host_env rl) cfg = Some r"
      using build_runtime_total by blast
    show ?thesis
    proof (cases r)
      case (Inl e)
      with Inr load r assms show ?thesis by (cases e) (simp add: reload_def)
    next
      case built: (Inr rt)
      with Inr load r assms show ?thesis by (simp add: reload_def shared.get_current shared.get_old)
    qed
  qed
qed (simp add: reload_def assms)

definition test_reload_env :: "(unit, unit, unit) reload_env" where
  "test_reload_env = \<lparr>rl_read_config = Inr ''x'', rl_env = test_getenv, rl_serde = test_serde, rl_decoders = object_decoders,
    rl_regex = no_regex, rl_host_env = test_ho\<rparr>"

definition empty_runtime :: "unit proxy_runtime" where
  "empty_runtime = \<lparr>rt_pipeline = [], rt_guard = \<lparr>gu_deny = []\<rparr>, rt_max_request_body_bytes = 0,
    rt_upstream_response_header_timeout = 0, rt_dial_timeout = 0, rt_upstream_tls = (), rt_cert_cache = None,
    rt_tunnel_passthrough = []\<rparr>"

definition test_managed :: "unit managed" where
  "test_managed = (SharedState_new empty_runtime, Metrics_new ''0.1.0'')"

lemma test_reload_ok:
  "case reload test_reload_env (ListenKeys_of test_raw) test_managed of
     Some ((status, m), (state, metrics)) \<Rightarrow> status = 200 \<and> sh_current state = 1 \<and> sh_current (fst test_managed) = 0
   | None \<Rightarrow> False"
  by code_simp

theorem reload_atomic_witness:
  "\<exists>m state' metrics'. reload test_reload_env (ListenKeys_of test_raw) test_managed = Some ((200, m), (state', metrics')) \<and>
     deref state' 0 = Some empty_runtime \<and> metrics' = inc_reload True (Metrics_new ''0.1.0'')"
proof -
  have "deref (SharedState_new empty_runtime) 0 = Some empty_runtime" by (simp add: deref_def SharedState_new_def)
  from reload_atomic [OF this, of test_reload_env "ListenKeys_of test_raw" "Metrics_new ''0.1.0''"]
  show ?thesis using test_reload_ok by (auto simp: test_managed_def)
qed

definition test_management :: management where
  "test_management = \<lparr>mn_api_key = ''k'', mn_current_listen = ListenKeys_of test_raw, mn_metrics_enabled = True\<rparr>"

definition test_manage_request :: http_request where
  "test_manage_request = \<lparr>hr_method = ''POST'', hr_authority = None, hr_path = ''/v1/reload'', hr_query = None,
    hr_headers = [(''authorization'', ''Bearer k'')], hr_frames = []\<rparr>"

theorem manage_needs_key_witness:
  "header_str test_hyper (hr_headers test_manage_request) ''authorization'' = Some (''Bearer '' @ mn_api_key test_management)"
proof -
  have "sh_current (fst (snd (manage test_hyper (\<lambda>_. []) test_management test_reload_env test_manage_request test_managed))) \<noteq>
      sh_current (fst test_managed)"
    by code_simp
  then have "snd (manage test_hyper (\<lambda>_. []) test_management test_reload_env test_manage_request test_managed) \<noteq> test_managed"
    by auto
  from manage_needs_key [OF prod.collapse [symmetric] this] show ?thesis by blast
qed

end
