(* ===== verification/Listen.thy ===== *)
theory Listen
  imports Http Leaf_Cache
begin

text \<open>
  The TLS and tunnel listeners, \<open>crates/hematite-proxy/src/listen.rs\<close>: the CONNECT and SOCKS5 handshakes,
  the policy decision on a tunnel, the termination of TLS with a minted leaf, and the passthrough
  tunnel. A client is the list of what arrives from it; what a handler does is a list of events.
  The accept loops, the TLS handshake itself and the copying of a spliced connection belong to the
  libraries and appear as parameters and events.
\<close>

declare map_eq_Cons_D [rule del] Cons_eq_map_D [rule del]

section \<open>Definitions\<close>

subsection \<open>What arrives from a client\<close>

text \<open>
  Bytes, a pause longer than the handshake timeout, or a broken connection; the end of the list is the
  end of the stream.
\<close>

datatype arrival = Data bytes | Stall | Reset

datatype io_error = UnexpectedEof | ConnectionError

text \<open>\<open>peek\<close> and \<open>read\<close> of one byte, without a timeout: a pause is waited out.\<close>

fun peek_byte :: "arrival list \<Rightarrow> io_error + byte option" where
  "peek_byte [] = Inr None"
| "peek_byte (Data [] # input) = peek_byte input"
| "peek_byte (Data (b # bs) # input) = Inr (Some b)"
| "peek_byte (Stall # input) = peek_byte input"
| "peek_byte (Reset # input) = Inl ConnectionError"

fun read_byte :: "arrival list \<Rightarrow> io_error + byte option \<times> arrival list" where
  "read_byte [] = Inr (None, [])"
| "read_byte (Data [] # input) = read_byte input"
| "read_byte (Data (b # bs) # input) = Inr (Some b, Data bs # input)"
| "read_byte (Stall # input) = read_byte input"
| "read_byte (Reset # input) = Inl ConnectionError"

fun read_exact :: "nat \<Rightarrow> arrival list \<Rightarrow> io_error + bytes \<times> arrival list" where
  "read_exact 0 input = Inr ([], input)"
| "read_exact (Suc n) input =
    and_then (read_byte input) (\<lambda>(b, input').
      case b of
        None \<Rightarrow> Inl UnexpectedEof
      | Some x \<Rightarrow> and_then (read_exact n input') (\<lambda>(bs, rest). Inr (x # bs, rest)))"

text \<open>The same under the handshake timeout: an error and a pause read as no byte.\<close>

fun peek_timeout :: "arrival list \<Rightarrow> byte option" where
  "peek_timeout (Data [] # input) = peek_timeout input"
| "peek_timeout (Data (b # bs) # input) = Some b"
| "peek_timeout _ = None"

fun read_timeout :: "nat \<Rightarrow> arrival list \<Rightarrow> bytes \<times> arrival list" where
  "read_timeout cap (Data [] # input) = read_timeout cap input"
| "read_timeout cap (Data (b # bs) # input) = (take cap (b # bs), Data (drop cap (b # bs)) # input)"
| "read_timeout cap (Stall # input) = ([], input)"
| "read_timeout cap input = ([], input)"

subsection \<open>Handshakes\<close>

definition SNIFF_CAP :: nat where
  "SNIFF_CAP = 16 * 1024"

definition CRLFCRLF :: bytes where
  "CRLFCRLF = [CHR 0x0D, CHR 0x0A, CHR 0x0D, CHR 0x0A]"

function read_head :: "arrival list \<Rightarrow> bytes \<Rightarrow> io_error + bytes option \<times> arrival list" where
  "read_head input buf =
    (if SNIFF_CAP < length buf then Inr (None, input)
     else and_then (read_byte input) (\<lambda>(b, input').
       case b of
         None \<Rightarrow> Inr (None, input')
       | Some x \<Rightarrow>
           (let buf' = buf @ [x]
            in if suffix CRLFCRLF buf' then Inr (Some buf', input') else read_head input' buf')))"
  by pat_completeness auto
termination
  by (relation "measure (\<lambda>(input, buf). SNIFF_CAP + 1 - length buf)") auto

declare read_head.simps [simp del]

definition read_connect :: "arrival list \<Rightarrow> io_error + connect_target option \<times> arrival list" where
  "read_connect input =
    and_then (read_head input []) (\<lambda>(head, rest).
      Inr (Option.bind head (\<lambda>buf. parse_connect (from_utf8_lossy buf)), rest))"

datatype 'k listen_event =
    To_Client bytes
  | Tunnel_Dial dial_event
  | To_Upstream stream bytes
  | Splice stream "arrival list"
  | Tunnel_Emit emission
  | Serve "'k server_config option" conn_ctx "arrival list"

text \<open>
  What the listeners take from their surroundings: the network, whether the writes to the client
  and to the upstream go through, how the copy ends, what the TLS library reads as the
  ClientHello (within the timeout) and whether the handshake with a configuration succeeds, what the
  certificate cache answers, and the clock.
\<close>

record ('t, 'c, 'k) listen_env =
  le_net :: "'t network"
  le_client_write :: "bytes \<Rightarrow> bool"
  le_upstream_write :: "bytes \<Rightarrow> bool"
  le_copy :: "arrival list \<Rightarrow> string option"
  le_client_hello :: "arrival list \<Rightarrow> string option option"
  le_leaf :: "'c \<Rightarrow> string \<Rightarrow> tls_error + 'k server_config"
  le_into_stream :: "'k server_config \<Rightarrow> arrival list \<Rightarrow> arrival list option"
  le_elapsed :: f64

text \<open>
  A handshake gives the target, if it came to one, the rest of the input, and what was
  written to the client. A result of \<open>Inl\<close> is an error that the accept loop drops.
\<close>

type_synonym 'k handshake = "(io_error + connect_target option \<times> arrival list) \<times> 'k listen_event list"

definition socks5_reply :: "bytes \<Rightarrow> arrival list \<Rightarrow> 'k handshake" where
  "socks5_reply req rest =
    (case parse_socks5_request req of
       Inr t \<Rightarrow> (Inr (Some t, rest), [])
     | Inl reject \<Rightarrow> (Inr (None, rest), [To_Client (socks5_failure (reply_code reject))]))"

definition socks5_request :: "arrival list \<Rightarrow> 'k handshake" where
  "socks5_request input =
    (case read_exact 4 input of
       Inl e \<Rightarrow> (Inl e, [])
     | Inr (fixed, input1) \<Rightarrow>
         (let atyp = fixed ! 3
          in if atyp = CHR 0x03 then
               (case read_exact 1 input1 of
                  Inl e \<Rightarrow> (Inl e, [])
                | Inr (len, input2) \<Rightarrow>
                    (case read_exact (of_char (len ! 0) + 2) input2 of
                       Inl e \<Rightarrow> (Inl e, [])
                     | Inr (rest, input3) \<Rightarrow> socks5_reply (fixed @ len @ rest) input3))
             else if atyp = CHR 0x01 \<or> atyp = CHR 0x04 then
               (case read_exact ((if atyp = CHR 0x01 then 4 else 16) + 2) input1 of
                  Inl e \<Rightarrow> (Inl e, [])
                | Inr (rest, input2) \<Rightarrow> socks5_reply (fixed @ rest) input2)
             else (Inr (None, input1), [To_Client (socks5_failure CHR 0x08)])))"

definition socks5_handshake :: "('t, 'c, 'k) listen_env \<Rightarrow> arrival list \<Rightarrow> 'k handshake" where
  "socks5_handshake env input =
    (case read_exact 2 input of
       Inl e \<Rightarrow> (Inl e, [])
     | Inr (head, input1) \<Rightarrow>
         if head ! 0 \<noteq> CHR 0x05 then (Inr (None, input1), [])
         else (case read_exact (of_char (head ! 1)) input1 of
                 Inl e \<Rightarrow> (Inl e, [])
               | Inr (methods, input2) \<Rightarrow>
                   (case parse_socks5_methods (head ! 1 # methods) of
                      Some NoAuth \<Rightarrow>
                        if le_client_write env [CHR 0x05, CHR 0x00] then
                          (let (r, evs) = socks5_request input2 in (r, To_Client [CHR 0x05, CHR 0x00] # evs))
                        else (Inl ConnectionError, [])
                    | _ \<Rightarrow> (Inr (None, input2), [To_Client [CHR 0x05, CHR 0xFF]]))))"

subsection \<open>Records\<close>

text \<open>A pending record that is filled once and goes out of scope.\<close>

definition emit_record :: "string \<Rightarrow> audit_record \<Rightarrow> 'k listen_event list" where
  "emit_record remote r =
    (let (es, pending) = PendingAudit_emit (PendingAudit_new (Some remote)) r
     in map Tunnel_Emit (es @ PendingAudit_drop pending))"

definition emit_listener_reject :: "string \<Rightarrow> string \<Rightarrow> u16 \<Rightarrow> mode \<Rightarrow> 'k listen_event list" where
  "emit_listener_reject remote host status mode =
    emit_record remote
      \<lparr>ar_host = host, ar_method = [], ar_path = [], ar_remote_addr = Some remote, ar_sni = None, ar_mode = mode,
       ar_action = Reject, ar_status_code = Some status, ar_duration_ms = 0, ar_rejected_by = Some ''listener'',
       ar_stubbed_by = None, ar_error = None, ar_request_transforms = [], ar_response_transforms = [],
       ar_tunnel = None, ar_guard = None, ar_body_capture = None\<rparr>"

definition base_tunnel_record :: "string \<Rightarrow> connect_target \<Rightarrow> trace list \<Rightarrow> audit_record" where
  "base_tunnel_record remote target traces =
    \<lparr>ar_host = ct_host target, ar_method = ''CONNECT'', ar_path = [], ar_remote_addr = Some remote, ar_sni = None,
     ar_mode = Tunnel, ar_action = Allow, ar_status_code = None, ar_duration_ms = 0, ar_rejected_by = None,
     ar_stubbed_by = None, ar_error = None, ar_request_transforms = traces, ar_response_transforms = [],
     ar_tunnel = None, ar_guard = None, ar_body_capture = None\<rparr>"

definition emit_tunnel_reject :: "string \<Rightarrow> connect_target \<Rightarrow> pipeline_outcome \<Rightarrow> 'k listen_event list" where
  "emit_tunnel_reject remote target po =
    (let rejected_by = (case po_outcome po of Outcome_Reject by_name _ \<Rightarrow> by_name | _ \<Rightarrow> ''listener'')
     in emit_record remote
          ((base_tunnel_record remote target (po_request_traces po))
             \<lparr>ar_action := Reject, ar_rejected_by := Some rejected_by, ar_status_code := Some 403\<rparr>))"

definition emit_tunnel_handshake :: "string \<Rightarrow> connect_target \<Rightarrow> trace list \<Rightarrow> 'k listen_event list" where
  "emit_tunnel_handshake remote target traces =
    emit_record remote
      ((base_tunnel_record remote target traces)\<lparr>ar_action := Allow, ar_status_code := Some 200\<rparr>)"

definition synthetic_connect_summary :: "connect_target \<Rightarrow> string \<Rightarrow> request_summary" where
  "synthetic_connect_summary target remote =
    \<lparr>rq_mode = Tunnel, rq_method = ''CONNECT'', rq_host = ct_host target, rq_port = ct_port target, rq_path = [],
     rq_query = [], rq_headers = [], rq_body = \<lparr>bd_bytes = [], bd_over_cap = False\<rparr>, rq_sni = None,
     rq_remote_addr = Some remote\<rparr>"

definition target_str :: "connect_target \<Rightarrow> string" where
  "target_str target = ct_host target @ '':'' @ show_dec (unat (ct_port target))"

subsection \<open>Terminating TLS\<close>

definition terminate_and_serve ::
  "('t, 'c, 'k) listen_env \<Rightarrow> ('s, 't, 'c) runtime \<Rightarrow> string \<Rightarrow> (connect_target \<times> trace list) option \<Rightarrow>
   arrival list \<Rightarrow> 'k listen_event list" where
  "terminate_and_serve env rt remote forced input =
    (case rt_cert_cache rt of
       None \<Rightarrow> []
     | Some cache \<Rightarrow>
         (case le_client_hello env input of
            None \<Rightarrow> []
          | Some sni \<Rightarrow>
              if forced = None \<and> sni = None then emit_listener_reject remote [] 0 Https
              else
                (let mint_target = (case forced of Some (target, _) \<Rightarrow> ct_host target | None \<Rightarrow> the sni)
                 in if (case (forced, sni) of
                          (Some (target, _), Some name) \<Rightarrow> \<not> eq_ignore_case name (ct_host target) | _ \<Rightarrow> False)
                    then emit_listener_reject remote mint_target 0 Tunnel
                    else (case le_leaf env cache mint_target of
                            Inl _ \<Rightarrow> []
                          | Inr config \<Rightarrow>
                              (case le_into_stream env config input of
                                 None \<Rightarrow> []
                               | Some inner \<Rightarrow>
                                   [Serve (Some config)
                                      \<lparr>cn_remote_addr = remote,
                                       cn_mode = (case forced of Some _ \<Rightarrow> Tunnel | None \<Rightarrow> Https),
                                       cn_sni = sni, cn_scheme_https = True,
                                       cn_forced_upstream =
                                         map_option (\<lambda>(target, _). (ct_host target, ct_port target)) forced,
                                       cn_tunnel_target = map_option (\<lambda>(target, _). target_str target) forced,
                                       cn_tunnel_traces = (case forced of Some (_, traces) \<Rightarrow> traces | None \<Rightarrow> [])\<rparr>
                                      inner])))))"

subsection \<open>The passthrough tunnel\<close>

definition REPLY_200 :: bytes where
  "REPLY_200 = ''HTTP/1.1 200 Connection Established'' @ CRLFCRLF"

definition REPLY_403 :: bytes where
  "REPLY_403 = ''HTTP/1.1 403 Forbidden'' @ CRLFCRLF"

definition REPLY_502 :: bytes where
  "REPLY_502 = ''HTTP/1.1 502 Bad Gateway'' @ CRLFCRLF"

definition success_reply :: "bool \<Rightarrow> bytes" where
  "success_reply is_socks = (if is_socks then SOCKS5_SUCCESS else REPLY_200)"

function sniff_loop :: "arrival list \<Rightarrow> bytes \<Rightarrow> bytes \<times> string option \<times> arrival list" where
  "sniff_loop input buffered =
    (if SNIFF_CAP < length buffered then (buffered, None, input)
     else
       (let (bs, input') = read_timeout 4096 input
        in if bs = [] then (buffered, None, input')
           else
             (let buffered' = buffered @ bs
              in case scan_client_hello_sni buffered' of
                   Incomplete \<Rightarrow> sniff_loop input' buffered'
                 | Sni name \<Rightarrow> (buffered', Some name, input')
                 | _ \<Rightarrow> (buffered', None, input'))))"
  by pat_completeness auto
termination
  by (relation "measure (\<lambda>(input, buffered). SNIFF_CAP + 1 - length buffered)") (auto simp: neq_Nil_conv)

declare sniff_loop.simps [simp del]

definition passthrough_record ::
  "('t, 'c, 'k) listen_env \<Rightarrow> string \<Rightarrow> connect_target \<Rightarrow> trace list \<Rightarrow> audit_record" where
  "passthrough_record env remote target traces =
    (base_tunnel_record remote target traces)
      \<lparr>ar_duration_ms := le_elapsed env,
       ar_tunnel := Some \<lparr>tg_target = target_str target, tg_request_transforms = [], tg_passthrough = True\<rparr>\<rparr>"

definition passthrough_splice ::
  "('t, 'c, 'k) listen_env \<Rightarrow> connect_target \<Rightarrow> string \<Rightarrow> trace list \<Rightarrow> stream \<Rightarrow> arrival list \<Rightarrow>
   'k listen_event list" where
  "passthrough_splice env target remote traces upstream input =
    (let (buffered, observed_sni, rest) = sniff_loop input [];
         r = passthrough_record env remote target traces
     in if observed_sni \<noteq> None \<and> observed_sni \<noteq> Some (to_lower (ct_host target)) then
          emit_record remote (r\<lparr>ar_action := Reject, ar_rejected_by := Some ''listener'', ar_sni := observed_sni\<rparr>)
        else if buffered \<noteq> [] \<and> \<not> le_upstream_write env buffered then []
        else (if buffered \<noteq> [] then [To_Upstream upstream buffered] else []) @ [Splice upstream rest] @
          emit_record remote
            (r\<lparr>ar_action := Allow, ar_status_code := Some 200, ar_sni := observed_sni,
               ar_error := map_option (\<lambda>e. [Lit ''splice: '', Disp e]) (le_copy env rest)\<rparr>))"

definition passthrough_tunnel ::
  "('t, 'c, 'k) listen_env \<Rightarrow> bool \<Rightarrow> connect_target \<Rightarrow> allow_proof \<Rightarrow> string \<Rightarrow> ('s, 't, 'c) runtime \<Rightarrow> trace list \<Rightarrow>
   arrival list \<Rightarrow> 'k listen_event list" where
  "passthrough_tunnel env is_socks target proof remote rt traces input =
    (let (res, dials) = connect_upstream (le_net env) proof (ct_host target) (ct_port target) False rt;
         r = (passthrough_record env remote target traces)\<lparr>ar_status_code := Some 502\<rparr>
     in map Tunnel_Dial dials @
        (case res of
           Inl e \<Rightarrow>
             emit_record remote
               (case e of
                  Denied denial \<Rightarrow> r\<lparr>ar_action := Reject, ar_rejected_by := Some ''guard'', ar_guard := Some denial\<rparr>
                | Failed message \<Rightarrow> r\<lparr>ar_action := Error, ar_error := Some message\<rparr>) @
             [To_Client (if is_socks then socks5_failure CHR 0x02 else REPLY_502)]
         | Inr upstream \<Rightarrow>
             if le_client_write env (success_reply is_socks) then
               To_Client (success_reply is_socks) # passthrough_splice env target remote traces upstream input
             else []))"

subsection \<open>The tunnel listener\<close>

text \<open>After the policy has allowed the tunnel and it is not a passthrough: reply, sniff, serve.\<close>

definition bump_tunnel ::
  "('t, 'c, 'k) listen_env \<Rightarrow> ('s, 't, 'c) runtime \<Rightarrow> bool \<Rightarrow> connect_target \<Rightarrow> string \<Rightarrow> trace list \<Rightarrow>
   arrival list \<Rightarrow> 'k listen_event list" where
  "bump_tunnel env rt is_socks target remote traces input =
    (if le_client_write env (success_reply is_socks) then
       To_Client (success_reply is_socks) #
       (case peek_timeout input of
          None \<Rightarrow> emit_tunnel_handshake remote target traces
        | Some b \<Rightarrow>
            (case sniff_inner b of
               Inner_Tls \<Rightarrow> terminate_and_serve env rt remote (Some (target, traces)) input
             | Inner_Http \<Rightarrow>
                 [Serve None
                    \<lparr>cn_remote_addr = remote, cn_mode = Tunnel, cn_sni = None, cn_scheme_https = False,
                     cn_forced_upstream = Some (ct_host target, ct_port target),
                     cn_tunnel_target = Some (target_str target), cn_tunnel_traces = traces\<rparr>
                    input]
             | Inner_Unknown \<Rightarrow> []))
     else [])"

text \<open>The policy decision on a tunnel. The runtime may have been swapped before TLS is terminated.\<close>

definition decide_tunnel ::
  "('t, 'c, 'k) listen_env \<Rightarrow> ('s, 't, 'c) runtime \<Rightarrow> ('s, 't, 'c) runtime \<Rightarrow> bool \<Rightarrow> connect_target \<Rightarrow> string \<Rightarrow>
   arrival list \<Rightarrow> 's \<Rightarrow> 'k listen_event list \<times> 's" where
  "decide_tunnel env rt rt' is_socks target remote input s =
    (let (po, summary, s') = evaluate_request (rt_pipeline rt) s (synthetic_connect_summary target remote);
         traces = po_request_traces po
     in ((case po_outcome po of
            Outcome_Continue proof \<Rightarrow>
              if passthrough_matches rt (ct_host target)
              then passthrough_tunnel env is_socks target proof remote rt traces input
              else bump_tunnel env rt' is_socks target remote traces input
          | _ \<Rightarrow>
              emit_tunnel_reject remote target po @
              [To_Client (if is_socks then socks5_failure CHR 0x02 else REPLY_403)]), s'))"

definition tunnel_handshake :: "('t, 'c, 'k) listen_env \<Rightarrow> byte \<Rightarrow> arrival list \<Rightarrow> 'k handshake" where
  "tunnel_handshake env first input =
    (case dispatch first of
       Client_Http \<Rightarrow> (read_connect input, [])
     | Client_Socks5 \<Rightarrow> socks5_handshake env input
     | Client_Unknown \<Rightarrow> (Inr (None, input), []))"

definition handle_tunnel ::
  "('t, 'c, 'k) listen_env \<Rightarrow> ('s, 't, 'c) runtime \<Rightarrow> ('s, 't, 'c) runtime \<Rightarrow> string \<Rightarrow> arrival list \<Rightarrow> 's \<Rightarrow>
   'k listen_event list \<times> 's" where
  "handle_tunnel env rt rt' remote input s =
    (case peek_byte input of
       Inr (Some first) \<Rightarrow>
         (case tunnel_handshake env first input of
            (Inr (Some target, rest), evs) \<Rightarrow>
              (let (evs', s') = decide_tunnel env rt rt' (dispatch first = Client_Socks5) target remote rest s
               in (evs @ evs', s'))
          | (_, evs) \<Rightarrow> (evs, s))
     | _ \<Rightarrow> ([], s))"

section \<open>Reading\<close>

fun bytes_of :: "arrival list \<Rightarrow> bytes" where
  "bytes_of [] = []"
| "bytes_of (Data bs # input) = bs @ bytes_of input"
| "bytes_of (Stall # input) = bytes_of input"
| "bytes_of (Reset # input) = []"

lemma read_byte_bytes:
  assumes "Reset \<notin> set input"
  shows "case bytes_of input of
      [] \<Rightarrow> read_byte input = Inr (None, [])
    | b # bs \<Rightarrow> \<exists>rest. read_byte input = Inr (Some b, rest) \<and> bytes_of rest = bs \<and> Reset \<notin> set rest"
  using assms by (induction input rule: read_byte.induct) (auto split: list.splits)

lemma read_byte_Some:
  assumes "Reset \<notin> set input" "bytes_of input = b # bs"
  obtains rest where "read_byte input = Inr (Some b, rest)" "bytes_of rest = bs" "Reset \<notin> set rest"
  using read_byte_bytes [OF assms(1)] assms(2) by auto

lemma read_exact_bytes:
  assumes "Reset \<notin> set input" "bytes_of input = bs @ tl_bytes"
  obtains rest where "read_exact (length bs) input = Inr (bs, rest)" "bytes_of rest = tl_bytes" "Reset \<notin> set rest"
  using assms
proof (induction bs arbitrary: input thesis)
  case (Cons b bs)
  obtain mid where mid: "read_byte input = Inr (Some b, mid)" "bytes_of mid = bs @ tl_bytes" "Reset \<notin> set mid"
    using Cons.prems(2,3) by (auto elim: read_byte_Some)
  obtain rest where "read_exact (length bs) mid = Inr (bs, rest)" "bytes_of rest = tl_bytes" "Reset \<notin> set rest"
    using Cons.IH [OF _ mid(3,2)] by blast
  then show ?case using mid(1) by (intro Cons.prems(1) [of rest]) simp_all
qed simp

declare read_exact.simps [simp del]

lemma peek_byte_bytes: "Reset \<notin> set input \<Longrightarrow> bytes_of input = b # bs \<Longrightarrow> peek_byte input = Inr (Some b)"
  by (induction input rule: peek_byte.induct) auto

lemma take_drop_append: "take n xs @ drop n xs @ ys = xs @ ys"
  using append_take_drop_id [of n xs] by (simp flip: append_assoc)

lemma read_timeout_bytes: "read_timeout cap input = (bs, rest) \<Longrightarrow> bs @ bytes_of rest = bytes_of input"
  by (induction cap input rule: read_timeout.induct) (auto simp: take_drop_append)

text \<open>The head of a CONNECT request is read up to the first blank line, however it arrives.\<close>

lemma read_head_bytes:
  assumes "Reset \<notin> set input" "bytes_of input = head @ tl_bytes" "length (buf @ head) \<le> SNIFF_CAP + 1" "head \<noteq> []"
    and "suffix CRLFCRLF (buf @ head)" "\<And>p. strict_prefix p head \<Longrightarrow> p \<noteq> [] \<Longrightarrow> \<not> suffix CRLFCRLF (buf @ p)"
  shows "\<exists>rest. read_head input buf = Inr (Some (buf @ head), rest) \<and> bytes_of rest = tl_bytes \<and> Reset \<notin> set rest"
  using assms
proof (induction head arbitrary: input buf)
  case (Cons b head)
  obtain mid where mid: "read_byte input = Inr (Some b, mid)" "bytes_of mid = head @ tl_bytes" "Reset \<notin> set mid"
    using Cons.prems(1,2) by (auto elim: read_byte_Some)
  have room: "\<not> SNIFF_CAP < length buf" using Cons.prems(3) by simp
  show ?case
  proof (cases "head = []")
    case True
    then show ?thesis using mid Cons.prems(5) room by (subst read_head.simps) (simp add: Let_def)
  next
    case False
    have "\<not> suffix CRLFCRLF (buf @ [b])" using Cons.prems(6) [of "[b]"] False by (auto simp: strict_prefix_def)
    moreover have "\<exists>rest. read_head mid (buf @ [b]) = Inr (Some ((buf @ [b]) @ head), rest) \<and>
        bytes_of rest = tl_bytes \<and> Reset \<notin> set rest"
    proof (rule Cons.IH [OF mid(3,2)])
      fix p
      assume "strict_prefix p head" "p \<noteq> []"
      then show "\<not> suffix CRLFCRLF ((buf @ [b]) @ p)" using Cons.prems(6) [of "b # p"] by simp
    qed (use Cons.prems False in auto)
    ultimately show ?thesis using mid room by (subst read_head.simps) (simp add: Let_def del: suffix_snoc)
  qed
qed simp

section \<open>The opening bytes of a passthrough\<close>

lemma sniff_loop_bytes:
  "sniff_loop input buffered = (b, sni, rest) \<Longrightarrow> b @ bytes_of rest = buffered @ bytes_of input"
proof (induction input buffered rule: sniff_loop.induct)
  case (1 input buffered)
  obtain bs input' where r: "read_timeout 4096 input = (bs, input')" by force
  show ?case
    using "1.prems" "1.IH" [OF _ r [symmetric]] read_timeout_bytes [OF r]
    by (subst (asm) sniff_loop.simps) (auto simp: r Let_def split: if_splits sni_scan.splits)
qed

lemma sniff_loop_sni:
  assumes "sniff_loop input buffered = (b, sni, rest)" "scan_client_hello_sni buffered = Incomplete"
  shows "sni = (case scan_client_hello_sni b of Sni n \<Rightarrow> Some n | _ \<Rightarrow> None)"
  using assms
proof (induction input buffered rule: sniff_loop.induct)
  case (1 input buffered)
  obtain bs input' where r: "read_timeout 4096 input = (bs, input')" by force
  show ?case
    using "1.prems" "1.IH" [OF _ r [symmetric]]
    unfolding sniff_loop.simps [of input buffered]
    by (auto simp: r Let_def split: if_splits sni_scan.splits)
qed

text \<open>Two prefixes of one stream on which the scan has decided agree.\<close>

lemma scan_prefixes_agree:
  assumes "a @ x = b @ y" "scan_client_hello_sni a \<noteq> Incomplete" "scan_client_hello_sni b \<noteq> Incomplete"
  shows "scan_client_hello_sni a = scan_client_hello_sni b"
  using scan_stable [OF assms(2), of x] scan_stable [OF assms(3), of y] assms(1) by simp

definition steady :: "arrival list \<Rightarrow> bool" where
  "steady input \<longleftrightarrow> Stall \<notin> set input \<and> Reset \<notin> set input"

text \<open>A client that has sent bytes without a pause is read, whatever it does later.\<close>

lemma read_timeout_front:
  assumes "steady front" "bytes_of front \<noteq> []"
  obtains bs rest where "\<And>later. read_timeout 4096 (front @ later) = (bs, rest @ later)" "bs \<noteq> []" "steady rest"
    "bytes_of front = bs @ bytes_of rest"
  using assms
proof (induction "4096 :: nat" front arbitrary: thesis rule: read_timeout.induct)
  case (2 b bs front)
  then show ?case
    by (intro "2.prems"(1) [of "take 4096 (b # bs)" "Data (drop 4096 (b # bs)) # front"]) (auto simp: steady_def take_drop_append)
qed (auto simp: steady_def)

lemma sniff_loop_finds:
  assumes "steady front" "scan_client_hello_sni buffered = Incomplete"
    and "scan_client_hello_sni (take SNIFF_CAP (buffered @ bytes_of front)) = Sni n"
  shows "fst (snd (sniff_loop (front @ later) buffered)) = Some n"
  using assms
proof (induction "length (bytes_of front)" arbitrary: front buffered rule: less_induct)
  case less
  define all where "all = buffered @ bytes_of front"
  have dec: "scan_client_hello_sni (take SNIFF_CAP all) = Sni n" using less.prems(3) by (simp only: all_def)
  have room: "length buffered \<le> SNIFF_CAP"
  proof (rule ccontr)
    assume "\<not> length buffered \<le> SNIFF_CAP"
    then have "take SNIFF_CAP all @ drop SNIFF_CAP buffered = buffered" by (simp add: all_def)
    then have "scan_client_hello_sni buffered = Sni n"
      using scan_stable [of "take SNIFF_CAP all" "drop SNIFF_CAP buffered"] dec by simp
    then show False using less.prems(2) by simp
  qed
  have "bytes_of front \<noteq> []"
  proof
    assume "bytes_of front = []"
    then have "take SNIFF_CAP all = buffered" using room by (simp add: all_def)
    then show False using less.prems(2) dec by simp
  qed
  from read_timeout_front [OF less.prems(1) this] obtain bs rest where
    r: "\<And>later. read_timeout 4096 (front @ later) = (bs, rest @ later)" and more: "bs \<noteq> []" and st: "steady rest"
    and bytes: "bytes_of front = bs @ bytes_of rest"
    by metis
  have all: "all = (buffered @ bs) @ bytes_of rest" by (simp add: all_def bytes)
  show ?case
  proof (cases "scan_client_hello_sni (buffered @ bs) = Incomplete")
    case True
    have "length (bytes_of rest) < length (bytes_of front)" using bytes more by simp
    from less.hyps [OF this st True] have "fst (snd (sniff_loop (rest @ later) (buffered @ bs))) = Some n"
      using dec all by simp
    then show ?thesis using room more True by (subst sniff_loop.simps) (simp add: r Let_def)
  next
    case False
    have "(buffered @ bs) @ bytes_of rest = take SNIFF_CAP all @ drop SNIFF_CAP all"
      unfolding append_take_drop_id by (rule all [symmetric])
    from scan_prefixes_agree [OF this False] have "scan_client_hello_sni (buffered @ bs) = Sni n" unfolding dec by simp
    then show ?thesis using room more by (subst sniff_loop.simps) (simp add: r Let_def)
  qed
qed

section \<open>Events of a run\<close>

definition tunnel_dials :: "'k listen_event list \<Rightarrow> dial_event list" where
  "tunnel_dials evs = concat (map (\<lambda>e. case e of Tunnel_Dial d \<Rightarrow> [d] | _ \<Rightarrow> []) evs)"

definition tunnel_emissions :: "'k listen_event list \<Rightarrow> emission list" where
  "tunnel_emissions evs = concat (map (\<lambda>e. case e of Tunnel_Emit r \<Rightarrow> [r] | _ \<Rightarrow> []) evs)"

definition upstream_writes :: "'k listen_event list \<Rightarrow> (stream \<times> bytes) list" where
  "upstream_writes evs =
    concat (map (\<lambda>e. case e of To_Upstream st bs \<Rightarrow> [(st, bs)] | Splice st input \<Rightarrow> [(st, bytes_of input)] | _ \<Rightarrow> []) evs)"

definition contexts :: "'k listen_event list \<Rightarrow> conn_ctx list" where
  "contexts evs = concat (map (\<lambda>e. case e of Serve _ ctx _ \<Rightarrow> [ctx] | _ \<Rightarrow> []) evs)"

lemmas listen_projections = tunnel_dials_def tunnel_emissions_def upstream_writes_def contexts_def

lemma projections_append [simp]:
  "tunnel_dials (a @ b) = tunnel_dials a @ tunnel_dials b"
  "tunnel_emissions (a @ b) = tunnel_emissions a @ tunnel_emissions b"
  "upstream_writes (a @ b) = upstream_writes a @ upstream_writes b"
  "contexts (a @ b) = contexts a @ contexts b"
  by (simp_all add: listen_projections)

lemma projections_client [simp]:
  "tunnel_dials (To_Client bs # evs) = tunnel_dials evs" "tunnel_emissions (To_Client bs # evs) = tunnel_emissions evs"
  "upstream_writes (To_Client bs # evs) = upstream_writes evs" "contexts (To_Client bs # evs) = contexts evs"
  by (simp_all add: listen_projections)

lemma projections_upstream [simp]:
  "tunnel_dials (To_Upstream st bs # evs) = tunnel_dials evs"
  "tunnel_emissions (To_Upstream st bs # evs) = tunnel_emissions evs"
  "upstream_writes (To_Upstream st bs # evs) = (st, bs) # upstream_writes evs"
  "contexts (To_Upstream st bs # evs) = contexts evs"
  "tunnel_dials (Splice st input # evs) = tunnel_dials evs"
  "tunnel_emissions (Splice st input # evs) = tunnel_emissions evs"
  "upstream_writes (Splice st input # evs) = (st, bytes_of input) # upstream_writes evs"
  "contexts (Splice st input # evs) = contexts evs"
  by (simp_all add: listen_projections)

lemma projections_serve [simp]:
  "tunnel_dials (Serve cfg ctx input # evs) = tunnel_dials evs"
  "tunnel_emissions (Serve cfg ctx input # evs) = tunnel_emissions evs"
  "upstream_writes (Serve cfg ctx input # evs) = upstream_writes evs"
  "contexts (Serve cfg ctx input # evs) = ctx # contexts evs"
  by (simp_all add: listen_projections)

lemma projections_Nil [simp]:
  "tunnel_dials [] = []" "tunnel_emissions [] = []" "upstream_writes [] = []" "contexts [] = []"
  by (simp_all add: listen_projections)

lemma projections_dials [simp]:
  "tunnel_dials (map Tunnel_Dial ds) = ds" "tunnel_emissions (map Tunnel_Dial ds) = []"
  "upstream_writes (map Tunnel_Dial ds) = []" "contexts (map Tunnel_Dial ds) = []"
  by (simp_all add: listen_projections comp_def)

lemma projections_emission [simp]:
  "tunnel_dials (Tunnel_Emit e # evs) = tunnel_dials evs" "tunnel_emissions (Tunnel_Emit e # evs) = e # tunnel_emissions evs"
  "upstream_writes (Tunnel_Emit e # evs) = upstream_writes evs" "contexts (Tunnel_Emit e # evs) = contexts evs"
  by (simp_all add: listen_projections)

lemma emit_record_eq: "emit_record remote r = [Tunnel_Emit (r, level_for (ar_action r))]"
  by (simp add: emit_record_def PendingAudit_emit_def PendingAudit_new_def PendingAudit_drop_def)

lemma projections_emit [simp]:
  "tunnel_dials (emit_record remote r) = []" "tunnel_emissions (emit_record remote r) = [(r, level_for (ar_action r))]"
  "upstream_writes (emit_record remote r) = []" "contexts (emit_record remote r) = []"
  by (simp_all add: emit_record_eq)

lemma handshake_quiet:
  "tunnel_handshake env first input = (r, evs) \<Longrightarrow>
   tunnel_dials evs = [] \<and> tunnel_emissions evs = [] \<and> upstream_writes evs = [] \<and> contexts evs = []"
  by (auto simp: tunnel_handshake_def socks5_handshake_def socks5_request_def socks5_reply_def Let_def
      split: client_protocol.splits sum.splits prod.splits if_splits option.splits socks5_method.splits)

lemma terminate_quiet:
  "tunnel_dials (terminate_and_serve env rt remote forced input) = [] \<and>
   upstream_writes (terminate_and_serve env rt remote forced input) = []"
  by (auto simp: terminate_and_serve_def emit_listener_reject_def Let_def split: option.splits sum.splits)

lemma splice_quiet:
  "tunnel_dials (passthrough_splice env target remote traces upstream input) = [] \<and>
   contexts (passthrough_splice env target remote traces upstream input) = []"
  by (auto simp: passthrough_splice_def Let_def split: prod.splits)

lemma connect_guarded:
  "connect_upstream net proof host port https rt = (res, evs) \<Longrightarrow>
   \<forall>a \<in> set (dialled evs). Guard_check (rt_guard rt) (fst a) = Inr ()"
  using connect_upstream_guards [of net "proof" host port https rt res evs] by simp

text \<open>What a passthrough does to the upstream, and what it writes down.\<close>

lemma splice_upstream:
  assumes "sniff_loop input [] = (buffered, sni, rest)"
  shows "upstream_writes (passthrough_splice env target remote traces st input) \<in>
      {[], (if buffered = [] then [] else [(st, buffered)]) @ [(st, bytes_of rest)]} \<and>
    (upstream_writes (passthrough_splice env target remote traces st input) \<noteq> [] \<longrightarrow>
       sni = None \<or> sni = Some (to_lower (ct_host target)))"
  using assms by (auto simp: passthrough_splice_def Let_def)

lemma sniff_start: "scan_client_hello_sni [] = Incomplete"
  by (simp add: scan_client_hello_sni_def)

lemma passthrough_upstream:
  assumes "connect_upstream (le_net env) proof (ct_host target) (ct_port target) False rt = (res, dials)"
    and "upstream_writes (passthrough_tunnel env is_socks target proof remote rt traces input) \<noteq> []"
  obtains st where "res = Inr st"
    and "upstream_writes (passthrough_tunnel env is_socks target proof remote rt traces input) =
      upstream_writes (passthrough_splice env target remote traces st input)"
  using assms that by (cases res) (auto simp: passthrough_tunnel_def Let_def split: if_splits dial_error.splits)

lemma splice_stream:
  "(st', bs) \<in> set (upstream_writes (passthrough_splice env target remote traces st input)) \<Longrightarrow> st' = st"
  by (auto simp: passthrough_splice_def Let_def split: prod.splits if_splits)

lemma passthrough_stream:
  "(st, bs) \<in> set (upstream_writes (passthrough_tunnel env is_socks target proof remote rt traces input)) \<Longrightarrow>
   fst (connect_upstream (le_net env) proof (ct_host target) (ct_port target) False rt) = Inr st"
  by (auto simp: passthrough_tunnel_def Let_def dest: splice_stream split: prod.splits sum.splits if_splits dial_error.splits)

lemma decide_tunnel_cases:
  assumes "decide_tunnel env rt rt' is_socks target remote input s = (evs, s')"
  obtains po summary where
    "evaluate_request (rt_pipeline rt) s (synthetic_connect_summary target remote) = (po, summary, s')"
    "\<not> is_allowed (po_outcome po)"
    "evs = emit_tunnel_reject remote target po @ [To_Client (if is_socks then socks5_failure CHR 0x02 else REPLY_403)]"
  | po summary where
    "evaluate_request (rt_pipeline rt) s (synthetic_connect_summary target remote) = (po, summary, s')"
    "is_allowed (po_outcome po)" "passthrough_matches rt (ct_host target)"
    "evs = passthrough_tunnel env is_socks target AllowProof remote rt (po_request_traces po) input"
  | po summary where
    "evaluate_request (rt_pipeline rt) s (synthetic_connect_summary target remote) = (po, summary, s')"
    "is_allowed (po_outcome po)" "\<not> passthrough_matches rt (ct_host target)"
    "evs = bump_tunnel env rt' is_socks target remote (po_request_traces po) input"
proof -
  obtain po summary s1 where e:
    "evaluate_request (rt_pipeline rt) s (synthetic_connect_summary target remote) = (po, summary, s1)"
    by (metis prod_cases3)
  show thesis
  proof (cases "po_outcome po")
    case (Outcome_Continue pr)
    then show thesis using assms e that by (cases pr) (auto simp: decide_tunnel_def Let_def split: if_splits)
  qed (use assms e that in \<open>auto simp: decide_tunnel_def Let_def\<close>)
qed

lemma terminate_contexts:
  "ctx \<in> set (contexts (terminate_and_serve env rt remote (Some (target, traces)) input)) \<Longrightarrow>
   cn_forced_upstream ctx = Some (ct_host target, ct_port target)"
  by (auto simp: terminate_and_serve_def emit_listener_reject_def Let_def split: option.splits sum.splits if_splits)

lemma bump_contexts:
  "ctx \<in> set (contexts (bump_tunnel env rt is_socks target remote traces input)) \<Longrightarrow>
   cn_forced_upstream ctx = Some (ct_host target, ct_port target)"
  by (auto simp: bump_tunnel_def emit_tunnel_handshake_def dest: terminate_contexts
      split: option.splits inner_protocol.splits if_splits)

lemma bump_quiet:
  "tunnel_dials (bump_tunnel env rt is_socks target remote traces input) = [] \<and>
   upstream_writes (bump_tunnel env rt is_socks target remote traces input) = []"
  by (auto simp: bump_tunnel_def emit_tunnel_handshake_def terminate_quiet split: option.splits inner_protocol.splits)

lemma passthrough_dials:
  assumes "connect_upstream (le_net env) proof (ct_host target) (ct_port target) False rt = (res, dials)"
  shows "tunnel_dials (passthrough_tunnel env is_socks target proof remote rt traces input) = dials \<and>
    contexts (passthrough_tunnel env is_socks target proof remote rt traces input) = []"
  using assms by (auto simp: passthrough_tunnel_def Let_def splice_quiet split: sum.splits dial_error.splits)

lemma handle_tunnel_cases:
  assumes "handle_tunnel env rt rt' remote input s = (evs, s')"
    and "tunnel_dials evs \<noteq> [] \<or> upstream_writes evs \<noteq> [] \<or> contexts evs \<noteq> [] \<or> tunnel_emissions evs \<noteq> []"
  obtains first target rest es evs' where "peek_byte input = Inr (Some first)"
    "tunnel_handshake env first input = (Inr (Some target, rest), es)"
    "decide_tunnel env rt rt' (dispatch first = Client_Socks5) target remote rest s = (evs', s')"
    "evs = es @ evs'" "tunnel_dials evs = tunnel_dials evs'" "upstream_writes evs = upstream_writes evs'"
    "contexts evs = contexts evs'" "tunnel_emissions evs = tunnel_emissions evs'"
proof -
  obtain first where first: "peek_byte input = Inr (Some first)"
    using assms by (auto simp: handle_tunnel_def split: sum.splits option.splits)
  obtain r es where hs: "tunnel_handshake env first input = (r, es)" by force
  note quiet = handshake_quiet [OF hs]
  obtain target rest where r: "r = Inr (Some target, rest)"
    using assms first hs quiet by (auto simp: handle_tunnel_def split: sum.splits option.splits)
  obtain evs' s1 where d: "decide_tunnel env rt rt' (dispatch first = Client_Socks5) target remote rest s = (evs', s1)"
    by force
  have "evs = es @ evs'" "s1 = s'" using assms(1) first hs r d by (simp_all add: handle_tunnel_def)
  then show thesis using that [OF first, of target rest es evs'] hs r d quiet by simp
qed

section \<open>No tunnel around the pipeline\<close>

lemma tunnel_gated:
  assumes "handle_tunnel env rt rt' remote input s = (evs, s')"
    and "tunnel_dials evs \<noteq> [] \<or> upstream_writes evs \<noteq> [] \<or> contexts evs \<noteq> []"
  shows "\<exists>first target rest es po summary.
    peek_byte input = Inr (Some first) \<and> tunnel_handshake env first input = (Inr (Some target, rest), es) \<and>
    evaluate_request (rt_pipeline rt) s (synthetic_connect_summary target remote) = (po, summary, s') \<and>
    is_allowed (po_outcome po) \<and>
    (tunnel_dials evs \<noteq> [] \<longrightarrow> passthrough_matches rt (ct_host target)) \<and>
    (\<forall>a \<in> set (dialled (tunnel_dials evs)). Guard_check (rt_guard rt) (fst a) = Inr ()) \<and>
    (\<forall>st bs. (st, bs) \<in> set (upstream_writes evs) \<longrightarrow>
       fst (connect_upstream (le_net env) AllowProof (ct_host target) (ct_port target) False rt) = Inr st) \<and>
    (\<forall>ctx \<in> set (contexts evs). cn_forced_upstream ctx = Some (ct_host target, ct_port target))"
proof -
  from handle_tunnel_cases [OF assms(1)] assms(2)
  obtain first target rest es evs' where h: "peek_byte input = Inr (Some first)"
      "tunnel_handshake env first input = (Inr (Some target, rest), es)"
      "decide_tunnel env rt rt' (dispatch first = Client_Socks5) target remote rest s = (evs', s')"
    and same: "tunnel_dials evs = tunnel_dials evs'" "upstream_writes evs = upstream_writes evs'"
      "contexts evs = contexts evs'"
    by metis
  obtain res dials where c:
    "connect_upstream (le_net env) AllowProof (ct_host target) (ct_port target) False rt = (res, dials)" by force
  from h(3) show ?thesis
  proof (cases rule: decide_tunnel_cases)
    case (1 po summary)
    then show ?thesis using assms(2) same by (simp add: emit_tunnel_reject_def Let_def)
  next
    case (2 po summary)
    note q = passthrough_dials [OF c, of "dispatch first = Client_Socks5" remote "po_request_traces po" rest]
    note w = passthrough_stream [of _ _ env "dispatch first = Client_Socks5" target AllowProof remote rt "po_request_traces po" rest]
    show ?thesis
      using h 2 q w same connect_guarded [OF c]
      by (intro exI [of _ first] exI [of _ target] exI [of _ rest] exI [of _ es] exI [of _ po] exI [of _ summary]) auto
  next
    case (3 po summary)
    then show ?thesis
      using h same bump_quiet [of env rt' "dispatch first = Client_Socks5" target remote "po_request_traces po" rest]
        bump_contexts [of _ env rt' "dispatch first = Client_Socks5" target remote "po_request_traces po" rest]
      by (intro exI [of _ first] exI [of _ target] exI [of _ rest] exI [of _ es] exI [of _ po] exI [of _ summary]) auto
  qed
qed

section \<open>Properties\<close>

text \<open>
  C4. No tunnel without the pipeline's approval: when a tunnel resolves or dials, sends a byte upstream or
  is served as HTTP, then the client's opening bytes named the target, and the pipeline, run on the
  CONNECT to exactly this target, continued. Only a passthrough target is dialled by the listener
  itself, every address dialled passed the guard, and bytes go upstream only over the connection
  of this dial. Everything served out of a tunnel is bound to the target that was approved.
\<close>

theorem tunnel_no_bypass:
  assumes "handle_tunnel env rt rt' remote input s = (evs, s')"
    and "tunnel_dials evs \<noteq> [] \<or> upstream_writes evs \<noteq> [] \<or> contexts evs \<noteq> []"
  shows "\<exists>first target rest es po summary.
    peek_byte input = Inr (Some first) \<and> tunnel_handshake env first input = (Inr (Some target, rest), es) \<and>
    evaluate_request (rt_pipeline rt) s (synthetic_connect_summary target remote) = (po, summary, s') \<and>
    is_allowed (po_outcome po) \<and>
    (tunnel_dials evs \<noteq> [] \<longrightarrow> passthrough_matches rt (ct_host target)) \<and>
    (\<forall>a \<in> set (dialled (tunnel_dials evs)). Guard_check (rt_guard rt) (fst a) = Inr ()) \<and>
    (\<forall>st bs. (st, bs) \<in> set (upstream_writes evs) \<longrightarrow>
       fst (connect_upstream (le_net env) AllowProof (ct_host target) (ct_port target) False rt) = Inr st) \<and>
    (\<forall>ctx \<in> set (contexts evs). cn_forced_upstream ctx = Some (ct_host target, ct_port target))"
  using assms by (rule tunnel_gated)

text \<open>
  C11. A passthrough does not hide another host: what reaches the upstream is the client's byte stream, the
  buffered opening first and then the rest, nothing lost or added; and when the buffered opening is a
  ClientHello with a server name, the name is the CONNECT target's. A client whose first bytes, up to 16 KiB, arrive without a
  pause and have a server name in them has it checked, however they are cut into reads and whatever comes
  later: with another name than the target's nothing is sent upstream. (After a pause of the handshake timeout
  the opening counts as it is, see \<open>stalled_hello_spliced\<close>.)
\<close>

theorem passthrough_sni_enforced:
  assumes "evs = passthrough_tunnel env is_socks target proof remote rt traces input"
  shows "(upstream_writes evs \<noteq> [] \<longrightarrow>
      (\<exists>buffered rest st. upstream_writes evs = (if buffered = [] then [] else [(st, buffered)]) @ [(st, rest)] \<and>
        buffered @ rest = bytes_of input \<and>
        (\<forall>n. scan_client_hello_sni buffered = Sni n \<longrightarrow> n = to_lower (ct_host target)))) \<and>
    (\<forall>front later n. input = front @ later \<longrightarrow> steady front \<longrightarrow>
       scan_client_hello_sni (take SNIFF_CAP (bytes_of front)) = Sni n \<longrightarrow>
       n \<noteq> to_lower (ct_host target) \<longrightarrow> upstream_writes evs = [])"
proof -
  obtain res dials where c: "connect_upstream (le_net env) proof (ct_host target) (ct_port target) False rt = (res, dials)"
    by force
  obtain buffered sni rest where sniff: "sniff_loop input [] = (buffered, sni, rest)" by (metis prod_cases3)
  have bytes: "buffered @ bytes_of rest = bytes_of input" using sniff_loop_bytes [OF sniff] by simp
  have sni: "sni = (case scan_client_hello_sni buffered of Sni n \<Rightarrow> Some n | _ \<Rightarrow> None)"
    using sniff_loop_sni [OF sniff sniff_start] .
  have up: "\<exists>st. upstream_writes evs = (if buffered = [] then [] else [(st, buffered)]) @ [(st, bytes_of rest)] \<and>
      (sni = None \<or> sni = Some (to_lower (ct_host target)))" if "upstream_writes evs \<noteq> []"
  proof -
    from passthrough_upstream [OF c that [unfolded assms]] obtain st where
      st: "upstream_writes evs = upstream_writes (passthrough_splice env target remote traces st input)"
      unfolding assms by metis
    show ?thesis
      using splice_upstream [OF sniff, of env target remote traces st] that unfolding st by (intro exI [of _ st]) simp
  qed
  show ?thesis
  proof (intro conjI impI allI)
    assume "upstream_writes evs \<noteq> []"
    from up [OF this] sni bytes show "\<exists>buffered rest st.
        upstream_writes evs = (if buffered = [] then [] else [(st, buffered)]) @ [(st, rest)] \<and>
        buffered @ rest = bytes_of input \<and>
        (\<forall>n. scan_client_hello_sni buffered = Sni n \<longrightarrow> n = to_lower (ct_host target))"
      by (intro exI [of _ buffered] exI [of _ "bytes_of rest"]) auto
  next
    fix front later n
    assume "input = front @ later" "steady front" "scan_client_hello_sni (take SNIFF_CAP (bytes_of front)) = Sni n"
      "n \<noteq> to_lower (ct_host target)"
    then have "sni \<noteq> None" "sni \<noteq> Some (to_lower (ct_host target))"
      using sniff_loop_finds [OF _ sniff_start, of front n later] sniff by simp_all
    then show "upstream_writes evs = []" using up by blast
  qed
qed

text \<open>What the record of a passthrough has to say.\<close>

definition passthrough_recorded ::
  "connect_target \<Rightarrow> bool \<Rightarrow> dial_error + stream \<Rightarrow> 'k listen_event list \<Rightarrow> audit_record \<Rightarrow> bool" where
  "passthrough_recorded target is_socks res evs r \<longleftrightarrow>
    tunnel_emissions evs = [(r, level_for (ar_action r))] \<and> ar_host r = ct_host target \<and> ar_method r = ''CONNECT'' \<and>
    map_option tg_passthrough (ar_tunnel r) = Some True \<and>
    (upstream_writes evs \<noteq> [] \<longleftrightarrow> ar_action r = Allow) \<and>
    (\<forall>d. res = Inl (Denied d) \<longrightarrow> ar_action r = Reject \<and> ar_guard r = Some d) \<and>
    (\<forall>m. res = Inl (Failed m) \<longrightarrow> ar_action r = Error \<and> ar_error r = Some m) \<and>
    (case res of
       Inl _ \<Rightarrow> To_Client (success_reply is_socks) \<notin> set evs
     | Inr st \<Rightarrow> \<exists>pre post. evs = pre @ To_Client (success_reply is_socks) # post \<and> upstream_writes pre = [] \<and>
                   tunnel_dials post = [])"

lemma failure_replies:
  "success_reply is_socks \<noteq> (if is_socks then socks5_failure CHR 0x02 else REPLY_502)"
  by (simp add: success_reply_def SOCKS5_SUCCESS_def socks5_failure_def REPLY_200_def REPLY_502_def)

lemma splice_recorded:
  assumes "\<And>bs. le_upstream_write env bs"
  shows "\<exists>r. tunnel_emissions (passthrough_splice env target remote traces st input) = [(r, level_for (ar_action r))] \<and>
    ar_host r = ct_host target \<and> ar_method r = ''CONNECT'' \<and> map_option tg_passthrough (ar_tunnel r) = Some True \<and>
    (upstream_writes (passthrough_splice env target remote traces st input) \<noteq> [] \<longleftrightarrow> ar_action r = Allow)"
  using assms
  by (auto simp: passthrough_splice_def Let_def passthrough_record_def base_tunnel_record_def split: prod.splits)

text \<open>
  C26. One record per passthrough: unless a write fails half-way, a passthrough tunnel emits exactly one audit
  record, for the CONNECT to its target and marked as a passthrough. Bytes have gone upstream exactly
  when the record says Allow, a denial of the guard is recorded as such, and the client is told of
  success only when the dial succeeded, and then before any byte goes upstream.
\<close>

theorem passthrough_one_record:
  assumes "\<And>bs. le_client_write env bs" "\<And>bs. le_upstream_write env bs"
    and "fst (connect_upstream (le_net env) proof (ct_host target) (ct_port target) False rt) = res"
  shows "\<exists>r. passthrough_recorded target is_socks res
    (passthrough_tunnel env is_socks target proof remote rt traces input) r"
proof -
  obtain dials where c: "connect_upstream (le_net env) proof (ct_host target) (ct_port target) False rt = (res, dials)"
    using assms(3) by (metis prod.collapse)
  show ?thesis
  proof (cases res)
    case (Inl e)
    then show ?thesis
      using c failure_replies [of is_socks]
      by (cases e) (auto simp: passthrough_tunnel_def passthrough_recorded_def passthrough_record_def
          base_tunnel_record_def emit_record_eq)
  next
    case (Inr st)
    obtain r where "tunnel_emissions (passthrough_splice env target remote traces st input) = [(r, level_for (ar_action r))]"
      "ar_host r = ct_host target" "ar_method r = ''CONNECT''" "map_option tg_passthrough (ar_tunnel r) = Some True"
      "upstream_writes (passthrough_splice env target remote traces st input) \<noteq> [] \<longleftrightarrow> ar_action r = Allow"
      using splice_recorded [OF assms(2)] by blast
    moreover have "\<exists>pre post. map Tunnel_Dial dials @ To_Client (success_reply is_socks) #
        passthrough_splice env target remote traces st input = pre @ To_Client (success_reply is_socks) # post \<and>
        upstream_writes pre = [] \<and> tunnel_dials post = []"
      by (intro exI [of _ "map Tunnel_Dial dials"] exI [of _ "passthrough_splice env target remote traces st input"])
        (simp add: splice_quiet)
    ultimately show ?thesis
      using c Inr assms(1) by (intro exI [of _ r]) (simp add: passthrough_tunnel_def passthrough_recorded_def)
  qed
qed

text \<open>
  C27. Terminated TLS agrees about names: a connection is served with the leaf the certificate cache
  gave for exactly one name. On the HTTPS listener that name is the server name of the ClientHello, and a
  ClientHello without one is refused with a record. In a tunnel it is the host of the approved CONNECT,
  the connection is bound to that target, and the ClientHello, if it has a server name, has this one. A
  server name other than the target's is refused with a record and nothing is served.
\<close>

theorem mitm_names_agree:
  assumes "evs = terminate_and_serve env rt remote forced input"
  shows "(\<forall>cfg ctx inner. Serve cfg ctx inner \<in> set evs \<longrightarrow>
      (\<exists>cache name config. rt_cert_cache rt = Some cache \<and> le_leaf env cache name = Inr config \<and> cfg = Some config \<and>
        cn_scheme_https ctx \<and>
        (case forced of
           None \<Rightarrow> cn_sni ctx = Some name \<and> cn_forced_upstream ctx = None
         | Some (target, traces) \<Rightarrow>
             name = ct_host target \<and> cn_forced_upstream ctx = Some (ct_host target, ct_port target) \<and>
             (\<forall>sni. cn_sni ctx = Some sni \<longrightarrow> to_lower sni = to_lower (ct_host target))))) \<and>
    (\<forall>cache target traces sni. rt_cert_cache rt = Some cache \<longrightarrow> forced = Some (target, traces) \<longrightarrow>
       le_client_hello env input = Some (Some sni) \<longrightarrow> to_lower sni \<noteq> to_lower (ct_host target) \<longrightarrow>
       contexts evs = [] \<and> map (ar_action \<circ> fst) (tunnel_emissions evs) = [Reject]) \<and>
    (\<forall>cache. rt_cert_cache rt = Some cache \<longrightarrow> forced = None \<longrightarrow> le_client_hello env input = Some None \<longrightarrow>
       contexts evs = [] \<and> map (ar_action \<circ> fst) (tunnel_emissions evs) = [Reject])"
  unfolding assms
  by (cases "rt_cert_cache rt")
    (auto simp: terminate_and_serve_def emit_listener_reject_def emit_record_eq eq_ignore_case_def Let_def
      split: option.splits sum.splits prod.splits if_splits)

text \<open>A client that asks for one host and then greets another.\<close>

definition test_listen :: "(unit, unit, unit) listen_env" where
  "test_listen =
    \<lparr>le_net = test_network, le_client_write = (\<lambda>_. True), le_upstream_write = (\<lambda>_. True), le_copy = (\<lambda>_. None),
     le_client_hello = (\<lambda>input. case input of Data bs # _ \<Rightarrow> Some (case scan_client_hello_sni bs of Sni n \<Rightarrow> Some n | _ \<Rightarrow> None)
                                              | _ \<Rightarrow> None),
     le_leaf = (\<lambda>_ name. Inr \<lparr>sc_leaf = \<lparr>cl_chain = [name], cl_key = ()\<rparr>, sc_alpn = []\<rparr>),
     le_into_stream = (\<lambda>_ input. Some input), le_elapsed = 0\<rparr>"

definition test_target :: connect_target where
  "test_target = \<lparr>ct_host = ''a.b'', ct_port = 443\<rparr>"

definition tls_rt :: "(unit, unit, unit) runtime" where
  "tls_rt = test_rt\<lparr>rt_cert_cache := Some ()\<rparr>"

theorem mitm_names_agree_witness:
  "contexts (terminate_and_serve test_listen tls_rt ''c'' None [Data []]) = [] \<and>
   map (ar_action \<circ> fst) (tunnel_emissions (terminate_and_serve test_listen tls_rt ''c'' None [Data []])) = [Reject]"
proof -
  have "rt_cert_cache tls_rt = Some ()" by (simp add: tls_rt_def)
  moreover have "le_client_hello test_listen [Data []] = Some None" by (simp add: test_listen_def sniff_start)
  ultimately show ?thesis using mitm_names_agree [OF refl, of test_listen tls_rt "''c''" None "[Data []]"] by simp
qed

text \<open>A SOCKS5 client in three reads, and the first bytes of a plain request.\<close>

definition socks_client :: "arrival list" where
  "socks_client =
    [Data [CHR 0x05, CHR 0x01, CHR 0x00], Stall, Data [CHR 0x05, CHR 0x01, CHR 0x00, CHR 0x03, CHR 0x03],
     Data (''a.b'' @ [CHR 0x01, CHR 0xBB] @ ''GET / HTTP/1.1'')]"

theorem tunnel_no_bypass_witness:
  "\<exists>evs s'. handle_tunnel test_listen tls_rt tls_rt ''c'' socks_client () = (evs, s') \<and>
     map cn_forced_upstream (contexts evs) = [Some (''a.b'', 443)] \<and>
     (\<exists>first target rest es po summary. tunnel_handshake test_listen first socks_client = (Inr (Some target, rest), es) \<and>
        evaluate_request (rt_pipeline tls_rt) () (synthetic_connect_summary target ''c'') = (po, summary, s') \<and>
        is_allowed (po_outcome po))"
proof -
  obtain evs s' where run: "handle_tunnel test_listen tls_rt tls_rt ''c'' socks_client () = (evs, s')"
    by (cases "handle_tunnel test_listen tls_rt tls_rt ''c'' socks_client ()")
  have "map cn_forced_upstream (contexts (fst (handle_tunnel test_listen tls_rt tls_rt ''c'' socks_client ()))) = [Some (''a.b'', 443)]"
    by code_simp
  then have served: "map cn_forced_upstream (contexts evs) = [Some (''a.b'', 443)]" using run by simp
  then have "tunnel_dials evs \<noteq> [] \<or> upstream_writes evs \<noteq> [] \<or> contexts evs \<noteq> []" by auto
  from tunnel_no_bypass [OF run this] run served show ?thesis by blast
qed

theorem passthrough_one_record_witness:
  "\<exists>r. passthrough_recorded test_target False
     (fst (connect_upstream test_network AllowProof ''a.b'' 443 False test_rt))
     (passthrough_tunnel test_listen False test_target AllowProof ''c'' test_rt [] [Data ''x'', Stall, Data ''y'']) r"
proof -
  have "le_net test_listen = test_network" "ct_host test_target = ''a.b''" "ct_port test_target = 443"
    "\<And>bs. le_client_write test_listen bs" "\<And>bs. le_upstream_write test_listen bs"
    by (simp_all add: test_listen_def test_target_def)
  then show ?thesis
    using passthrough_one_record [of test_listen AllowProof test_target test_rt _ False] by metis
qed

definition test_hello :: bytes where
  "test_hello =
    tls_record CHR 0x03 CHR 0x01
      \<lparr>ch_version_random = replicate 34 CHR 0x00, ch_session_id = [], ch_cipher_suites = [CHR 0x13, CHR 0x01],
       ch_compression = [CHR 0x00],
       ch_extensions = [(0, be16 7 @ CHR 0x00 # be16 4 @ ''evil'')]\<rparr>"

lemma test_hello_scan: "scan_client_hello_sni test_hello = Sni ''evil''"
  by code_simp

lemma test_hello_length: "length test_hello \<le> SNIFF_CAP"
proof -
  have "length test_hello = 65" by code_simp
  then show ?thesis by (simp add: SNIFF_CAP_def)
qed

theorem passthrough_sni_enforced_witness:
  "upstream_writes (passthrough_tunnel test_listen False test_target AllowProof ''c'' test_rt []
     [Data (take 9 test_hello), Data (drop 9 test_hello), Stall, Data ''more'']) = []"
proof -
  let ?front = "[Data (take 9 test_hello), Data (drop 9 test_hello)]"
  have "bytes_of ?front = test_hello" by simp
  moreover have "take SNIFF_CAP test_hello = test_hello" using test_hello_length by simp
  moreover have "steady ?front" by (simp add: steady_def)
  moreover have "''evil'' \<noteq> to_lower (ct_host test_target)"
    by code_simp
  moreover have "[Data (take 9 test_hello), Data (drop 9 test_hello), Stall, Data ''more''] = ?front @ [Stall, Data ''more'']"
    by simp
  ultimately show ?thesis
    using passthrough_sni_enforced [OF refl, of test_listen False test_target AllowProof "''c''" test_rt "[]"
        "[Data (take 9 test_hello), Data (drop 9 test_hello), Stall, Data ''more'']"] test_hello_scan
    by metis
qed

text \<open>
  Where the promise of one record ends: a client that is gone when the success reply is written leaves a
  dialled tunnel without any record.
\<close>

lemma passthrough_unrecorded:
  assumes "connect_upstream (le_net env) proof (ct_host target) (ct_port target) False rt = (Inr st, dials)"
    and "\<not> le_client_write env (success_reply is_socks)"
  shows "passthrough_tunnel env is_socks target proof remote rt traces input = map Tunnel_Dial dials"
  using assms by (simp add: passthrough_tunnel_def)

lemma bumped_unrecorded:
  assumes "le_client_write env (success_reply is_socks)" "peek_timeout input = Some b" "sniff_inner b = Inner_Unknown"
  shows "bump_tunnel env rt is_socks target remote traces input = [To_Client (success_reply is_socks)]"
  using assms by (simp add: bump_tunnel_def)

text \<open>A client that pauses within its ClientHello is spliced without a check of the name.\<close>

lemma stalled_hello_spliced:
  assumes "connect_upstream (le_net env) proof (ct_host target) (ct_port target) False rt = (Inr st, dials)"
    and "\<And>bs. le_client_write env bs" "\<And>bs. le_upstream_write env bs"
    and "bs \<noteq> []" "length bs < 5"
  shows "upstream_writes (passthrough_tunnel env is_socks target proof remote rt traces (Data bs # Stall # input)) =
    [(st, bs), (st, bytes_of input)]"
proof -
  have "take 4096 bs = bs" "drop 4096 bs = []" using assms(5) by simp_all
  then have "read_timeout 4096 (Data bs # Stall # input) = (bs, Data [] # Stall # input)"
    using assms(4) by (cases bs) simp_all
  moreover have "scan_client_hello_sni bs = Incomplete" using assms(5) by (simp add: scan_client_hello_sni_def)
  moreover have "\<not> SNIFF_CAP < length bs" using assms(5) by (simp add: SNIFF_CAP_def)
  ultimately have "sniff_loop (Data bs # Stall # input) [] = (bs, None, input)"
    using assms(4) by (simp add: sniff_loop.simps [of _ "[]"] sniff_loop.simps [of _ bs])
  then show ?thesis using assms by (simp add: passthrough_tunnel_def passthrough_splice_def)
qed

lemma socks5_reply_encoded:
  "addr_ok addr \<Longrightarrow> socks5_reply (encode_socks5 addr port) rest =
     (Inr (Some \<lparr>ct_host = socks_host addr, ct_port = port\<rparr>, rest), [])"
  using parse_encode_socks5 [of addr port "[]"] by (simp add: socks5_reply_def)

lemma socks5_request_encoded:
  assumes "Reset \<notin> set input" "addr_ok addr" "bytes_of input = encode_socks5 addr port @ later"
  shows "\<exists>rest. (socks5_request input :: 'k handshake) =
      (Inr (Some \<lparr>ct_host = socks_host addr, ct_port = port\<rparr>, rest), []) \<and> bytes_of rest = later"
proof -
  have reply: "(socks5_reply (encode_socks5 addr port) rest :: 'k handshake) =
      (Inr (Some \<lparr>ct_host = socks_host addr, ct_port = port\<rparr>, rest), [])" for rest
    using assms(2) by (rule socks5_reply_encoded)
  define ty where "ty = hd (encode_addr addr)"
  define body where "body = tl (encode_addr addr) @ be16 port"
  have port: "length (be16 port) = 2" by (rule be16_bytes [of port]) simp
  have enc: "encode_socks5 addr port = [CHR 0x05, CHR 0x01, CHR 0x00, ty] @ body"
    by (cases addr) (simp_all add: encode_socks5_def ty_def body_def)
  obtain input1 where r1: "read_exact 4 input = Inr ([CHR 0x05, CHR 0x01, CHR 0x00, ty], input1)"
      "bytes_of input1 = body @ later" "Reset \<notin> set input1"
    using read_exact_bytes [OF assms(1), of "[CHR 0x05, CHR 0x01, CHR 0x00, ty]" "body @ later"] assms(3) enc
    by (auto simp: numeral_eq_Suc)
  obtain input2 where r2: "read_exact (length body) input1 = Inr (body, input2)" "bytes_of input2 = later"
    using read_exact_bytes [OF r1(3,2)] by blast
  show ?thesis
  proof (cases addr)
    case (Addr_Name n)
    then have n: "length n < 256" using assms(2) by simp
    have body: "body = char_of (length n) # n @ be16 port" by (simp add: body_def Addr_Name)
    obtain mid where mid: "read_exact 1 input1 = Inr ([char_of (length n)], mid)"
        "bytes_of mid = (n @ be16 port) @ later" "Reset \<notin> set mid"
      using read_exact_bytes [OF r1(3), of "[char_of (length n)]" "(n @ be16 port) @ later"] r1(2) body by auto
    obtain last where "read_exact (length (n @ be16 port)) mid = Inr (n @ be16 port, last)" "bytes_of last = later"
      using read_exact_bytes [OF mid(3,2)] by blast
    moreover have "of_char (char_of (length n)) = length n" using n by simp
    ultimately show ?thesis
      using r1(1) mid(1) reply [of last] enc body Addr_Name port
      by (simp add: socks5_request_def ty_def Let_def)
  next
    case (Addr_V4 a)
    then have "length body = 6" "ty = CHR 0x01" using port by (simp_all add: body_def ty_def octets_def)
    then show ?thesis
      using r1(1) r2 reply [of input2] enc by (simp add: socks5_request_def Let_def)
  next
    case (Addr_V6 a)
    then have "length body = 18" "ty = CHR 0x04" using port by (simp_all add: body_def ty_def be_digits_def)
    then show ?thesis
      using r1(1) r2 reply [of input2] enc by (simp add: socks5_request_def Let_def)
  qed
qed

text \<open>
  C39. However the client's bytes are cut into packets and whatever pauses lie between them, a SOCKS5 client that
  offers the method without authentication and asks for a well-formed address gets the tunnel to
  this address, with everything it sent after the request left for the tunnel.
\<close>

theorem socks5_handshake_target:
  fixes env :: "('t, 'c, 'k) listen_env"
  assumes "Reset \<notin> set input" "\<And>bs. le_client_write env bs" "addr_ok addr"
    and "length methods < 256" "CHR 0x00 \<in> set methods"
    and "bytes_of input = CHR 0x05 # char_of (length methods) # methods @ encode_socks5 addr port @ later"
  shows "\<exists>rest. socks5_handshake env input =
      (Inr (Some \<lparr>ct_host = socks_host addr, ct_port = port\<rparr>, rest), [To_Client [CHR 0x05, CHR 0x00]]) \<and>
    bytes_of rest = later \<and> peek_byte input = Inr (Some CHR 0x05) \<and> dispatch CHR 0x05 = Client_Socks5"
proof -
  have n: "of_char (char_of (length methods)) = length methods" using assms(4) by simp
  obtain input1 where r1: "read_exact 2 input = Inr ([CHR 0x05, char_of (length methods)], input1)"
      "bytes_of input1 = methods @ encode_socks5 addr port @ later" "Reset \<notin> set input1"
    using read_exact_bytes [OF assms(1), of "[CHR 0x05, char_of (length methods)]" "methods @ encode_socks5 addr port @ later"]
      assms(6) by (auto simp: numeral_eq_Suc)
  obtain input2 where r2: "read_exact (length methods) input1 = Inr (methods, input2)"
      "bytes_of input2 = encode_socks5 addr port @ later" "Reset \<notin> set input2"
    using read_exact_bytes [OF r1(3,2)] by blast
  have "parse_socks5_methods (char_of (length methods) # methods) = Some NoAuth"
    using n assms(5) by (simp add: parse_socks5_methods_def get_def get_range_def)
  moreover obtain rest where "(socks5_request input2 :: 'k handshake) =
      (Inr (Some \<lparr>ct_host = socks_host addr, ct_port = port\<rparr>, rest), [])" "bytes_of rest = later"
    using socks5_request_encoded [OF r2(3) assms(3) r2(2)] by blast
  ultimately show ?thesis
    using r1(1) r2(1) n assms(2) peek_byte_bytes [OF assms(1,6)]
    by (auto simp: socks5_handshake_def dispatch_def)
qed

theorem socks5_handshake_target_witness:
  "\<exists>rest. socks5_handshake test_listen socks_client =
      (Inr (Some \<lparr>ct_host = ''a.b'', ct_port = 443\<rparr>, rest), [To_Client [CHR 0x05, CHR 0x00]]) \<and>
    bytes_of rest = ''GET / HTTP/1.1''"
proof -
  have "Reset \<notin> set socks_client" by (simp add: socks_client_def)
  moreover have "le_client_write test_listen bs" for bs by (simp add: test_listen_def)
  moreover have "addr_ok (Addr_Name ''a.b'')" by code_simp
  moreover have "bytes_of socks_client = CHR 0x05 # char_of (length [CHR 0x00]) # [CHR 0x00] @
      encode_socks5 (Addr_Name ''a.b'') 443 @ ''GET / HTTP/1.1''"
    by code_simp
  moreover have "socks_host (Addr_Name ''a.b'') = ''a.b''" by code_simp
  ultimately show ?thesis
    using socks5_handshake_target [of socks_client test_listen "Addr_Name ''a.b''" "[CHR 0x00]" 443 "''GET / HTTP/1.1''"]
    by auto
qed

section \<open>Handshakes end\<close>

text \<open>
  A handshake on input that has arrived so far: it settles when the bytes there decide it, so that nothing the client sends
  later changes its result. It then took at most the given number of bytes, or could not write to the client.
\<close>

definition settles :: "nat \<Rightarrow> (arrival list \<Rightarrow> 'k handshake) \<Rightarrow> arrival list \<Rightarrow> bool" where
  "settles n hs input \<longleftrightarrow>
    (\<exists>evs. (\<forall>later. hs (input @ later) = (Inl ConnectionError, evs)) \<or>
      (\<exists>target rest. length (bytes_of input) \<le> length (bytes_of rest) + n \<and>
        (\<forall>later. hs (input @ later) = (Inr (target, rest @ later), evs))))"

lemma settlesI:
  assumes "length (bytes_of input) \<le> length (bytes_of rest) + n"
    and "\<And>later. hs (input @ later) = (Inr (target, rest @ later), evs)"
  shows "settles n hs input"
  using assms unfolding settles_def by blast

lemma read_byte_settles:
  assumes "Reset \<notin> set input" "bytes_of input \<noteq> []"
  obtains b rest where "\<And>later. read_byte (input @ later) = Inr (Some b, rest @ later)"
    "bytes_of input = b # bytes_of rest" "Reset \<notin> set rest"
  using assms
proof (induction input arbitrary: thesis rule: read_byte.induct)
  case (3 b bs input)
  then show ?case by (intro "3.prems"(1) [of b "Data bs # input"]) auto
qed auto

lemma read_exact_settles:
  assumes "Reset \<notin> set input" "n \<le> length (bytes_of input)"
  obtains bs rest where "\<And>later. read_exact n (input @ later) = Inr (bs, rest @ later)"
    "length bs = n" "length (bytes_of input) = length (bytes_of rest) + n" "Reset \<notin> set rest"
  using assms
proof (induction n arbitrary: input thesis)
  case (Suc n)
  have "bytes_of input \<noteq> []" using Suc.prems(3) by auto
  from read_byte_settles [OF Suc.prems(2) this] obtain b mid where
    mid: "\<And>later. read_byte (input @ later) = Inr (Some b, mid @ later)" "bytes_of input = b # bytes_of mid" "Reset \<notin> set mid"
    by blast
  have "n \<le> length (bytes_of mid)" using Suc.prems(3) mid(2) by simp
  from Suc.IH [OF _ mid(3) this] obtain bs rest where
    "\<And>later. read_exact n (mid @ later) = Inr (bs, rest @ later)" "length bs = n"
    "length (bytes_of mid) = length (bytes_of rest) + n" "Reset \<notin> set rest"
    by blast
  then show ?case using mid by (intro Suc.prems(1) [of "b # bs" rest]) (simp_all add: read_exact.simps)
qed (simp add: read_exact.simps)

lemma read_head_settles:
  assumes "Reset \<notin> set input" "SNIFF_CAP < length buf + length (bytes_of input)"
  shows "\<exists>head rest. (\<forall>later. read_head (input @ later) buf = Inr (head, rest @ later)) \<and>
    length (bytes_of input) \<le> length (bytes_of rest) + (SNIFF_CAP + 1 - length buf)"
  using assms
proof (induction "SNIFF_CAP + 1 - length buf" arbitrary: input buf)
  case 0
  then show ?case by (intro exI [of _ None] exI [of _ input]) (simp add: read_head.simps)
next
  case (Suc n)
  then have room: "\<not> SNIFF_CAP < length buf" by simp
  then have "bytes_of input \<noteq> []" using Suc.prems(2) by auto
  from read_byte_settles [OF Suc.prems(1) this] obtain b mid where
    mid: "\<And>later. read_byte (input @ later) = Inr (Some b, mid @ later)" "bytes_of input = b # bytes_of mid" "Reset \<notin> set mid"
    by blast
  show ?case
  proof (cases "suffix CRLFCRLF (buf @ [b])")
    case True
    then show ?thesis
      using room mid(1,2)
      by (intro exI [of _ "Some (buf @ [b])"] exI [of _ mid]) (simp add: read_head.simps [of _ buf] Let_def del: suffix_snoc)
  next
    case False
    have "n = SNIFF_CAP + 1 - length (buf @ [b])" "SNIFF_CAP < length (buf @ [b]) + length (bytes_of mid)"
      using Suc.hyps(2) Suc.prems(2) mid(2) by simp_all
    from Suc.hyps(1) [OF this(1) mid(3) this(2)] obtain head rest where
      "\<forall>later. read_head (mid @ later) (buf @ [b]) = Inr (head, rest @ later)"
      "length (bytes_of mid) \<le> length (bytes_of rest) + (SNIFF_CAP + 1 - length (buf @ [b]))"
      by blast
    then show ?thesis
      using room mid(1,2) False
      by (intro exI [of _ head] exI [of _ rest]) (simp add: read_head.simps [of _ buf] Let_def del: suffix_snoc)
  qed
qed

lemma read_connect_settles:
  assumes "Reset \<notin> set input" "SNIFF_CAP < length (bytes_of input)"
  shows "settles (SNIFF_CAP + 1) (\<lambda>input. (read_connect input, [])) input"
proof -
  obtain head rest where "\<forall>later. read_head (input @ later) [] = Inr (head, rest @ later)"
    "length (bytes_of input) \<le> length (bytes_of rest) + (SNIFF_CAP + 1)"
    using read_head_settles [of input "[]"] assms by auto
  then show ?thesis by (intro settlesI) (auto simp: read_connect_def)
qed

lemma socks5_reply_settles:
  assumes "\<And>later. hs (input @ later) = socks5_reply req (rest @ later)" "length (bytes_of input) \<le> length (bytes_of rest) + n"
  shows "settles n hs input"
  using assms by (cases "parse_socks5_request req") (auto intro!: settlesI simp: socks5_reply_def)

lemma socks5_request_settles:
  assumes "Reset \<notin> set input" "262 \<le> length (bytes_of input)"
  shows "settles 262 (socks5_request :: arrival list \<Rightarrow> 'k handshake) input"
proof -
  from assms(1) obtain fixed input1 where r1: "\<And>later. read_exact 4 (input @ later) = Inr (fixed, input1 @ later)" "length fixed = 4"
    "length (bytes_of input) = length (bytes_of input1) + 4" "Reset \<notin> set input1"
    by (rule read_exact_settles [of input 4]) (use assms(2) in auto)
  then have len1: "258 \<le> length (bytes_of input1)" using assms(2) by simp
  consider "fixed ! 3 = CHR 0x03" | "fixed ! 3 = CHR 0x01" | "fixed ! 3 = CHR 0x04" | "fixed ! 3 \<notin> {CHR 0x01, CHR 0x03, CHR 0x04}"
    by blast
  then show ?thesis
  proof cases
    case 1
    from r1(4) obtain len input2 where r2: "\<And>later. read_exact 1 (input1 @ later) = Inr (len, input2 @ later)"
      "length (bytes_of input1) = length (bytes_of input2) + 1" "Reset \<notin> set input2"
      by (rule read_exact_settles [of input1 1]) (use len1 in auto)
    let ?n = "of_char (len ! 0) + 2 :: nat"
    have n: "?n \<le> 257" using code_less [of "len ! 0"] by simp
    have "?n \<le> length (bytes_of input2)" using len1 n r2(2) by linarith
    from r2(3) this obtain bs input3 where r3: "\<And>later. read_exact ?n (input2 @ later) = Inr (bs, input3 @ later)"
      "length (bytes_of input2) = length (bytes_of input3) + ?n"
      by (rule read_exact_settles) blast
    show ?thesis
      by (rule socks5_reply_settles [of _ _ "fixed @ len @ bs" input3])
        (use 1 r1 r2 r3 n in \<open>simp_all add: socks5_request_def\<close>)
  next
    case 2
    from r1(4) obtain bs input2 where r2: "\<And>later. read_exact 6 (input1 @ later) = Inr (bs, input2 @ later)"
      "length (bytes_of input1) = length (bytes_of input2) + 6"
      by (rule read_exact_settles [of input1 6]) (use len1 in auto)
    show ?thesis
      by (rule socks5_reply_settles [of _ _ "fixed @ bs" input2]) (use 2 r1 r2 in \<open>simp_all add: socks5_request_def\<close>)
  next
    case 3
    from r1(4) obtain bs input2 where r2: "\<And>later. read_exact 18 (input1 @ later) = Inr (bs, input2 @ later)"
      "length (bytes_of input1) = length (bytes_of input2) + 18"
      by (rule read_exact_settles [of input1 18]) (use len1 in auto)
    show ?thesis
      by (rule socks5_reply_settles [of _ _ "fixed @ bs" input2]) (use 3 r1 r2 in \<open>simp_all add: socks5_request_def\<close>)
  next
    case 4
    then show ?thesis using r1 by (intro settlesI [of _ input1]) (auto simp: socks5_request_def)
  qed
qed

lemma settles_later:
  assumes "settles n hs rest" "\<And>later. hs' (input @ later) = map_prod id ((@) evs) (hs (rest @ later))"
    and "length (bytes_of input) \<le> length (bytes_of rest) + m" "m + n \<le> k"
  shows "settles k hs' input"
proof -
  from assms(1) consider evs' where "\<forall>later. hs (rest @ later) = (Inl ConnectionError, evs')"
    | evs' target rest' where "length (bytes_of rest) \<le> length (bytes_of rest') + n"
      "\<forall>later. hs (rest @ later) = (Inr (target, rest' @ later), evs')"
    unfolding settles_def by blast
  then show ?thesis
  proof cases
    case 1
    then show ?thesis unfolding settles_def by (intro exI [of _ "evs @ evs'"] disjI1) (simp add: assms(2))
  next
    case 2
    then show ?thesis using assms(3,4) by (intro settlesI [of _ rest']) (simp_all add: assms(2))
  qed
qed

lemma socks5_handshake_settles:
  assumes "Reset \<notin> set input" "SNIFF_CAP < length (bytes_of input)"
  shows "settles (SNIFF_CAP + 1) (socks5_handshake env :: arrival list \<Rightarrow> 'k handshake) input"
proof -
  have cap: "SNIFF_CAP = 16384" by (simp add: SNIFF_CAP_def)
  from assms(1) obtain head input1 where r1: "\<And>later. read_exact 2 (input @ later) = Inr (head, input1 @ later)"
    "length (bytes_of input) = length (bytes_of input1) + 2" "Reset \<notin> set input1"
    by (rule read_exact_settles [of input 2]) (use assms(2) cap in auto)
  let ?n = "of_char (head ! 1) :: nat"
  have n: "?n \<le> 255" using code_less [of "head ! 1"] by simp
  have "?n \<le> length (bytes_of input1)" using assms(2) cap r1(2) n by linarith
  from r1(3) this obtain methods input2 where r2: "\<And>later. read_exact ?n (input1 @ later) = Inr (methods, input2 @ later)"
    "length (bytes_of input1) = length (bytes_of input2) + ?n" "Reset \<notin> set input2"
    by (rule read_exact_settles) blast
  have few: "262 \<le> length (bytes_of input2)" using assms(2) cap n r1(2) r2(2) by linarith
  consider "head ! 0 \<noteq> CHR 0x05" | "head ! 0 = CHR 0x05" "parse_socks5_methods (head ! 1 # methods) \<noteq> Some NoAuth"
    | "head ! 0 = CHR 0x05" "parse_socks5_methods (head ! 1 # methods) = Some NoAuth" "\<not> le_client_write env [CHR 0x05, CHR 0x00]"
    | "head ! 0 = CHR 0x05" "parse_socks5_methods (head ! 1 # methods) = Some NoAuth" "le_client_write env [CHR 0x05, CHR 0x00]"
    by blast
  then show ?thesis
  proof cases
    case 1
    then show ?thesis using r1 cap by (intro settlesI [of _ input1]) (auto simp: socks5_handshake_def)
  next
    case 2
    have "length (bytes_of input) \<le> length (bytes_of input2) + (SNIFF_CAP + 1)" using r1(2) r2(2) n cap by linarith
    then show ?thesis using 2 r1 r2
      by (intro settlesI [of _ input2 _ _ None "[To_Client [CHR 0x05, CHR 0xFF]]"])
        (auto simp: socks5_handshake_def split: option.split socks5_method.split)
  next
    case 3
    then show ?thesis using r1 r2 by (auto simp: settles_def socks5_handshake_def)
  next
    case 4
    show ?thesis
    proof (rule settles_later [OF socks5_request_settles [OF r2(3) few], where m = 257])
      show "socks5_handshake env (input @ later) =
          map_prod id ((@) [To_Client [CHR 0x05, CHR 0x00]]) (socks5_request (input2 @ later))" for later
        using 4 r1(1) r2(1) by (simp add: socks5_handshake_def map_prod_def case_prod_beta)
    qed (use r1(2) r2(2) n cap in linarith)+
  qed
qed

lemma read_timeout_settles:
  assumes "bytes_of input \<noteq> []" "0 < cap"
  obtains bs rest where "\<And>later. read_timeout cap (input @ later) = (bs, rest @ later)"
    "bytes_of input = bs @ bytes_of rest" "length bs \<le> cap"
  using assms
proof (induction cap input arbitrary: thesis rule: read_timeout.induct)
  case (2 cap b bs input)
  then show ?case by (intro "2.prems"(1) [of "take cap (b # bs)" "Data (drop cap (b # bs)) # input"]) (auto simp: take_drop_append)
next
  case (3 cap input)
  then show ?case by (intro "3.prems"(1) [of "[]" input]) auto
qed auto

lemma sniff_loop_settles:
  assumes "SNIFF_CAP < length buffered + length (bytes_of input)" "length buffered \<le> SNIFF_CAP + 4096"
  shows "\<exists>b sni rest. (\<forall>later. sniff_loop (input @ later) buffered = (b, sni, rest @ later)) \<and>
    length b \<le> SNIFF_CAP + 4096"
  using assms
proof (induction "SNIFF_CAP + 1 - length buffered" arbitrary: input buffered rule: less_induct)
  case less
  show ?case
  proof (cases "SNIFF_CAP < length buffered")
    case True
    then show ?thesis using less.prems by (auto simp: sniff_loop.simps)
  next
    case room: False
    then have "bytes_of input \<noteq> []" using less.prems by auto
    from read_timeout_settles [OF this, of 4096] obtain bs mid where
      mid: "\<And>later. read_timeout 4096 (input @ later) = (bs, mid @ later)" "bytes_of input = bs @ bytes_of mid" "length bs \<le> 4096"
      by auto
    have all: "sniff_loop (input @ later) buffered =
        (if bs = [] then (buffered, None, mid @ later)
         else case scan_client_hello_sni (buffered @ bs) of
             Incomplete \<Rightarrow> sniff_loop (mid @ later) (buffered @ bs)
           | Sni name \<Rightarrow> (buffered @ bs, Some name, mid @ later)
           | _ \<Rightarrow> (buffered @ bs, None, mid @ later))" for later
      using room mid(1) by (simp add: sniff_loop.simps [of _ buffered] Let_def)
    show ?thesis
    proof (cases "bs \<noteq> [] \<and> scan_client_hello_sni (buffered @ bs) = Incomplete")
      case True
      then show ?thesis using less.hyps [of "buffered @ bs" mid] less.prems room mid(2,3) by (auto simp: all neq_Nil_conv)
    next
      case False
      then show ?thesis
        using mid(3) room less.prems(2) by (cases "bs = []"; cases "scan_client_hello_sni (buffered @ bs)") (auto simp: all)
    qed
  qed
qed

lemma tunnel_handshake_settles:
  assumes "Reset \<notin> set input" "SNIFF_CAP < length (bytes_of input)"
  shows "settles (SNIFF_CAP + 1) (tunnel_handshake env first) input"
proof (cases "dispatch first")
  case Client_Unknown
  then show ?thesis by (intro settlesI [of _ input]) (simp_all add: tunnel_handshake_def)
qed (use read_connect_settles [OF assms] socks5_handshake_settles [OF assms, of env] in
    \<open>simp_all add: tunnel_handshake_def [abs_def]\<close>)

text \<open>
  C12. The opening of a tunnel ends: once a client has sent more than 16 KiB, in whatever pieces and with whatever pauses,
  its handshake has a result, which nothing the client sends later changes and which took at most one byte more than
  16 KiB; and the search for the name of a passthrough has ended with at most 16 KiB and one read
  buffered. So a client that keeps sending holds no more of the proxy than this.
\<close>

theorem handshakes_end:
  assumes "Reset \<notin> set input" "SNIFF_CAP < length (bytes_of input)"
  shows "settles (SNIFF_CAP + 1) (tunnel_handshake env first) input \<and>
    (\<exists>buffered sni rest. (\<forall>later. sniff_loop (input @ later) [] = (buffered, sni, rest @ later)) \<and>
      length buffered \<le> SNIFF_CAP + 4096)"
  using tunnel_handshake_settles [OF assms] sniff_loop_settles [of "[]" input] assms(2) by simp_all

text \<open>A client that never finishes the head of its request.\<close>

theorem handshakes_end_witness:
  "settles (SNIFF_CAP + 1) (tunnel_handshake test_listen CHR ''C'') [Data (replicate 20000 CHR ''C'')] \<and>
   (\<exists>buffered sni rest. (\<forall>later. sniff_loop (Data (replicate 20000 CHR ''C'') # later) [] = (buffered, sni, rest @ later)) \<and>
      length buffered \<le> SNIFF_CAP + 4096)"
  using handshakes_end [of "[Data (replicate 20000 CHR ''C'')]" test_listen "CHR ''C''"] by (simp add: SNIFF_CAP_def)

end
