(* ===== verification/Startup.thy ===== *)
theory Startup
  imports Telemetry Management Listen
begin

text \<open>
  The process, \<open>crates/hematite/src/main.rs\<close>: its argument, the order in which the configuration is
  loaded, compiled and the listeners are bound and spawned, and the exit codes. A run is the list of
  its events; the file system, the sockets and the crates are parameters.
\<close>

declare map_eq_Cons_D [rule del] Cons_eq_map_D [rule del]

section \<open>Definitions\<close>

datatype transport = Tcp | Udp

datatype exit_code = Exit_Success | Exit_Failure | Exit_Usage

text \<open>A spawned service with what it is handed; the last of \<open>Serve_Management\<close> is the path of the configuration.\<close>

datatype ('t, 'a) service =
    Serve_Http "'t proxy_runtime shared_state"
  | Serve_Https "'t proxy_runtime shared_state"
  | Serve_Tunnel "'t proxy_runtime shared_state"
  | Serve_Dns transport dns_config 'a
  | Serve_Management "'t proxy_runtime shared_state" management string

datatype ('t, 'a) start_event =
    Stderr message
  | Log_Info message
  | Log_Warn message
  | Log_Error message
  | Bound transport string
  | Closed transport string
  | Spawned string "('t, 'a) service"

text \<open>The outcome of a bind may depend on the sockets the process holds.\<close>

record ('t, 'p, 'q, 'f, 'x, 'b, 'a) machine =
  mc_read :: "string \<Rightarrow> string + string"
  mc_env :: "string \<Rightarrow> string option"
  mc_serde :: serde
  mc_decoders :: decoders
  mc_regex :: regex_builder
  mc_host_env :: "('t, 'p, 'q) host_env"
  mc_tokio :: "string + unit"
  mc_otel :: "('f, 'x, 'b) otel"
  mc_bind :: "(transport \<times> string) list \<Rightarrow> transport \<Rightarrow> string \<Rightarrow> string + unit"
  mc_parse_addr :: "string \<Rightarrow> 'a option"
  mc_flush :: "'b provider \<Rightarrow> nat \<Rightarrow> flush_result"

fun hold :: "('t, 'a) start_event \<Rightarrow> (transport \<times> string) list \<Rightarrow> (transport \<times> string) list" where
  "hold (Bound p a) held = held @ [(p, a)]"
| "hold (Closed p a) held = remove1 (p, a) held"
| "hold _ held = held"

definition bind_socket ::
  "('t, 'p, 'q, 'f, 'x, 'b, 'a) machine \<Rightarrow> ('t, 'a) start_event list \<Rightarrow> transport \<Rightarrow> string \<Rightarrow>
   string + ('t, 'a) start_event list" where
  "bind_socket mc evs p addr = and_then (mc_bind mc (fold hold evs []) p addr) (\<lambda>_. Inr (evs @ [Bound p addr]))"

definition parse_args :: "string list \<Rightarrow> string option" where
  "parse_args args =
    (case args of
       flag # path # _ \<Rightarrow> if flag = ''-config'' \<or> flag = ''--config'' then Some path else None
     | _ \<Rightarrow> None)"

fun dns_outcome_of :: "dns_decision_kind \<Rightarrow> dns_outcome" where
  "dns_outcome_of Kind_Static = DnsOutcome_Static"
| "dns_outcome_of Kind_Intercept = DnsOutcome_Intercept"
| "dns_outcome_of Kind_Passthrough = DnsOutcome_Passthrough"
| "dns_outcome_of Kind_Error = DnsOutcome_Error"

definition on_decision :: "dns_decision_kind \<Rightarrow> metrics \<Rightarrow> metrics" where
  "on_decision k m = inc_dns (dns_outcome_of k) m"

text \<open>A failure after the first bind drops the socket.\<close>

definition spawn_dns ::
  "('t, 'p, 'q, 'f, 'x, 'b, 'a) machine \<Rightarrow> dns_resolved \<Rightarrow> ('t, 'a) start_event list \<Rightarrow>
   (message \<times> ('t, 'a) start_event list) + ('t, 'a) start_event list" where
  "spawn_dns mc dns evs =
    (let addr = listen_addr (dr_listen dns)
     in case dns_config_of (mc_parse_addr mc) dns of
          Inl e \<Rightarrow> Inl (e, evs)
        | Inr (config, upstream) \<Rightarrow>
            (case bind_socket mc evs Udp addr of
               Inl e \<Rightarrow> Inl ([Lit ''bind dns udp '', Disp (dr_listen dns), Lit '': '', Disp e], evs)
             | Inr evs1 \<Rightarrow>
                 (case bind_socket mc evs1 Tcp addr of
                    Inl e \<Rightarrow> Inl ([Lit ''bind dns tcp '', Disp (dr_listen dns), Lit '': '', Disp e], evs1 @ [Closed Udp addr])
                  | Inr evs2 \<Rightarrow>
                      Inr (evs2 @ [Log_Info [Lit ''dns server listening''],
                                   Spawned addr (Serve_Dns Udp config upstream),
                                   Spawned addr (Serve_Dns Tcp config upstream)]))))"

definition start_http ::
  "('t, 'p, 'q, 'f, 'x, 'b, 'a) machine \<Rightarrow> config \<Rightarrow> 't proxy_runtime shared_state \<Rightarrow> ('t, 'a) start_event list \<Rightarrow>
   ('t, 'a) start_event list + ('t, 'a) start_event list" where
  "start_http mc cfg state evs =
    (let addr = listen_addr (lk_http (cf_listen cfg))
     in case bind_socket mc evs Tcp addr of
          Inl e \<Rightarrow> Inl (evs @ [Log_Error [Lit ''bind http failed'', Disp e]])
        | Inr evs1 \<Rightarrow> Inr (evs1 @ [Log_Info [Lit ''http listener bound''], Spawned addr (Serve_Http state)]))"

definition start_https ::
  "('t, 'p, 'q, 'f, 'x, 'b, 'a) machine \<Rightarrow> config \<Rightarrow> 't proxy_runtime shared_state \<Rightarrow> ('t, 'a) start_event list \<Rightarrow>
   ('t, 'a) start_event list" where
  "start_https mc cfg state evs =
    (case lk_https (cf_listen cfg) of
       None \<Rightarrow> evs
     | Some listen \<Rightarrow>
         if Option.bind (deref state (current state)) rt_cert_cache = None then evs
         else (case bind_socket mc evs Tcp (listen_addr listen) of
                 Inl e \<Rightarrow> evs @ [Log_Error [Lit ''bind https failed'', Disp e]]
               | Inr evs1 \<Rightarrow>
                   evs1 @ [Log_Info [Lit ''https (MITM) listener bound''], Spawned (listen_addr listen) (Serve_Https state)]))"

definition start_tunnel ::
  "('t, 'p, 'q, 'f, 'x, 'b, 'a) machine \<Rightarrow> config \<Rightarrow> 't proxy_runtime shared_state \<Rightarrow> ('t, 'a) start_event list \<Rightarrow>
   ('t, 'a) start_event list" where
  "start_tunnel mc cfg state evs =
    (case lk_tunnel (cf_listen cfg) of
       None \<Rightarrow> evs
     | Some listen \<Rightarrow>
         (case bind_socket mc evs Tcp (listen_addr listen) of
            Inl e \<Rightarrow> evs @ [Log_Error [Lit ''bind tunnel failed'', Disp e]]
          | Inr evs1 \<Rightarrow>
              evs1 @ [Log_Info [Lit ''tunnel listener bound''], Spawned (listen_addr listen) (Serve_Tunnel state)]))"

definition start_dns ::
  "('t, 'p, 'q, 'f, 'x, 'b, 'a) machine \<Rightarrow> config \<Rightarrow> ('t, 'a) start_event list \<Rightarrow> ('t, 'a) start_event list" where
  "start_dns mc cfg evs =
    (case cf_dns cfg of
       None \<Rightarrow> evs
     | Some dns \<Rightarrow>
         (case spawn_dns mc dns evs of
            Inl (e, evs1) \<Rightarrow> evs1 @ [Log_Error (Lit ''dns server failed to start'' # e)]
          | Inr evs1 \<Rightarrow> evs1))"

definition start_management ::
  "('t, 'p, 'q, 'f, 'x, 'b, 'a) machine \<Rightarrow> string \<Rightarrow> config \<Rightarrow> 't proxy_runtime shared_state \<Rightarrow>
   ('t, 'a) start_event list \<Rightarrow> ('t, 'a) start_event list + ('t, 'a) start_event list" where
  "start_management mc config_path cfg state evs =
    (case (lk_management (cf_listen cfg), cf_management_api_key cfg) of
       (Some listen, Some api_key) \<Rightarrow>
         (case bind_socket mc evs Tcp (listen_addr listen) of
            Inl e \<Rightarrow> Inl (evs @ [Log_Error [Lit ''bind management failed'', Disp e]])
          | Inr evs1 \<Rightarrow>
              Inr (evs1 @ [Log_Info [Lit ''management API bound''],
                Spawned (listen_addr listen)
                  (Serve_Management state
                     \<lparr>mn_api_key = api_key, mn_current_listen = cf_listen cfg,
                      mn_metrics_enabled = ob_metrics_enabled (cf_observability cfg)\<rparr> config_path)]))
     | _ \<Rightarrow> Inr evs)"

text \<open>What runs on the runtime; a failed bind of the HTTP or the management listener ends it.\<close>

definition start_listeners ::
  "('t, 'p, 'q, 'f, 'x, 'b, 'a) machine \<Rightarrow> string \<Rightarrow> config \<Rightarrow> 't proxy_runtime shared_state \<Rightarrow>
   ('t, 'a) start_event list \<Rightarrow> ('t, 'a) start_event list + ('t, 'a) start_event list" where
  "start_listeners mc config_path cfg state evs =
    and_then (start_http mc cfg state evs) (\<lambda>evs1.
    start_management mc config_path cfg state
      (start_dns mc cfg (start_tunnel mc cfg state (start_https mc cfg state evs1))))"

text \<open>The process up to its exit after the interrupt; \<^const>\<open>None\<close> is a panic.\<close>

definition main ::
  "('t, 'p, 'q, 'f, 'x, 'b, 'a) machine \<Rightarrow> string list \<Rightarrow> (('t, 'a) start_event list \<times> exit_code) option" where
  "main mc args =
    (case parse_args args of
       None \<Rightarrow> Some ([Stderr [Lit ''usage: hematite -config <path.yaml>'']], Exit_Usage)
     | Some config_path \<Rightarrow>
    (case mc_read mc config_path of
       Inl e \<Rightarrow> Some ([Stderr [Lit ''hematite: cannot read '', Disp config_path, Lit '': '', Disp e]], Exit_Failure)
     | Inr yaml \<Rightarrow>
    (case load_str (mc_serde mc) (mc_decoders mc) (mc_regex mc) (mc_env mc) yaml of
       Inl (LoadError e) \<Rightarrow> Some ([Stderr (Lit ''hematite: '' # e)], Exit_Failure)
     | Inr cfg \<Rightarrow>
    (let evs = map (\<lambda>w. Stderr [Lit ''hematite: warning: '', Disp w]) (cf_warnings cfg)
     in case build_runtime (mc_decoders mc) (mc_regex mc) (mc_host_env mc) cfg of
       None \<Rightarrow> None
     | Some (Inl (LoadError e)) \<Rightarrow> Some (evs @ [Stderr (Lit ''hematite: '' # e)], Exit_Failure)
     | Some (Inr runtime) \<Rightarrow>
    (case mc_tokio mc of
       Inl e \<Rightarrow> Some (evs @ [Stderr [Lit ''hematite: runtime: '', Disp e]], Exit_Failure)
     | Inr _ \<Rightarrow>
    (case init_telemetry (mc_otel mc) True (ob_log_format (cf_observability cfg)) (cf_log_level cfg)
            (ob_otlp (cf_observability cfg)) None of
       None \<Rightarrow> None
     | Some (Inl e, _) \<Rightarrow> Some (evs @ [Stderr (Lit ''hematite: telemetry init failed: '' # e)], Exit_Failure)
     | Some (Inr guard, _) \<Rightarrow>
    (case start_listeners mc config_path cfg (SharedState_new runtime) evs of
       Inl evs1 \<Rightarrow> Some (evs1, Exit_Failure)
     | Inr evs1 \<Rightarrow>
         Some (evs1 @ Log_Info [Lit ''shutting down''] # map Log_Warn (shutdown (mc_flush mc) guard), Exit_Success))))))))"

section \<open>Lemmas\<close>

fun spawned :: "('t, 'a) start_event \<Rightarrow> (string \<times> ('t, 'a) service) list" where
  "spawned (Spawned addr sv) = [(addr, sv)]"
| "spawned _ = []"

definition services :: "('t, 'a) start_event list \<Rightarrow> (string \<times> ('t, 'a) service) list" where
  "services evs = concat (map spawned evs)"

lemma services_simps [simp]:
  "services [] = []" "services (e # es) = spawned e @ services es" "services (es @ es') = services es @ services es'"
  by (simp_all add: services_def)

lemma services_none: "services es = [] \<longleftrightarrow> (\<forall>e \<in> set es. spawned e = [])"
  by (simp add: services_def)

fun socket_event :: "('t, 'a) start_event \<Rightarrow> bool" where
  "socket_event (Bound _ _) \<longleftrightarrow> True"
| "socket_event (Spawned _ _) \<longleftrightarrow> True"
| "socket_event _ \<longleftrightarrow> False"

fun service_transport :: "('t, 'a) service \<Rightarrow> transport" where
  "service_transport (Serve_Dns p _ _) = p"
| "service_transport _ = Tcp"

text \<open>The services a configuration asks for, with the state and the addresses they get.\<close>

definition https_services :: "config \<Rightarrow> 't proxy_runtime \<Rightarrow> (string \<times> ('t, 'a) service) list" where
  "https_services cfg rt =
    (case lk_https (cf_listen cfg) of
       Some l \<Rightarrow> if rt_cert_cache rt = None then [] else [(listen_addr l, Serve_Https (SharedState_new rt))]
     | None \<Rightarrow> [])"

definition tunnel_services :: "config \<Rightarrow> 't proxy_runtime \<Rightarrow> (string \<times> ('t, 'a) service) list" where
  "tunnel_services cfg rt =
    (case lk_tunnel (cf_listen cfg) of Some l \<Rightarrow> [(listen_addr l, Serve_Tunnel (SharedState_new rt))] | None \<Rightarrow> [])"

definition dns_services :: "(string \<Rightarrow> 'a option) \<Rightarrow> config \<Rightarrow> (string \<times> ('t, 'a) service) list" where
  "dns_services parse_addr cfg =
    (case cf_dns cfg of
       Some d \<Rightarrow> (case dns_config_of parse_addr d of
           Inr (c, up) \<Rightarrow> map (\<lambda>p. (listen_addr (dr_listen d), Serve_Dns p c up)) [Udp, Tcp]
         | Inl _ \<Rightarrow> [])
     | None \<Rightarrow> [])"

definition management_services :: "string \<Rightarrow> config \<Rightarrow> 't proxy_runtime \<Rightarrow> (string \<times> ('t, 'a) service) list" where
  "management_services path cfg rt =
    (case (lk_management (cf_listen cfg), cf_management_api_key cfg) of
       (Some l, Some key) \<Rightarrow>
         [(listen_addr l, Serve_Management (SharedState_new rt)
             \<lparr>mn_api_key = key, mn_current_listen = cf_listen cfg,
              mn_metrics_enabled = ob_metrics_enabled (cf_observability cfg)\<rparr> path)]
     | _ \<Rightarrow> [])"

definition asked_services ::
  "(string \<Rightarrow> 'a option) \<Rightarrow> string \<Rightarrow> config \<Rightarrow> 't proxy_runtime \<Rightarrow> (string \<times> ('t, 'a) service) list" where
  "asked_services parse_addr path cfg rt =
    (listen_addr (lk_http (cf_listen cfg)), Serve_Http (SharedState_new rt)) #
    https_services cfg rt @ tunnel_services cfg rt @ dns_services parse_addr cfg @ management_services path cfg rt"

text \<open>Every service runs on a socket bound before.\<close>

definition on_bound :: "('t, 'a) start_event list \<Rightarrow> bool" where
  "on_bound evs \<longleftrightarrow> (\<forall>xs addr sv ys. evs = xs @ Spawned addr sv # ys \<longrightarrow> Bound (service_transport sv) addr \<in> set xs)"

lemma on_bound_append: "on_bound evs \<Longrightarrow> on_bound es \<Longrightarrow> on_bound (evs @ es)"
  by (fastforce simp: on_bound_def append_eq_append_conv2 append_eq_Cons_conv Cons_eq_append_conv)

lemma on_bound_quiet: "services es = [] \<Longrightarrow> on_bound es"
  by (fastforce simp: on_bound_def services_none)

lemma on_bound_one: "service_transport sv = p \<Longrightarrow> on_bound [Bound p a, Log_Info m, Spawned a sv]"
  by (auto simp: on_bound_def Cons_eq_append_conv)

lemma on_bound_dns: "on_bound [Bound Udp a, Bound Tcp a, Log_Info m, Spawned a (Serve_Dns Udp c u), Spawned a (Serve_Dns Tcp c u)]"
  by (auto simp: on_bound_def Cons_eq_append_conv)

lemma bind_socket_Inr: "bind_socket mc evs p addr = Inr evs' \<Longrightarrow> evs' = evs @ [Bound p addr]"
  by (auto simp: bind_socket_def and_then_Inr)

text \<open>
  What a start-up step does to the log: it starts all services of its list, on sockets it bound itself, or it
  starts none and logs an error.
\<close>

definition extends ::
  "(string \<times> ('t, 'a) service) list \<Rightarrow> ('t, 'a) start_event list \<Rightarrow> ('t, 'a) start_event list \<Rightarrow> bool" where
  "extends svs evs evs' \<longleftrightarrow>
    (\<exists>es. evs' = evs @ es \<and> on_bound es \<and> subseq (services es) svs \<and>
      (services es = svs \<or> (\<exists>m. Log_Error m \<in> set es)))"

lemma extends_quiet [simp]: "extends [] evs evs"
  by (auto simp: extends_def on_bound_quiet)

lemma extends_one:
  "service_transport sv = p \<Longrightarrow> extends [(a, sv)] evs ((evs @ [Bound p a]) @ [Log_Info m, Spawned a sv])"
  by (auto simp: extends_def on_bound_one)

lemma extends_error: "services es = [] \<Longrightarrow> extends svs evs (evs @ es @ [Log_Error m])"
  unfolding extends_def
  by (rule exI [of _ "es @ [Log_Error m]"]) (use on_bound_quiet [of "es @ [Log_Error m]"] in \<open>auto\<close>)

lemma extends_trans:
  assumes "extends svs evs evs1" "extends svs' evs1 evs2"
  shows "extends (svs @ svs') evs evs2"
proof -
  obtain es es' where "evs1 = evs @ es" "evs2 = evs1 @ es'" "on_bound es" "on_bound es'"
    "subseq (services es) svs" "subseq (services es') svs'"
    "services es = svs \<or> (\<exists>m. Log_Error m \<in> set es)" "services es' = svs' \<or> (\<exists>m. Log_Error m \<in> set es')"
    using assms unfolding extends_def by blast
  then show ?thesis
    unfolding extends_def by (intro exI [of _ "es @ es'"]) (auto intro: on_bound_append list_emb_append_mono)
qed

text \<open>
  The contract of a start-up step: whatever the log so far, it starts its services as above. Steps compose,
  and a log whose services run on bound sockets stays so.
\<close>

locale listener_start =
  fixes start :: "('t, 'a) start_event list \<Rightarrow> ('t, 'a) start_event list"
    and svs :: "(string \<times> ('t, 'a) service) list"
  assumes start_extends: "extends svs evs (start evs)"
begin

lemma keeps_log: "prefix evs (start evs)"
  using start_extends [of evs] by (auto simp: extends_def)

lemma keeps_services: "set (services evs) \<subseteq> set (services (start evs))"
  using keeps_log [of evs] by (auto simp: prefix_def)

end

locale listener_starts = fst: listener_start start svs + snd: listener_start start' svs'
  for start :: "('t, 'a) start_event list \<Rightarrow> ('t, 'a) start_event list" and svs
    and start' :: "('t, 'a) start_event list \<Rightarrow> ('t, 'a) start_event list" and svs'

sublocale listener_starts \<subseteq> both: listener_start "\<lambda>evs. start' (start evs)" "svs @ svs'"
  by unfold_locales (rule extends_trans [OF fst.start_extends snd.start_extends])

lemma start_https_extends:
  "extends (https_services cfg rt) evs (start_https mc cfg (SharedState_new rt) evs)"
  using extends_error [of "[]" _ evs]
  by (auto simp: start_https_def https_services_def deref_def current_def SharedState_new_def
      dest!: bind_socket_Inr intro!: extends_one split: option.split sum.split)

lemma start_tunnel_extends:
  "extends (tunnel_services cfg rt) evs (start_tunnel mc cfg (SharedState_new rt) evs)"
  using extends_error [of "[]" _ evs]
  by (auto simp: start_tunnel_def tunnel_services_def dest!: bind_socket_Inr intro!: extends_one
      split: option.split sum.split)

lemma spawn_dns_extends: "extends (dns_services (mc_parse_addr mc) cfg) evs (start_dns mc cfg evs)"
proof (cases "cf_dns cfg")
  case (Some d)
  let ?a = "listen_addr (dr_listen d)"
  show ?thesis
  proof (cases "dns_config_of (mc_parse_addr mc) d")
    case (Inr cu)
    obtain c u where cu: "cu = (c, u)" by (cases cu)
    have "extends (dns_services (mc_parse_addr mc) cfg) evs
        (evs @ [Bound Udp ?a, Bound Tcp ?a, Log_Info m, Spawned ?a (Serve_Dns Udp c u), Spawned ?a (Serve_Dns Tcp c u)])" for m
      using on_bound_dns [of ?a m c u] by (auto simp: extends_def dns_services_def Some Inr cu)
    then show ?thesis
      using extends_error [of "[]" _ evs] extends_error [of "[Bound Udp ?a, Closed Udp ?a]" _ evs]
      by (auto simp: start_dns_def spawn_dns_def Some Inr cu Let_def dest!: bind_socket_Inr split: sum.split)
  qed (use extends_error [of "[]" _ evs] in \<open>simp add: start_dns_def spawn_dns_def Some Let_def\<close>)
qed (simp add: start_dns_def dns_services_def)

interpretation https: listener_start "start_https mc cfg (SharedState_new rt)" "https_services cfg rt" for mc cfg rt
  by unfold_locales (rule start_https_extends)

interpretation tunnel: listener_start "start_tunnel mc cfg (SharedState_new rt)" "tunnel_services cfg rt" for mc cfg rt
  by unfold_locales (rule start_tunnel_extends)

interpretation dns: listener_start "start_dns mc cfg" "dns_services (mc_parse_addr mc) cfg" for mc cfg
  by unfold_locales (rule spawn_dns_extends)

interpretation tls: listener_starts "start_https mc cfg (SharedState_new rt)" "https_services cfg rt"
    "start_tunnel mc cfg (SharedState_new rt)" "tunnel_services cfg rt" for mc cfg rt
  by unfold_locales

interpretation optional: listener_starts "\<lambda>evs. start_tunnel mc cfg (SharedState_new rt) (start_https mc cfg (SharedState_new rt) evs)"
    "https_services cfg rt @ tunnel_services cfg rt" "start_dns mc cfg" "dns_services (mc_parse_addr mc) cfg" for mc cfg rt
  by unfold_locales

lemma start_http_Inr:
  "start_http mc cfg (SharedState_new rt) evs = Inr evs' \<Longrightarrow>
    \<exists>m. evs' = evs @ [Bound Tcp (listen_addr (lk_http (cf_listen cfg))), Log_Info m,
      Spawned (listen_addr (lk_http (cf_listen cfg))) (Serve_Http (SharedState_new rt))]"
  by (auto simp: start_http_def Let_def dest!: bind_socket_Inr split: sum.splits)

lemma start_http_Inl: "start_http mc cfg state evs = Inl evs' \<Longrightarrow> \<exists>m. evs' = evs @ [Log_Error m]"
  by (auto simp: start_http_def Let_def split: sum.splits)

lemma start_management_Inr:
  "start_management mc path cfg (SharedState_new rt) evs = Inr evs' \<Longrightarrow>
    extends (management_services path cfg rt) evs evs' \<and> set (management_services path cfg rt) \<subseteq> set (services evs')"
  by (auto simp: start_management_def management_services_def dest!: bind_socket_Inr intro!: extends_one
      split: option.splits sum.splits)

lemma start_management_Inl:
  "start_management mc path cfg state evs = Inl evs' \<Longrightarrow> \<exists>m. evs' = evs @ [Log_Error m]"
  by (auto simp: start_management_def split: option.splits sum.splits)

lemma start_listeners_extends:
  assumes "start_listeners mc path cfg (SharedState_new rt) evs = r" and "evs' = (case r of Inl es \<Rightarrow> es | Inr es \<Rightarrow> es)"
  shows "extends (asked_services (mc_parse_addr mc) path cfg rt) evs evs' \<and>
    (isl r \<longrightarrow> (\<exists>m. Log_Error m \<in> set evs')) \<and>
    (\<not> isl r \<longrightarrow> (listen_addr (lk_http (cf_listen cfg)), Serve_Http (SharedState_new rt)) \<in> set (services evs') \<and>
       set (management_services path cfg rt) \<subseteq> set (services evs'))"
proof (cases "start_http mc cfg (SharedState_new rt) evs")
  case (Inl es)
  with start_http_Inl [OF this] assms extends_error [of "[]" _ evs] show ?thesis by (auto simp: start_listeners_def)
next
  case (Inr evs1)
  let ?http = "(listen_addr (lk_http (cf_listen cfg)), Serve_Http (SharedState_new rt))"
  let ?evs4 = "start_dns mc cfg (start_tunnel mc cfg (SharedState_new rt) (start_https mc cfg (SharedState_new rt) evs1))"
  have http: "extends [?http] evs evs1"
    using start_http_Inr [OF Inr] extends_one [of "snd ?http" Tcp "fst ?http" evs] by auto
  have mid: "extends ((https_services cfg rt @ tunnel_services cfg rt) @ dns_services (mc_parse_addr mc) cfg) evs1 ?evs4"
    by (rule optional.both.start_extends)
  have in1: "?http \<in> set (services evs1)" using start_http_Inr [OF Inr] by auto
  have r: "r = start_management mc path cfg (SharedState_new rt) ?evs4" using assms(1) Inr by (simp add: start_listeners_def)
  have last: "extends (management_services path cfg rt) ?evs4 evs' \<and>
      (isl r \<longrightarrow> (\<exists>m. Log_Error m \<in> set evs')) \<and>
      (\<not> isl r \<longrightarrow> set (management_services path cfg rt) \<subseteq> set (services evs'))"
  proof (cases r)
    case (Inl es)
    then show ?thesis using start_management_Inl [OF r [symmetric, unfolded Inl]] assms(2) extends_error [of "[]" _ ?evs4] by auto
  next
    case (Inr es)
    then show ?thesis using start_management_Inr [OF r [symmetric, unfolded Inr]] assms(2) by auto
  qed
  have "extends ([?http] @ ((https_services cfg rt @ tunnel_services cfg rt) @ dns_services (mc_parse_addr mc) cfg) @
      management_services path cfg rt) evs evs'"
    using http mid last by (blast intro: extends_trans)
  moreover have "?http \<in> set (services ?evs4)" using in1 optional.both.keeps_services by blast
  then have "?http \<in> set (services evs')" using last by (auto simp: extends_def)
  ultimately show ?thesis using last by (simp add: asked_services_def)
qed

text \<open>The messages before the runtime start no socket, nor do those after.\<close>

lemma main_listeners:
  assumes "main mc args = Some (evs, exit)" "e \<in> set evs" "socket_event e"
  shows "\<exists>path yaml cfg rt r. parse_args args = Some path \<and> mc_read mc path = Inr yaml \<and>
    load_str (mc_serde mc) (mc_decoders mc) (mc_regex mc) (mc_env mc) yaml = Inr cfg \<and>
    build_runtime (mc_decoders mc) (mc_regex mc) (mc_host_env mc) cfg = Some (Inr rt) \<and>
    start_listeners mc path cfg (SharedState_new rt)
      (map (\<lambda>w. Stderr [Lit ''hematite: warning: '', Disp w]) (cf_warnings cfg)) = r \<and>
    (r = Inl evs \<and> exit = Exit_Failure \<or>
     (\<exists>es m ws. r = Inr es \<and> evs = es @ Log_Info m # map Log_Warn ws \<and> exit = Exit_Success))"
  using assms
  by (auto simp: main_def Let_def split: option.splits sum.splits load_error.splits) blast+

lemma start_closed:
  assumes "main mc args = Some (evs, exit)" "e \<in> set evs" "socket_event e"
  shows "\<exists>path yaml cfg rt. parse_args args = Some path \<and> mc_read mc path = Inr yaml \<and>
    load_str (mc_serde mc) (mc_decoders mc) (mc_regex mc) (mc_env mc) yaml = Inr cfg \<and>
    build_runtime (mc_decoders mc) (mc_regex mc) (mc_host_env mc) cfg = Some (Inr rt) \<and>
    on_bound evs \<and> subseq (services evs) (asked_services (mc_parse_addr mc) path cfg rt) \<and>
    (if exit = Exit_Success
     then (listen_addr (lk_http (cf_listen cfg)), Serve_Http (SharedState_new rt)) \<in> set (services evs) \<and>
       set (management_services path cfg rt) \<subseteq> set (services evs) \<and>
       (services evs = asked_services (mc_parse_addr mc) path cfg rt \<or> (\<exists>m. Log_Error m \<in> set evs))
     else \<exists>m. Log_Error m \<in> set evs)"
proof -
  obtain path yaml cfg rt r evs0 where c: "parse_args args = Some path" "mc_read mc path = Inr yaml"
    "load_str (mc_serde mc) (mc_decoders mc) (mc_regex mc) (mc_env mc) yaml = Inr cfg"
    "build_runtime (mc_decoders mc) (mc_regex mc) (mc_host_env mc) cfg = Some (Inr rt)"
    and evs0: "evs0 = map (\<lambda>w. Stderr [Lit ''hematite: warning: '', Disp w]) (cf_warnings cfg)"
    and r: "start_listeners mc path cfg (SharedState_new rt) evs0 = r"
    and run: "r = Inl evs \<and> exit = Exit_Failure \<or>
     (\<exists>es m ws. r = Inr es \<and> evs = es @ Log_Info m # map Log_Warn ws \<and> exit = Exit_Success)"
    using main_listeners [OF assms] by blast
  have "services evs0 = []" by (simp add: evs0 services_none)
  then have pre: "on_bound evs0" "services evs0 = []" by (simp_all only: on_bound_quiet)
  have quiet: "services (Log_Info m # map Log_Warn ws) = []" for m ws by (simp add: services_none)
  from run show ?thesis
  proof (elim disjE exE conjE)
    assume es: "r = Inl evs" "exit = Exit_Failure"
    note st = start_listeners_extends [OF r refl, unfolded es(1), simplified]
    then obtain zs where zs: "evs = evs0 @ zs" "on_bound zs" "subseq (services zs) (asked_services (mc_parse_addr mc) path cfg rt)"
      unfolding extends_def by blast
    show ?thesis using c st es zs pre on_bound_append [OF pre(1) zs(2)] by auto
  next
    fix es m ws assume es: "r = Inr es" "evs = es @ Log_Info m # map Log_Warn ws" "exit = Exit_Success"
    note st = start_listeners_extends [OF r refl, unfolded es(1), simplified]
    then obtain zs where zs: "es = evs0 @ zs" "on_bound zs" "subseq (services zs) (asked_services (mc_parse_addr mc) path cfg rt)"
        "services zs = asked_services (mc_parse_addr mc) path cfg rt \<or> (\<exists>m. Log_Error m \<in> set zs)"
      unfolding extends_def by blast
    have "on_bound evs" unfolding es(2) zs(1) by (intro on_bound_append pre(1) zs(2) on_bound_quiet quiet)
    moreover have sv: "services evs = services zs" "services evs = services es" using pre(2) quiet [of m ws] unfolding es(2) zs(1)
      by simp_all
    moreover have "\<exists>m. Log_Error m \<in> set evs" if "\<exists>m. Log_Error m \<in> set zs" using that unfolding es(2) zs(1) by auto
    ultimately show ?thesis using c st zs(3,4) es(3) by (intro exI [of _ path] exI [of _ yaml] exI [of _ cfg] exI [of _ rt]) auto
  qed
qed

section \<open>Properties\<close>

text \<open>
  C9. The process starts closed: if it binds a socket or spawns a service at all, its file was read, loads and
  compiles. Every service it spawns is one the configuration asks for, in the fixed order and with the
  runtime of this very configuration, on an address bound before. A run that ends by the interrupt served
  plain HTTP and the management interface when one is configured with its key, and with no error logged it served exactly
  what was asked for; a failing run says so.
\<close>

theorem start_fails_closed:
  assumes "main mc args = Some (evs, exit)" "e \<in> set evs" "socket_event e"
  shows "\<exists>path yaml cfg rt. parse_args args = Some path \<and> mc_read mc path = Inr yaml \<and>
    load_str (mc_serde mc) (mc_decoders mc) (mc_regex mc) (mc_env mc) yaml = Inr cfg \<and>
    build_runtime (mc_decoders mc) (mc_regex mc) (mc_host_env mc) cfg = Some (Inr rt) \<and>
    on_bound evs \<and> subseq (services evs) (asked_services (mc_parse_addr mc) path cfg rt) \<and>
    (if exit = Exit_Success
     then (listen_addr (lk_http (cf_listen cfg)), Serve_Http (SharedState_new rt)) \<in> set (services evs) \<and>
       set (management_services path cfg rt) \<subseteq> set (services evs) \<and>
       (services evs = asked_services (mc_parse_addr mc) path cfg rt \<or> (\<exists>m. Log_Error m \<in> set evs))
     else \<exists>m. Log_Error m \<in> set evs)"
  using assms by (rule start_closed)

text \<open>A machine with the test configuration, where everything can be bound.\<close>

definition test_machine :: "raw_config \<Rightarrow> (unit, unit, unit, string, unit, unit, string) machine" where
  "test_machine raw =
    \<lparr>mc_read = (\<lambda>path. if path = ''h.yaml'' then Inr ''x'' else Inl ''missing''), mc_env = test_getenv,
     mc_serde = test_serde\<lparr>sd_from_value := \<lambda>_. Inr raw\<rparr>, mc_decoders = object_decoders, mc_regex = no_regex,
     mc_host_env = test_ho, mc_tokio = Inr (),
     mc_otel = \<lparr>ol_try_filter = Some, ol_filter = id, ol_exporter = (\<lambda>_ _. Inr ()), ol_batch = (\<lambda>_. Some)\<rparr>,
     mc_bind = (\<lambda>held p a. if (p, a) \<in> set held then Inl ''in use'' else Inr ()),
     mc_parse_addr = Some, mc_flush = (\<lambda>_ _. Flush_Ok)\<rparr>"

fun service_name :: "('t, 'a) service \<Rightarrow> string" where
  "service_name (Serve_Http _) = ''http''"
| "service_name (Serve_Https _) = ''https''"
| "service_name (Serve_Tunnel _) = ''tunnel''"
| "service_name (Serve_Dns Udp _ _) = ''dns/udp''"
| "service_name (Serve_Dns Tcp _ _) = ''dns/tcp''"
| "service_name (Serve_Management _ _ _) = ''management''"

lemma test_main_runs:
  "map_option (\<lambda>(evs, exit). (map (map_prod id service_name) (services evs), exit))
     (main (test_machine test_raw) [''-config'', ''h.yaml'']) =
   Some ([(''0.0.0.0:80'', ''http''), (''0.0.0.0:53'', ''dns/udp''), (''0.0.0.0:53'', ''dns/tcp''),
     (''0.0.0.0:9000'', ''management'')], Exit_Success)"
  by code_simp

theorem start_fails_closed_witness:
  "\<exists>evs cfg rt. main (test_machine test_raw) [''-config'', ''h.yaml''] = Some (evs, Exit_Success) \<and>
     build_runtime object_decoders no_regex test_ho cfg = Some (Inr rt) \<and> on_bound evs \<and>
     (listen_addr (lk_http (cf_listen cfg)), Serve_Http (SharedState_new rt)) \<in> set (services evs)"
proof -
  obtain r where r: "main (test_machine test_raw) [''-config'', ''h.yaml''] = Some r"
    using test_main_runs by (cases "main (test_machine test_raw) [''-config'', ''h.yaml'']") simp_all
  obtain evs exit where r_eq: "r = (evs, exit)" by (cases r)
  have run: "main (test_machine test_raw) [''-config'', ''h.yaml''] = Some (evs, Exit_Success)" and sv: "services evs \<noteq> []"
    using test_main_runs r by (auto simp: r_eq)
  from sv obtain e where e: "e \<in> set evs" "spawned e \<noteq> []" using services_none [of evs] by auto
  have "socket_event e" using e(2) by (rule contrapos_np) (cases e; simp)
  from start_fails_closed [OF run e(1) this] run show ?thesis
    by (auto simp: test_machine_def)
qed

text \<open>
  Loading does not look at the value of an address record: a wrong one is found only here, where the
  process logs it and goes on without a DNS server.
\<close>

definition bad_dns_raw :: raw_config where
  "bad_dns_raw = test_raw\<lparr>rw_dns := map_option (\<lambda>d. d\<lparr>ds_records :=
     [\<lparr>dn_name = ''x'', dn_record_type = ''A'', dn_value = ''10.0.0.256''\<rparr>]\<rparr>) (rw_dns test_raw)\<rparr>"

lemma bad_dns_record_starts:
  "map_option (\<lambda>(evs, exit). (map (map_prod id service_name) (services evs), exit))
     (main (test_machine bad_dns_raw) [''-config'', ''h.yaml'']) =
   Some ([(''0.0.0.0:80'', ''http''), (''0.0.0.0:9000'', ''management'')], Exit_Success)"
  by code_simp

text \<open>The process does not panic on its way up.\<close>

lemma main_total:
  assumes "\<And>x. ol_batch (mc_otel mc) True x \<noteq> None"
  shows "main mc args \<noteq> None"
proof -
  have "init_telemetry (mc_otel mc) True format level otlp None = None \<longleftrightarrow> False" for format level otlp
    using assms by (rule init_telemetry_first [of "mc_otel mc"]) auto
  then show ?thesis
    by (simp add: main_def Let_def build_runtime_total del: not_None_eq split: option.split sum.split load_error.split)
qed

end
