(* ===== verification/Serve.thy ===== *)
theory Serve
  imports Startup
begin

text \<open>
  The process at work: the accept loops of \<open>http.rs\<close>, \<open>listen.rs\<close>, \<open>management.rs\<close> and \<open>server.rs\<close> and the requests they
  serve, as one system. Its tasks run concurrently; a run is a sequence of operations, in each of which one
  task goes on: a connection is accepted, a handler takes the current runtime, a handler finishes with the
  runtime it took, a reload swaps the runtime. Each operation brings along what its task finds outside.
\<close>

declare map_eq_Cons_D [rule del] Cons_eq_map_D [rule del]

section \<open>Definitions\<close>

subsection \<open>The state\<close>

text \<open>
  The listeners that are up with what they were handed, the runtimes and the secret cache of each, the
  registry of metrics, and the tasks under way: accepted TLS clients, accepted
  tunnels with the runtime they took once their handshake was through, open connections, and requests with the runtime they took.
\<close>

record 't server =
  sv_http :: bool
  sv_https :: bool
  sv_tunnel :: bool
  sv_udp :: "dns_config option"
  sv_tcp :: "dns_config option"
  sv_management :: "(management \<times> string) option"
  sv_shared :: "'t proxy_runtime shared_state"
  sv_caches :: "nat \<Rightarrow> Resolver.cache"
  sv_metrics :: metrics
  sv_conns :: "conn_ctx list"
  sv_tls :: "string list"
  sv_tunnels :: "(string \<times> nat option) list"
  sv_requests :: "(conn_ctx \<times> http_request \<times> nat) list"

datatype listener = L_Http | L_Https | L_Tunnel | L_Udp | L_Tcp | L_Management

text \<open>
  What a task does next. A request or a tunnel is named by its position; the rest is what the outside
  answers: the environment of a handler, the world the secret resolver reads, the file, the environment and the host of a reload, the
  upstream resolver's datagram.
\<close>

datatype ('t, 'p, 'q, 'h, 'k) operation =
    Accept_Http string
  | Accept_Https string
  | Run_Tls nat "('t, cert_cache, 'k) listen_env" "arrival list"
  | Accept_Tunnel string
  | Take_Tunnel nat
  | Run_Tunnel nat "('t, cert_cache, 'k) listen_env" "arrival list" Resolver.world
  | Begin_Request nat http_request
  | Finish_Request nat "('t, 'h) http_env" Resolver.world
  | Manage hyper "f64 \<Rightarrow> string" "string \<Rightarrow> string + string" "string \<Rightarrow> string option" "('t, 'p, 'q) host_env" http_request
  | Dns_Datagram upstream_resolver bytes
  | Dns_Stream upstream_resolver bytes
  | Tls_Cache bool
  | Accept_Error listener

text \<open>What an operation did, with the runtimes it used.\<close>

datatype ('t, 'h, 'k) did =
    Did_Listen "('t, cert_cache, 'k) listen_env" "'t proxy_runtime" "'t proxy_runtime" "arrival list" "'k listen_event list"
  | Did_Request "('t, 'h) http_env" "'t proxy_runtime" conn_ctx http_request "'h reply" "http_event list"
  | Did_Manage "u16 \<times> message" bool
  | Did_Dns dns_config upstream_resolver "bytes option" "(bytes \<times> dns_decision_kind) option" "bytes list"
  | Did_Cache bool

subsection \<open>What is counted\<close>

datatype metric_event =
    M_Record audit_record
  | M_Dial dial_result
  | M_Dns dns_outcome
  | M_Tls bool
  | M_Reload bool

fun apply_metric :: "metric_event \<Rightarrow> metrics \<Rightarrow> metrics" where
  "apply_metric (M_Record r) m = observe_record r m"
| "apply_metric (M_Dial d) m = inc_dial d m"
| "apply_metric (M_Dns d) m = inc_dns d m"
| "apply_metric (M_Tls hit) m = inc_tls_cache hit m"
| "apply_metric (M_Reload ok) m = inc_reload ok m"

fun http_metrics :: "http_event \<Rightarrow> metric_event list" where
  "http_metrics (Ev_Dial d) = map M_Dial (counted [d])"
| "http_metrics (Ev_Emit e) = [M_Record (fst e)]"
| "http_metrics _ = []"

fun listen_metrics :: "'k listen_event \<Rightarrow> metric_event list" where
  "listen_metrics (Tunnel_Dial d) = map M_Dial (counted [d])"
| "listen_metrics (Tunnel_Emit e) = [M_Record (fst e)]"
| "listen_metrics _ = []"

definition count_all :: "metric_event list \<Rightarrow> metrics \<Rightarrow> metrics" where
  "count_all es m = fold apply_metric es m"

subsection \<open>The loops\<close>

definition drop_nth :: "nat \<Rightarrow> 'x list \<Rightarrow> 'x list" where
  "drop_nth i xs = take i xs @ drop (Suc i) xs"

abbreviation current_runtime :: "'t server \<Rightarrow> 't proxy_runtime option" where
  "current_runtime sv \<equiv> deref (sv_shared sv) (current (sv_shared sv))"

text \<open>The plain listener: every accepted connection is served with a context of its own.\<close>

definition serve_http :: "string \<Rightarrow> 't server \<Rightarrow> 't server" where
  "serve_http remote sv = (if sv_http sv then sv\<lparr>sv_conns := sv_conns sv @ [http_ctx remote]\<rparr> else sv)"

text \<open>The TLS listener: a task for each client, which terminates with the runtime of the moment and serves what is inside.\<close>

definition serve_https :: "string \<Rightarrow> 't server \<Rightarrow> 't server" where
  "serve_https remote sv = (if sv_https sv then sv\<lparr>sv_tls := sv_tls sv @ [remote]\<rparr> else sv)"

definition run_tls ::
  "nat \<Rightarrow> ('t, cert_cache, 'k) listen_env \<Rightarrow> arrival list \<Rightarrow> 't server \<Rightarrow> 't server \<times> ('t, 'h, 'k) did list" where
  "run_tls i env input sv =
    (case current_runtime sv of
       Some rt \<Rightarrow>
         (if i < length (sv_tls sv) then
            (let evs = terminate_and_serve env rt (sv_tls sv ! i) None input
             in (sv\<lparr>sv_tls := drop_nth i (sv_tls sv), sv_conns := sv_conns sv @ contexts evs,
                    sv_metrics := count_all (concat (map listen_metrics evs)) (sv_metrics sv)\<rparr>,
                 [Did_Listen env rt rt input evs]))
          else (sv, []))
     | None \<Rightarrow> (sv, []))"

text \<open>
  The tunnel listener: a task for each client, which takes the runtime that decides when the handshake is through
  and another one when it comes to terminating TLS.
\<close>

definition serve_tunnel :: "string \<Rightarrow> 't server \<Rightarrow> 't server" where
  "serve_tunnel remote sv = (if sv_tunnel sv then sv\<lparr>sv_tunnels := sv_tunnels sv @ [(remote, None)]\<rparr> else sv)"

definition take_tunnel :: "nat \<Rightarrow> 't server \<Rightarrow> 't server" where
  "take_tunnel i sv =
    (if i < length (sv_tunnels sv) \<and> snd (sv_tunnels sv ! i) = None
     then sv\<lparr>sv_tunnels := (sv_tunnels sv)[i := (fst (sv_tunnels sv ! i), Some (current (sv_shared sv)))]\<rparr> else sv)"

definition run_tunnel ::
  "nat \<Rightarrow> ('t, cert_cache, 'k) listen_env \<Rightarrow> arrival list \<Rightarrow> Resolver.world \<Rightarrow> 't server \<Rightarrow>
   't server \<times> ('t, 'h, 'k) did list" where
  "run_tunnel i env input w sv =
    (if i < length (sv_tunnels sv) then
       (case sv_tunnels sv ! i of
          (remote, Some a) \<Rightarrow>
            (case (deref (sv_shared sv) a, current_runtime sv) of
               (Some rt, Some rt') \<Rightarrow>
                 (let (evs, s) = handle_tunnel env rt rt' remote input (w, sv_caches sv a)
                  in (sv\<lparr>sv_tunnels := drop_nth i (sv_tunnels sv), sv_caches := (sv_caches sv)(a := snd s),
                         sv_conns := sv_conns sv @ contexts evs,
                         sv_metrics := count_all (concat (map listen_metrics evs)) (sv_metrics sv)\<rparr>,
                      [Did_Listen env rt rt' input evs]))
             | _ \<Rightarrow> (sv, []))
        | (remote, None) \<Rightarrow> (sv, []))
     else (sv, []))"

text \<open>
  \<open>serve_io\<close>: the HTTP server hands each request of a connection to the handler, which takes the current
  runtime first and works with it to its end.
\<close>

definition begin_request :: "nat \<Rightarrow> http_request \<Rightarrow> 't server \<Rightarrow> 't server" where
  "begin_request c req sv =
    (if c < length (sv_conns sv)
     then sv\<lparr>sv_requests := sv_requests sv @ [(sv_conns sv ! c, req, current (sv_shared sv))]\<rparr> else sv)"

definition finish_request ::
  "nat \<Rightarrow> ('t, 'h) http_env \<Rightarrow> Resolver.world \<Rightarrow> 't server \<Rightarrow> 't server \<times> ('t, 'h, 'k) did list" where
  "finish_request i env w sv =
    (if i < length (sv_requests sv) then
       (case sv_requests sv ! i of (ctx, req, a) \<Rightarrow>
          (case deref (sv_shared sv) a of
             Some rt \<Rightarrow>
               (let (reply, evs, s) = handle env rt ctx req (w, sv_caches sv a)
                in (sv\<lparr>sv_requests := drop_nth i (sv_requests sv), sv_caches := (sv_caches sv)(a := snd s),
                       sv_metrics := count_all (concat (map http_metrics evs)) (sv_metrics sv)\<rparr>,
                    [Did_Request env rt ctx req reply evs]))
           | None \<Rightarrow> (sv, [])))
     else (sv, []))"

text \<open>The management listener; the configuration is read from the path the process was started with.\<close>

definition reload_requested :: "hyper \<Rightarrow> management \<Rightarrow> http_request \<Rightarrow> bool" where
  "reload_requested hy mn req \<longleftrightarrow>
    hr_method req = ''POST'' \<and> hr_path req = ''/v1/reload'' \<and> authorized hy (mn_api_key mn) req"

definition serve_management ::
  "('t, 'p, 'q, 'f, 'x, 'b, 'a) machine \<Rightarrow> hyper \<Rightarrow> (f64 \<Rightarrow> string) \<Rightarrow> (string \<Rightarrow> string + string) \<Rightarrow>
   (string \<Rightarrow> string option) \<Rightarrow> ('t, 'p, 'q) host_env \<Rightarrow> http_request \<Rightarrow> 't server \<Rightarrow> 't server \<times> ('t, 'h, 'k) did list" where
  "serve_management mc hy show_f64 reads getenv ho req sv =
    (case sv_management sv of
       Some (mn, config_path) \<Rightarrow>
         (let rl = \<lparr>rl_read_config = reads config_path, rl_env = getenv, rl_serde = mc_serde mc,
                    rl_decoders = mc_decoders mc, rl_regex = mc_regex mc, rl_host_env = ho\<rparr>;
              (answer, (shared, metrics)) = manage hy show_f64 mn rl req (sv_shared sv, sv_metrics sv)
          in (sv\<lparr>sv_shared := shared, sv_metrics := metrics\<rparr>, [Did_Manage answer (reload_requested hy mn req)]))
     | None \<Rightarrow> (sv, []))"

text \<open>The two loops of the DNS server: one datagram, one connection.\<close>

definition decided :: "(bytes \<times> dns_decision_kind) option \<Rightarrow> 't server \<Rightarrow> 't server" where
  "decided answer sv = (case answer of Some (response, k) \<Rightarrow> sv\<lparr>sv_metrics := on_decision k (sv_metrics sv)\<rparr> | None \<Rightarrow> sv)"

definition serve_udp :: "upstream_resolver \<Rightarrow> bytes \<Rightarrow> 't server \<Rightarrow> 't server \<times> ('t, 'h, 'k) did list" where
  "serve_udp upstream datagram sv =
    (case sv_udp sv of
       Some config \<Rightarrow>
         (let (answer, sent) = serve_udp_datagram config upstream datagram
          in (decided answer sv, [Did_Dns config upstream (Some (take 4096 datagram)) answer sent]))
     | None \<Rightarrow> (sv, []))"

definition serve_tcp :: "upstream_resolver \<Rightarrow> bytes \<Rightarrow> 't server \<Rightarrow> 't server \<times> ('t, 'h, 'k) did list" where
  "serve_tcp upstream input sv =
    (case sv_tcp sv of
       Some config \<Rightarrow>
         (let (answer, sent) = serve_tcp_stream config upstream input
          in (decided answer sv, [Did_Dns config upstream (framed input) answer sent]))
     | None \<Rightarrow> (sv, []))"

text \<open>An error of \<open>accept\<close> or \<open>recv_from\<close> ends the loop and its task; nobody starts it again.\<close>

fun stop_listener :: "listener \<Rightarrow> 't server \<Rightarrow> 't server" where
  "stop_listener L_Http sv = sv\<lparr>sv_http := False\<rparr>"
| "stop_listener L_Https sv = sv\<lparr>sv_https := False\<rparr>"
| "stop_listener L_Tunnel sv = sv\<lparr>sv_tunnel := False\<rparr>"
| "stop_listener L_Udp sv = sv\<lparr>sv_udp := None\<rparr>"
| "stop_listener L_Tcp sv = sv\<lparr>sv_tcp := None\<rparr>"
| "stop_listener L_Management sv = sv\<lparr>sv_management := None\<rparr>"

fun operate ::
  "('t, 'p, 'q, 'f, 'x, 'b, 'a) machine \<Rightarrow> ('t, 'p, 'q, 'h, 'k) operation \<Rightarrow> 't server \<Rightarrow>
   't server \<times> ('t, 'h, 'k) did list" where
  "operate mc (Accept_Http remote) sv = (serve_http remote sv, [])"
| "operate mc (Accept_Https remote) sv = (serve_https remote sv, [])"
| "operate mc (Run_Tls i env input) sv = run_tls i env input sv"
| "operate mc (Accept_Tunnel remote) sv = (serve_tunnel remote sv, [])"
| "operate mc (Take_Tunnel i) sv = (take_tunnel i sv, [])"
| "operate mc (Run_Tunnel i env input w) sv = run_tunnel i env input w sv"
| "operate mc (Begin_Request c req) sv = (begin_request c req sv, [])"
| "operate mc (Finish_Request i env w) sv = finish_request i env w sv"
| "operate mc (Manage hy show_f64 reads getenv ho req) sv = serve_management mc hy show_f64 reads getenv ho req sv"
| "operate mc (Dns_Datagram upstream bs) sv = serve_udp upstream bs sv"
| "operate mc (Dns_Stream upstream bs) sv = serve_tcp upstream bs sv"
| "operate mc (Tls_Cache hit) sv = (sv\<lparr>sv_metrics := inc_tls_cache hit (sv_metrics sv)\<rparr>, [Did_Cache hit])"
| "operate mc (Accept_Error l) sv = (stop_listener l sv, [])"

fun operations ::
  "('t, 'p, 'q, 'f, 'x, 'b, 'a) machine \<Rightarrow> ('t, 'p, 'q, 'h, 'k) operation list \<Rightarrow> 't server \<Rightarrow>
   't server \<times> ('t, 'h, 'k) did list" where
  "operations mc [] sv = (sv, [])"
| "operations mc (op # ops) sv =
    (let (sv1, d) = operate mc op sv; (sv2, ds) = operations mc ops sv1 in (sv2, d @ ds))"

subsection \<open>From the start\<close>

text \<open>A task has been spawned with its socket: from here on its loop runs.\<close>

fun start_service :: "('t, 'a) service \<Rightarrow> 't server \<Rightarrow> 't server" where
  "start_service (Serve_Http st) sv = sv\<lparr>sv_http := True\<rparr>"
| "start_service (Serve_Https st) sv = sv\<lparr>sv_https := True\<rparr>"
| "start_service (Serve_Tunnel st) sv = sv\<lparr>sv_tunnel := True\<rparr>"
| "start_service (Serve_Dns Udp config upstream) sv = sv\<lparr>sv_udp := Some config\<rparr>"
| "start_service (Serve_Dns Tcp config upstream) sv = sv\<lparr>sv_tcp := Some config\<rparr>"
| "start_service (Serve_Management st mn path) sv = sv\<lparr>sv_management := Some (mn, path)\<rparr>"

text \<open>Before the first task runs; the registry is that of the first runtime, the caches are empty.\<close>

definition idle_server :: "string \<Rightarrow> 't proxy_runtime shared_state \<Rightarrow> 't server" where
  "idle_server version shared =
    \<lparr>sv_http = False, sv_https = False, sv_tunnel = False, sv_udp = None, sv_tcp = None, sv_management = None,
     sv_shared = shared, sv_caches = (\<lambda>_. Map.empty), sv_metrics = Metrics_new version, sv_conns = [], sv_tls = [], sv_tunnels = [],
     sv_requests = []\<rparr>"

text \<open>The state the services of a start share, if it came to one.\<close>

fun shared_by :: "('t, 'a) service \<Rightarrow> 't proxy_runtime shared_state option" where
  "shared_by (Serve_Http st) = Some st"
| "shared_by (Serve_Https st) = Some st"
| "shared_by (Serve_Tunnel st) = Some st"
| "shared_by (Serve_Management st mn path) = Some st"
| "shared_by (Serve_Dns p config upstream) = None"

fun served :: "string \<Rightarrow> (string \<times> ('t, 'a) service) list \<Rightarrow> 't server option" where
  "served version [] = None"
| "served version ((addr, sv) # svs) =
    map_option (\<lambda>shared. fold (\<lambda>(addr, sv). start_service sv) ((addr, sv) # svs) (idle_server version shared)) (shared_by sv)"

section \<open>What is counted is what was done\<close>

fun did_metrics :: "('t, 'h, 'k) did \<Rightarrow> metric_event list" where
  "did_metrics (Did_Listen env rt rt' input evs) = concat (map listen_metrics evs)"
| "did_metrics (Did_Request env rt ctx req reply evs) = concat (map http_metrics evs)"
| "did_metrics (Did_Manage answer reloaded) = (if reloaded then [M_Reload (fst answer = 200)] else [])"
| "did_metrics (Did_Dns config upstream request answer sent) =
    (case answer of Some (response, k) \<Rightarrow> [M_Dns (dns_outcome_of k)] | None \<Rightarrow> [])"
| "did_metrics (Did_Cache hit) = [M_Tls hit]"

text \<open>
  A family of counters among all that is counted: the events that belong to it step it as its interface
  says, the others leave it alone.
\<close>

locale tallied = counter_family step family key
  for step :: "'e \<Rightarrow> metrics \<Rightarrow> metrics" and family and key +
  fixes pick :: "metric_event \<Rightarrow> 'e option"
  assumes picked: "pick e = Some x \<Longrightarrow> family (apply_metric e m) = family (step x m)"
    and passed: "pick e = None \<Longrightarrow> family (apply_metric e m) = family m"
begin

lemma tally_fold: "family (count_all es m) = fold (\<lambda>x. add_count (key x) 1) (List.map_filter pick es) (family m)"
proof (induction es arbitrary: m)
  case (Cons e es)
  then show ?case
    by (cases "pick e") (simp_all add: count_all_def map_filter_simps passed picked step_count)
qed (simp add: count_all_def map_filter_simps)

lemma step_fold: "family (fold step xs m) = fold (\<lambda>x. add_count (key x) 1) xs (family m)"
  by (induction xs arbitrary: m) (simp_all add: step_count)

lemma tally_fresh:
  assumes "family m = []"
  shows "map_of (family (count_all es m)) k =
    (let n = length (filter (\<lambda>x. key x = k) (List.map_filter pick es)) in if n = 0 then None else Some (of_nat n))"
  using fold_count_fresh [OF assms, of "List.map_filter pick es" k] by (simp add: tally_fold step_fold)

end

fun pick_record :: "metric_event \<Rightarrow> audit_record option" where
  "pick_record (M_Record r) = Some r"
| "pick_record _ = None"

fun pick_dial :: "metric_event \<Rightarrow> dial_result option" where
  "pick_dial (M_Dial d) = Some d"
| "pick_dial _ = None"

fun pick_dns :: "metric_event \<Rightarrow> dns_outcome option" where
  "pick_dns (M_Dns d) = Some d"
| "pick_dns _ = None"

fun pick_reload :: "metric_event \<Rightarrow> bool option" where
  "pick_reload (M_Reload ok) = Some ok"
| "pick_reload _ = None"

lemma apply_metric_other:
  "me_requests (inc_dial d m) = me_requests m" "me_requests (inc_dns x m) = me_requests m"
  "me_requests (inc_tls_cache h m) = me_requests m" "me_requests (inc_reload b m) = me_requests m"
  "me_dials (observe_record r m) = me_dials m" "me_dials (inc_dns x m) = me_dials m"
  "me_dials (inc_tls_cache h m) = me_dials m" "me_dials (inc_reload b m) = me_dials m"
  "me_dns (observe_record r m) = me_dns m" "me_dns (inc_dial d m) = me_dns m"
  "me_dns (inc_tls_cache h m) = me_dns m" "me_dns (inc_reload b m) = me_dns m"
  "me_reloads (observe_record r m) = me_reloads m" "me_reloads (inc_dial d m) = me_reloads m"
  "me_reloads (inc_dns x m) = me_reloads m" "me_reloads (inc_tls_cache h m) = me_reloads m"
  by (simp_all add: observe_record_def inc_dial_def inc_dns_def inc_tls_cache_def inc_reload_def Let_def)

interpretation tallied_requests: tallied observe_record me_requests record_key pick_record
  by unfold_locales (auto simp: apply_metric_other elim: pick_record.elims)

interpretation tallied_dials: tallied inc_dial me_dials "\<lambda>r. label ''result'' (dial_result_str r)" pick_dial
  by unfold_locales (auto simp: apply_metric_other elim: pick_dial.elims)

interpretation tallied_dns: tallied inc_dns me_dns "\<lambda>r. label ''outcome'' (dns_outcome_str r)" pick_dns
  by unfold_locales (auto simp: apply_metric_other elim: pick_dns.elims)

interpretation tallied_reloads:
  tallied inc_reload me_reloads "\<lambda>ok. label ''result'' (if ok then ''ok'' else ''error'')" pick_reload
  by unfold_locales (auto simp: apply_metric_other elim: pick_reload.elims)

text \<open>What the operations did, by family.\<close>

fun audited :: "('t, 'h, 'k) did \<Rightarrow> audit_record list" where
  "audited (Did_Listen env rt rt' input evs) = map fst (tunnel_emissions evs)"
| "audited (Did_Request env rt ctx req reply evs) = map fst (emitted evs)"
| "audited _ = []"

text \<open>
  The ends of the dials a task made, each from what the outside answered to it, and the decision on a DNS query from the
  configuration, the name and the answer of the upstream resolver; neither looks at what was counted.
\<close>

fun dial_ends :: "('t, 'h, 'k) did \<Rightarrow> dial_result list" where
  "dial_ends (Did_Listen env rt rt' input evs) =
    concat (map (\<lambda>(h, p). results_of (dial_end (le_net env) h p False rt)) (dial_targets (tunnel_dials evs)))"
| "dial_ends (Did_Request env rt ctx req reply evs) =
    concat (map (\<lambda>(h, p). results_of (dial_end (he_net env) h p (cn_scheme_https ctx) rt)) (dial_targets (dial_events evs)))"
| "dial_ends _ = []"

definition dns_end :: "dns_config \<Rightarrow> upstream_resolver \<Rightarrow> bytes \<Rightarrow> dns_outcome option" where
  "dns_end config upstream request =
    (case parse_query request of
       None \<Rightarrow> None
     | Some q \<Rightarrow>
         Some (if dc_records config (normalize (dq_name q)) \<noteq> None then DnsOutcome_Static
               else if \<not> may_forward config (dq_name q) then DnsOutcome_Intercept
               else (case upstream request of Sent (Some _) \<Rightarrow> DnsOutcome_Passthrough | _ \<Rightarrow> DnsOutcome_Error)))"

fun dns_ends :: "('t, 'h, 'k) did \<Rightarrow> dns_outcome list" where
  "dns_ends (Did_Dns config upstream request answer sent) =
    (case Option.bind request (dns_end config upstream) of Some oc \<Rightarrow> [oc] | None \<Rightarrow> [])"
| "dns_ends _ = []"

fun reload_results :: "('t, 'h, 'k) did \<Rightarrow> bool list" where
  "reload_results (Did_Manage answer reloaded) = (if reloaded then [fst answer = 200] else [])"
| "reload_results _ = []"

lemma map_filter_append: "List.map_filter f (xs @ ys) = List.map_filter f xs @ List.map_filter f ys"
  by (simp add: List.map_filter_def)

lemma map_filter_concat: "List.map_filter f (concat xss) = concat (map (List.map_filter f) xss)"
  by (induction xss) (simp_all add: map_filter_append map_filter_simps)

lemma pick_http:
  "concat (map (\<lambda>e. List.map_filter pick_record (http_metrics e)) evs) = map fst (emitted evs)"
  "concat (map (\<lambda>e. List.map_filter pick_dial (http_metrics e)) evs) = counted (dial_events evs)"
  by (induction evs) (auto simp: map_filter_simps counted_def dial_events_def emitted_def List.map_filter_def
      split: http_event.splits dial_event.splits)

lemma pick_listen:
  "concat (map (\<lambda>e. List.map_filter pick_record (listen_metrics e)) evs) = map fst (tunnel_emissions evs)"
  "concat (map (\<lambda>e. List.map_filter pick_dial (listen_metrics e)) evs) = counted (tunnel_dials evs)"
  by (induction evs) (auto simp: map_filter_simps counted_def listen_projections List.map_filter_def
      split: listen_event.splits dial_event.splits)

lemma pick_none [simp]:
  "List.map_filter pick_dns (http_metrics e) = []" "List.map_filter pick_reload (http_metrics e) = []"
  "List.map_filter pick_dns (listen_metrics e') = []" "List.map_filter pick_reload (listen_metrics e') = []"
  by (cases e rule: http_metrics.cases; cases e' rule: listen_metrics.cases; simp add: List.map_filter_def)+

lemma pick_did:
  "List.map_filter pick_record (did_metrics d) = audited d"
  "List.map_filter pick_reload (did_metrics d) = reload_results d"
  by (cases d; simp add: map_filter_concat comp_def pick_http pick_listen map_filter_simps split: option.split)+

text \<open>Of the dials and the DNS decisions, what an operation counts is how they ended.\<close>

definition counted_as_ended :: "('t, 'h, 'k) did \<Rightarrow> bool" where
  "counted_as_ended d \<longleftrightarrow>
    List.map_filter pick_dial (did_metrics d) = dial_ends d \<and> List.map_filter pick_dns (did_metrics d) = dns_ends d"

lemma connect_counted:
  "counted (snd (connect_upstream net pf h p https rt)) =
    concat (map (\<lambda>(h, p). results_of (dial_end net h p https rt)) (dial_targets (snd (connect_upstream net pf h p https rt))))"
  using connect_upstream_spec(3,4) [of net pf h p https rt] by (cases "connect_upstream net pf h p https rt") simp

lemma request_counted:
  assumes "handle env rt ctx req s = (reply, evs, s')"
  shows "counted_as_ended (Did_Request env rt ctx req reply evs)"
proof -
  have "counted (dial_events evs) =
      concat (map (\<lambda>(h, p). results_of (dial_end (he_net env) h p (cn_scheme_https ctx) rt)) (dial_targets (dial_events evs)))"
  proof (cases "dial_events evs = []")
    case False
    then obtain summary where "dial_events evs = snd (dial_of env rt ctx summary)" using handle_events [OF assms] by metis
    then show ?thesis by (simp add: dial_of_def connect_counted split: prod.split)
  qed simp
  then show ?thesis by (simp add: counted_as_ended_def map_filter_concat comp_def pick_http)
qed

lemma listen_counted:
  assumes "tunnel_dials evs = [] \<or> tunnel_dials evs = snd (connect_upstream (le_net env) pf h p False rt)"
  shows "counted_as_ended (Did_Listen env rt rt' input evs)"
proof -
  have "counted (tunnel_dials evs) =
      concat (map (\<lambda>(h, p). results_of (dial_end (le_net env) h p False rt)) (dial_targets (tunnel_dials evs)))"
    using assms connect_counted [of "le_net env" pf h p False rt] by auto
  then show ?thesis by (simp add: counted_as_ended_def map_filter_concat comp_def pick_listen)
qed

lemma tunnel_counted:
  assumes "handle_tunnel env rt rt' remote input s = (evs, s')"
  shows "counted_as_ended (Did_Listen env rt rt' input evs)"
proof -
  have "\<exists>h p. tunnel_dials evs = snd (connect_upstream (le_net env) AllowProof h p False rt)" if some: "tunnel_dials evs \<noteq> []"
  proof -
    from handle_tunnel_cases [OF assms] some obtain first target rest evs' where
      d: "decide_tunnel env rt rt' (dispatch first = Client_Socks5) target remote rest s = (evs', s')"
      and same: "tunnel_dials evs = tunnel_dials evs'" by metis
    obtain res ds where c:
      "connect_upstream (le_net env) AllowProof (ct_host target) (ct_port target) False rt = (res, ds)" by force
    from d show ?thesis
    proof (cases rule: decide_tunnel_cases)
      case (2 po summary)
      then have "tunnel_dials evs = ds" using same passthrough_dials [OF c] by simp
      then show ?thesis using c by (metis snd_conv)
    qed (use some same in \<open>simp_all add: emit_tunnel_reject_def bump_quiet Let_def\<close>)
  qed
  then show ?thesis using listen_counted [of evs env] by blast
qed

lemma respond_counted:
  assumes "respond config upstream request = (answer, sent)"
  shows "(case answer of Some (response, k) \<Rightarrow> [dns_outcome_of k] | None \<Rightarrow> []) =
    (case dns_end config upstream request of Some oc \<Rightarrow> [oc] | None \<Rightarrow> [])"
proof (cases "parse_query request")
  case (Some q)
  show ?thesis
  proof (cases "may_forward config (dq_name q)")
    case True
    then have "resolve config q = Decision_Passthrough" "dc_records config (normalize (dq_name q)) = None"
      by (simp add: resolve_passthrough, simp add: may_forward_def)
    then show ?thesis using assms Some True
      by (auto simp: respond_def dns_end_def forward_def split: exchange.splits option.splits)
  next
    case False
    then have "resolve config q \<noteq> Decision_Passthrough" by (simp add: resolve_passthrough)
    then show ?thesis using assms Some False
      by (auto simp: respond_def dns_end_def local_kind_def normalize_def split: decision.splits)
  qed
qed (use assms in \<open>auto simp: respond_def dns_end_def\<close>)

lemma dns_counted:
  assumes "serve_udp_datagram config upstream datagram = (answer, sent)"
  shows "counted_as_ended (Did_Dns config upstream (Some (take 4096 datagram)) answer sent)"
  using respond_counted [OF assms [unfolded serve_udp_datagram_def]]
  by (auto simp: counted_as_ended_def map_filter_simps split: option.splits)

lemma dns_stream_counted:
  assumes "serve_tcp_stream config upstream input = (answer, sent)"
  shows "counted_as_ended (Did_Dns config upstream (framed input) answer sent)"
proof (cases "framed input")
  case (Some request)
  obtain a sent' where r: "respond config upstream request = (a, sent')" by force
  then show ?thesis using assms Some respond_counted [OF r]
    by (auto simp: serve_tcp_stream_def counted_as_ended_def map_filter_simps split: option.splits)
qed (use assms in \<open>auto simp: serve_tcp_stream_def counted_as_ended_def map_filter_simps\<close>)

lemma operate_counted:
  assumes "operate mc op sv = (sv', ds)" "d \<in> set ds"
  shows "counted_as_ended d"
proof (cases op)
  case (Run_Tls i env input)
  then show ?thesis using assms
    by (auto simp: run_tls_def Let_def terminate_quiet intro!: listen_counted split: option.splits if_splits)
next
  case (Run_Tunnel i env input w)
  then show ?thesis using assms
    by (auto simp: run_tunnel_def Let_def intro!: tunnel_counted split: option.splits if_splits prod.splits)
next
  case (Finish_Request i env w)
  then show ?thesis using assms
    by (auto simp: finish_request_def Let_def intro!: request_counted split: option.splits if_splits prod.splits)
next
  case (Dns_Datagram upstream bs)
  then show ?thesis using assms by (auto simp: serve_udp_def intro!: dns_counted split: option.splits prod.splits)
next
  case (Dns_Stream upstream bs)
  then show ?thesis using assms by (auto simp: serve_tcp_def intro!: dns_stream_counted split: option.splits prod.splits)
next
  case (Manage hy show_f64 reads getenv ho req)
  then show ?thesis using assms
    by (auto simp: serve_management_def Let_def counted_as_ended_def map_filter_simps split: option.splits prod.splits)
qed (use assms in \<open>auto simp: counted_as_ended_def map_filter_simps\<close>)

lemma operations_counted:
  assumes "operations mc ops sv = (sv', ds)" "d \<in> set ds"
  shows "counted_as_ended d"
  using assms
proof (induction ops arbitrary: sv sv' ds)
  case (Cons op ops)
  then obtain sv1 d1 ds1 where "operate mc op sv = (sv1, d1)" "operations mc ops sv1 = (sv', ds1)" "ds = d1 @ ds1"
    by (auto split: prod.splits)
  with Cons show ?case using operate_counted [of mc op sv sv1 d1 d] by auto
qed simp

text \<open>The management handler counts once for each reload it runs, and nothing else.\<close>

lemma manage_metrics:
  assumes "manage hy show_f64 mn rl req (shared, m) = (answer, (shared', m'))"
  shows "m' = (if reload_requested hy mn req then inc_reload (fst answer = 200) m else m)"
proof -
  have "snd st = inc_reload (status = 200) m"
    if "reload rl listen (shared, m) = Some ((status, msg), st)" for status msg listen st
    using that by (auto simp: reload_def Let_def split: sum.splits load_error.splits if_splits option.splits)
  moreover have "reload rl listen (shared, m) = None \<longleftrightarrow> False" for listen
    by (auto simp: reload_def Let_def build_runtime_total split: sum.split load_error.split option.split)
  ultimately obtain status msg st where "reload rl (mn_current_listen mn) (shared, m) = Some ((status, msg), st)"
      "snd st = inc_reload (status = 200) m"
    by (metis option.exhaust prod.collapse)
  then show ?thesis using assms by (auto simp: manage_def reload_requested_def split: if_splits)
qed

lemma operate_metrics:
  assumes "operate mc op sv = (sv', ds)"
  shows "sv_metrics sv' = count_all (concat (map did_metrics ds)) (sv_metrics sv)"
proof (cases op)
  case (Manage hy show_f64 reads getenv ho req)
  then show ?thesis
    using assms
    by (auto simp: serve_management_def count_all_def Let_def split: option.splits prod.splits dest!: manage_metrics)
next
  case (Accept_Error l)
  then show ?thesis using assms by (cases l) (auto simp: count_all_def)
qed (use assms in \<open>auto simp: serve_http_def serve_https_def run_tls_def serve_tunnel_def take_tunnel_def run_tunnel_def begin_request_def finish_request_def
    serve_udp_def serve_tcp_def decided_def on_decision_def count_all_def Let_def
    split: option.splits prod.splits if_splits bool.splits\<close>)

lemma operations_metrics:
  assumes "operations mc ops sv = (sv', ds)"
  shows "sv_metrics sv' = count_all (concat (map did_metrics ds)) (sv_metrics sv)"
  using assms
proof (induction ops arbitrary: sv sv' ds)
  case (Cons op ops)
  then obtain sv1 d ds1 where one: "operate mc op sv = (sv1, d)" and rest: "operations mc ops sv1 = (sv', ds1)"
    and ds: "ds = d @ ds1"
    by (auto split: prod.splits)
  show ?case
    using operate_metrics [OF one] Cons.IH [OF rest] ds by (simp add: count_all_def)
qed (simp add: count_all_def)

text \<open>A listener whose loop has ended stays down, whatever the process does.\<close>

fun listening :: "listener \<Rightarrow> 't server \<Rightarrow> bool" where
  "listening L_Http sv \<longleftrightarrow> sv_http sv"
| "listening L_Https sv \<longleftrightarrow> sv_https sv"
| "listening L_Tunnel sv \<longleftrightarrow> sv_tunnel sv"
| "listening L_Udp sv \<longleftrightarrow> sv_udp sv \<noteq> None"
| "listening L_Tcp sv \<longleftrightarrow> sv_tcp sv \<noteq> None"
| "listening L_Management sv \<longleftrightarrow> sv_management sv \<noteq> None"

lemma operate_listening:
  assumes "operate mc op sv = (sv', ds)"
  shows "listening l sv' \<longleftrightarrow> listening l sv \<and> op \<noteq> Accept_Error l"
proof (cases op)
  case (Accept_Error l')
  then show ?thesis using assms by (cases l'; cases l) auto
qed (use assms in \<open>(cases l; auto simp: serve_http_def serve_https_def run_tls_def serve_tunnel_def take_tunnel_def run_tunnel_def
    begin_request_def finish_request_def serve_udp_def serve_tcp_def serve_management_def decided_def Let_def
    split: option.splits prod.splits if_splits)+\<close>)

lemma operations_listening:
  assumes "operations mc ops sv = (sv', ds)"
  shows "listening l sv' \<longleftrightarrow> listening l sv \<and> Accept_Error l \<notin> set ops"
  using assms
proof (induction ops arbitrary: sv ds)
  case (Cons op ops)
  then obtain sv1 d ds1 where one: "operate mc op sv = (sv1, d)" and rest: "operations mc ops sv1 = (sv', ds1)"
    by (auto split: prod.splits)
  show ?case using Cons.IH [OF rest] operate_listening [OF one, of l] by auto
qed simp

lemma start_services_keep:
  "sv_metrics (fold (\<lambda>(addr, sv). start_service sv) svs x) = sv_metrics x \<and>
   sv_shared (fold (\<lambda>(addr, sv). start_service sv) svs x) = sv_shared x"
proof -
  have keep: "sv_metrics (start_service s x) = sv_metrics x \<and> sv_shared (start_service s x) = sv_shared x" for s x
    by (cases "(s, x)" rule: start_service.cases) simp_all
  show ?thesis by (induction svs arbitrary: x) (simp_all add: keep case_prod_beta)
qed

lemma served_start:
  assumes "served version svs = Some sv"
  shows "sv_metrics sv = Metrics_new version"
    and "\<exists>addr s. (addr, s) \<in> set svs \<and> shared_by s = Some (sv_shared sv)"
proof -
  obtain addr s rest shared where "svs = (addr, s) # rest" "shared_by s = Some shared"
    and sv: "sv = fold (\<lambda>(addr, sv). start_service sv) svs (idle_server version shared)"
    using assms by (cases "(version, svs)" rule: served.cases) auto
  moreover have "sv_metrics sv = Metrics_new version" "sv_shared sv = shared"
    using start_services_keep [of svs "idle_server version shared"] unfolding sv by (simp_all add: idle_server_def)
  ultimately show "sv_metrics sv = Metrics_new version" "\<exists>addr s. (addr, s) \<in> set svs \<and> shared_by s = Some (sv_shared sv)"
    by auto
qed

lemma dial_label: "label ''result'' (dial_result_str x) = label ''result'' (dial_result_str y) \<longleftrightarrow> y = x"
  by (cases x; cases y; simp add: label_def escape_label_inj)

lemma dns_label: "label ''outcome'' (dns_outcome_str x) = label ''outcome'' (dns_outcome_str y) \<longleftrightarrow> y = x"
  by (cases x; cases y; simp add: label_def escape_label_inj)

lemma reload_label:
  "label ''result'' (if x then ''ok'' else ''error'') = label ''result'' (if y then ''ok'' else ''error'') \<longleftrightarrow> y = x"
  by (cases x; cases y; simp add: label_def escape_label_inj)

definition tally :: "nat \<Rightarrow> u64 option" where
  "tally n = (if n = 0 then None else Some (of_nat n))"

section \<open>Properties\<close>

text \<open>
  C7. The metrics are what the process did: however its tasks interleave, and through any number of reloads, the
  request counter of a mode, an action and a rejecting party is the number of audit records with these that were
  written; the dial counter of a result is the number of dials made that ended so, as the answers of the resolver, the
  guard, the sockets and the TLS handshake have it; the DNS counter of an outcome is the
  number of queries decided so, as the configuration, the name and the upstream's answer have it; and the reload
  counters are the numbers of reloads that succeeded and failed. A counter
  without events is absent, and counters wrap at their width. A dial that ends at a name TLS cannot use has no result and
  is counted nowhere.
\<close>

theorem process_metrics:
  assumes "served version svs = Some sv0" "operations mc ops sv0 = (sv, ds)"
  shows "map_of (me_requests (sv_metrics sv)) (request_key m a by) =
      tally (length (filter (\<lambda>r. ar_mode r = m \<and> ar_action r = a \<and> unwrap_or (ar_rejected_by r) [] = by)
        (concat (map audited ds)))) \<and>
    map_of (me_dials (sv_metrics sv)) (label ''result'' (dial_result_str d)) =
      tally (length (filter ((=) d) (concat (map dial_ends ds)))) \<and>
    map_of (me_dns (sv_metrics sv)) (label ''outcome'' (dns_outcome_str oc)) =
      tally (length (filter ((=) oc) (concat (map dns_ends ds)))) \<and>
    map_of (me_reloads (sv_metrics sv)) (label ''result'' (if ok then ''ok'' else ''error'')) =
      tally (length (filter ((=) ok) (concat (map reload_results ds))))"
proof -
  have new: "me_requests (Metrics_new version) = []" "me_dials (Metrics_new version) = []"
      "me_dns (Metrics_new version) = []" "me_reloads (Metrics_new version) = []"
    by (simp_all add: Metrics_new_def)
  note keys = dial_label dns_label reload_label
  have metrics: "sv_metrics sv = count_all (concat (map did_metrics ds)) (Metrics_new version)"
    using operations_metrics [OF assms(2)] served_start(1) [OF assms(1)] by simp
  have ended: "concat (map (\<lambda>x. List.map_filter pick_dial (did_metrics x)) ds) = concat (map dial_ends ds)"
    "concat (map (\<lambda>x. List.map_filter pick_dns (did_metrics x)) ds) = concat (map dns_ends ds)"
    using operations_counted [OF assms(2)] by (auto simp: counted_as_ended_def intro!: arg_cong [where f = concat])
  show ?thesis
    unfolding metrics
    using tallied_requests.tally_fresh [OF new(1)] tallied_dials.tally_fresh [OF new(2)]
      tallied_dns.tally_fresh [OF new(3)] tallied_reloads.tally_fresh [OF new(4)]
    by (simp add: map_filter_concat comp_def pick_did ended keys record_key_def request_key_inj tally_def Let_def)
qed

end
