(* ===== verification/Redaction.thy ===== *)
theory Redaction
  imports Serve
begin

text \<open>
  The redaction rule of the specification: what may not stand in an audit record may not stand in a span or a metric
  either. The value of a secret goes to the upstream and nowhere else: two runs of the request handler
  that differ in the value the resolver returns do the same, up to the request that is sent.
\<close>

declare map_eq_Cons_D [rule del] Cons_eq_map_D [rule del]

section \<open>Runs that differ in what is sent\<close>

definition hide :: "http_event \<Rightarrow> http_event" where
  "hide e = (case e of Ev_Send st ur \<Rightarrow> Ev_Send st \<lparr>ur_method = [], ur_uri = [], ur_headers = [], ur_body = Buffered []\<rparr> | _ \<Rightarrow> e)"

lemma hide_simps [simp]:
  "hide (Ev_Span sp) = Ev_Span sp" "hide (Ev_Outcome fs) = Ev_Outcome fs"
  "hide (Ev_Dial d) = Ev_Dial d" "hide (Ev_Emit x) = Ev_Emit x" "hide (Ev_Bridge st) = Ev_Bridge st"
  "hide (Ev_Send st ur) = Ev_Send st \<lparr>ur_method = [], ur_uri = [], ur_headers = [], ur_body = Buffered []\<rparr>"
  "map hide (map Ev_Dial ds) = map Ev_Dial ds" "map hide (map Ev_Emit es) = map Ev_Emit es"
  by (simp_all add: hide_def)

lemma hide_emitted:
  assumes "map hide evs = map hide evs'"
  shows "emitted evs = emitted evs'" "dial_events evs = dial_events evs'" "map fst (sends evs) = map fst (sends evs')"
    "created evs = created evs'" "outcomes evs = outcomes evs'"
proof -
  have eq: "emitted (map hide evs) = emitted evs" "dial_events (map hide evs) = dial_events evs"
    "map fst (sends (map hide evs)) = map fst (sends evs)" "created (map hide evs) = created evs"
    "outcomes (map hide evs) = outcomes evs" for evs
    by (induction evs)
      (auto simp: emitted_def dial_events_def sends_def created_def outcomes_def hide_def split: http_event.split)
  show "emitted evs = emitted evs'" "dial_events evs = dial_events evs'" "map fst (sends evs) = map fst (sends evs')"
    "created evs = created evs'" "outcomes evs = outcomes evs'"
    using eq [of evs] eq [of evs'] assms by simp_all
qed

lemma dial_loop_pipeline:
  "dial_loop net host sch (rt\<lparr>rt_pipeline := p\<rparr>) n le addrs = dial_loop net host sch rt n le addrs"
proof (induction addrs arbitrary: n le)
  case (Cons a addrs)
  have sel: "rt_guard (rt\<lparr>rt_pipeline := p\<rparr>) = rt_guard rt" "rt_upstream_tls (rt\<lparr>rt_pipeline := p\<rparr>) = rt_upstream_tls rt"
    by simp_all
  show ?case unfolding dial_loop.simps Cons.IH sel ..
qed (simp add: dial_loop.simps)

lemma connect_pipeline [simp]:
  "connect_upstream net pf host port sch (rt\<lparr>rt_pipeline := p\<rparr>) = connect_upstream net pf host port sch rt"
  unfolding connect_upstream_def dial_loop_pipeline ..

lemma response_value_free:
  assumes "\<forall>t \<in> set p1 \<union> set p2. destination_keeper t" "map tr_name p1 = map tr_name p2"
    and "map hide events1 = map hide events2" "emitted events1 = []"
  shows "\<exists>reply pd s' evs1 evs2.
    handle_response env (rt\<lparr>rt_pipeline := p1\<rparr>) is_ws st a r resp events1 pending s = (reply, evs1, pd, s') \<and>
    handle_response env (rt\<lparr>rt_pipeline := p2\<rparr>) is_ws st b r resp events2 pending s = (reply, evs2, pd, s') \<and>
    map hide evs1 = map hide evs2"
proof -
  have "map (\<lambda>t. mk_trace (tr_name t) TraceVerdict_Continue None []) p1 = map (\<lambda>t. mk_trace (tr_name t) TraceVerdict_Continue None []) p2"
    using arg_cong [OF assms(2), of "map (\<lambda>n. mk_trace n TraceVerdict_Continue None [])"] by (simp add: comp_def)
  then have "evaluate_response p1 s a = evaluate_response p2 s b"
    using assms(1) by (simp add: evaluate_response_def response_loop_forwards)
  moreover obtain ro s' where "evaluate_response p2 s b = (ro, s')" by force
  moreover have "ro_action ro = Forward"
    using calculation(2) assms(1) by (auto simp: evaluate_response_def response_loop_forwards)
  ultimately show ?thesis
    using assms(3) by (simp add: handle_response_def Let_def emit_recorded_def emit_with_def PendingAudit_emit_def)
qed

text \<open>The upstream answers both requests alike.\<close>

definition answers_alike :: "('t, 'b) http_env \<Rightarrow> http_event list \<Rightarrow> http_event list \<Rightarrow> bool" where
  "answers_alike env evs1 evs2 \<longleftrightarrow>
    (\<exists>st1 ur1 st2 ur2. sends evs1 = [(st1, ur1)] \<and> sends evs2 = [(st2, ur2)] \<and> he_send env st1 ur1 = he_send env st2 ur2)"

lemma allowed_value_free:
  assumes "\<forall>t \<in> set p1 \<union> set p2. destination_keeper t" "map tr_name p1 = map tr_name p2" "similar a b"
    and run1: "handle_allowed env (rt\<lparr>rt_pipeline := p1\<rparr>) ctx pf is_ws a buffered over_cap rest r opened pending s = (reply1, evs1, pd1, s1)"
    and run2: "handle_allowed env (rt\<lparr>rt_pipeline := p2\<rparr>) ctx pf is_ws b buffered over_cap rest r opened pending s = (reply2, evs2, pd2, s2)"
    and alike: "answers_alike env evs1 evs2" and quiet: "emitted opened = []" "sends opened = []"
  shows "reply1 = reply2 \<and> map hide evs1 = map hide evs2 \<and> pd1 = pd2 \<and> s1 = s2"
proof -
  have dest: "rq_host a = rq_host b" "rq_port a = rq_port b" using assms(3) by (simp_all add: similar_def same_destination_def)
  obtain h p where hp: "unwrap_or (cn_forced_upstream ctx) (rq_host b, rq_port b) = (h, p)" by force
  obtain res des where dial: "connect_upstream (he_net env) pf h p (cn_scheme_https ctx) rt = (res, des)" by force
  let ?body = "\<lambda>x. if over_cap then Chained buffered rest else Buffered (bd_bytes (rq_body x))"
  let ?build = "\<lambda>x. build_upstream (he_hyper env) x (upstream_headers x is_ws over_cap) (?body x)"
  note def = handle_allowed_def Let_def hp dest dial quiet emit_recorded_def emit_with_def PendingAudit_emit_def
  have "sends evs1 \<noteq> []" "sends evs2 \<noteq> []" using alike by (auto simp: answers_alike_def)
  then obtain st ur1 ur2 where st: "res = Inr st" and ur: "?build a = Inr ur1" "?build b = Inr ur2"
    using run1 run2 by (auto simp: def split: sum.splits dial_error.splits)
  let ?send = "\<lambda>ur. send_upstream env st ur (rt_upstream_response_header_timeout rt)"
  let ?ev = "\<lambda>ur. opened @ Ev_Span (dial_span h p) # map Ev_Dial des @ [Ev_Span upstream_span, Ev_Send st ur]"
  have cont: "handle_allowed env (rt\<lparr>rt_pipeline := q\<rparr>) ctx pf is_ws x buffered over_cap rest r opened pending s =
      (case ?send ur of
         Inl msg \<Rightarrow> emit_recorded env pending (r\<lparr>ar_action := Error, ar_status_code := Some 502, ar_error := Some msg\<rparr>)
           (status_response 502) (?ev ur) s
       | Inr resp \<Rightarrow> handle_response env (rt\<lparr>rt_pipeline := q\<rparr>) is_ws st x r resp (?ev ur) pending s)"
    if "?build x = Inr ur" "rq_host x = rq_host b" "rq_port x = rq_port b" for q x ur
    using that by (simp add: handle_allowed_def hp dial st Let_def split: sum.split)
  have sent: "sends (fst (snd (handle_allowed env (rt\<lparr>rt_pipeline := q\<rparr>) ctx pf is_ws x buffered over_cap rest r opened pending s))) = [(st, ur)]"
    if "?build x = Inr ur" "rq_host x = rq_host b" "rq_port x = rq_port b" for q x ur
    using cont [OF that, of q] by (simp add: quiet split: sum.split)
  have "he_send env st ur1 = he_send env st ur2"
    using alike sent [OF ur(1) dest, of p1] sent [OF ur(2) refl refl, of p2] run1 run2 by (auto simp: answers_alike_def)
  then have same: "?send ur1 = ?send ur2" by (simp add: send_upstream_def)
  show ?thesis
  proof (cases "?send ur2")
    case (Inl msg)
    then show ?thesis
      using run1 run2 cont [OF ur(1) dest, of p1] cont [OF ur(2) refl refl, of p2] same
      by (auto simp: emit_recorded_def emit_with_def PendingAudit_emit_def)
  next
    case (Inr resp)
    then show ?thesis
      using run1 run2 cont [OF ur(1) dest, of p1] cont [OF ur(2) refl refl, of p2] same
        response_value_free [OF assms(1,2), of "?ev ur1" "?ev ur2" env rt is_ws st a r resp pending s b] quiet by auto
  qed
qed

text \<open>A runtime whose secret stands behind any transforms and before such that look at names and destinations only.\<close>

definition with_secret ::
  "('s, 't, 'c) runtime \<Rightarrow> 's pipeline \<Rightarrow> configured_secret \<Rightarrow> 's pipeline \<Rightarrow> 's resolver \<Rightarrow> ('s, 't, 'c) runtime" where
  "with_secret rt pre sec post r = rt\<lparr>rt_pipeline := pre @ Secrets r [sec] # post\<rparr>"

lemma secret_keepers:
  assumes "\<forall>t \<in> set pre \<union> set post. destination_keeper t"
  shows "\<forall>t \<in> set (pre @ Secrets r1 [sec] # post) \<union> set (pre @ Secrets r2 [sec] # post). destination_keeper t"
    and "map tr_name (pre @ Secrets r1 [sec] # post) = map tr_name (pre @ Secrets r2 [sec] # post)"
  using assms secrets.destination_keeper_axioms by (auto simp: Secrets_def)

lemma target_value_free:
  assumes "agree r1 r2 (cs_source sec)" "\<forall>t \<in> set post. value_blind t" "\<forall>t \<in> set pre \<union> set post. destination_keeper t"
    and run: "handle_target env (with_secret rt pre sec post r1) ctx req t pending s = (reply1, evs1, pd1, s1)"
      "handle_target env (with_secret rt pre sec post r2) ctx req t pending s = (reply2, evs2, pd2, s2)"
    and alike: "answers_alike env evs1 evs2"
  shows "reply1 = reply2 \<and> map hide evs1 = map hide evs2 \<and> pd1 = pd2 \<and> s1 = s2"
proof (cases "read_body (rt_max_request_body_bytes rt) [] (hr_frames req)")
  case None
  then show ?thesis using run by (simp add: handle_target_def with_secret_def split: if_splits)
next
  case (Some brs)
  then obtain bs oc rest where brs: "read_body (rt_max_request_body_bytes rt) [] (hr_frames req) = Some (bs, oc, rest)"
    by (cases brs) auto
  obtain po a b s' where ev: "evaluate_request (pre @ Secrets r1 [sec] # post) s (mk_summary ctx req t (rt_max_request_body_bytes rt) bs oc) = (po, a, s')"
      "evaluate_request (pre @ Secrets r2 [sec] # post) s (mk_summary ctx req t (rt_max_request_body_bytes rt) bs oc) = (po, b, s')"
    and sim: "similar a b"
    using evaluate_request_value_free [OF assms(1,2)] by blast
  have host: "rq_host a = rq_host b" using sim by (simp add: similar_def same_destination_def)
  show ?thesis
  proof (cases "\<not> has_dot_segment (tg_path t) \<and> is_allowed (po_outcome po)")
    case True
    then obtain pf where "po_outcome po = Outcome_Continue pf" by (cases "po_outcome po") auto
    then show ?thesis
      using run True brs ev host
      by (intro allowed_value_free [OF secret_keepers [OF assms(3)] sim _ _ alike,
            where opened = "[Ev_Span (request_span ctx req t)]"])
        (simp_all add: handle_target_def with_secret_def)
  next
    case False
    then show ?thesis
      using run brs ev host by (cases "po_outcome po") (auto simp: handle_target_def with_secret_def split: if_splits)
  qed
qed

lemma handler_value_free:
  assumes "agree r1 r2 (cs_source sec)" "\<forall>t \<in> set post. value_blind t" "\<forall>t \<in> set pre \<union> set post. destination_keeper t"
    and run: "handle env (with_secret rt pre sec post r1) ctx req s = (reply1, evs1, s1)"
      "handle env (with_secret rt pre sec post r2) ctx req s = (reply2, evs2, s2)"
    and alike: "answers_alike env evs1 evs2"
  shows "reply1 = reply2 \<and> map hide evs1 = map hide evs2 \<and> s1 = s2"
proof (cases "resolve_target (he_hyper env) req ctx")
  case (Inl e)
  then show ?thesis using run by (cases e) (simp add: handle_def)
next
  case (Inr t)
  let ?pd = "PendingAudit_new (Some (cn_remote_addr ctx))"
  obtain rp1 es1 pd1 t1 where h1: "handle_target env (with_secret rt pre sec post r1) ctx req t ?pd s = (rp1, es1, pd1, t1)"
    by (metis prod_cases4)
  obtain rp2 es2 pd2 t2 where h2: "handle_target env (with_secret rt pre sec post r2) ctx req t ?pd s = (rp2, es2, pd2, t2)"
    by (metis prod_cases4)
  have e: "evs1 = es1 @ map Ev_Emit (PendingAudit_drop pd1)" "evs2 = es2 @ map Ev_Emit (PendingAudit_drop pd2)"
    "reply1 = rp1" "reply2 = rp2" "s1 = t1" "s2 = t2"
    using run Inr h1 h2 by (simp_all add: handle_def)
  then have "answers_alike env es1 es2" using alike by (simp add: answers_alike_def)
  from target_value_free [OF assms(1-3) h1 h2 this] show ?thesis using e by simp
qed

lemma hide_metrics: "map hide evs = map hide evs' \<Longrightarrow> concat (map http_metrics evs) = concat (map http_metrics evs')"
proof -
  have "http_metrics (hide e) = http_metrics e" for e by (cases e) (simp_all add: hide_def)
  then have "concat (map http_metrics evs) = concat (map http_metrics (map hide evs))" for evs by (simp add: comp_def)
  then show "map hide evs = map hide evs' \<Longrightarrow> concat (map http_metrics evs) = concat (map http_metrics evs')" by metis
qed

section \<open>Properties\<close>

text \<open>
  C20. The value of a secret goes to the upstream and nowhere else: let two runtimes differ only in the value that is resolved
  for one secret, with any transforms before it and transforms that look at names and destinations after it. If both
  requests are sent and the upstream answers them alike, then the client's reply, the audit record, the
  metrics counted, the dial and all spans with their attributes are the same in both runs, and so is the state of the resolver.
\<close>

theorem secret_stays_out:
  assumes "agree r1 r2 (cs_source sec)" "\<forall>t \<in> set post. value_blind t" "\<forall>t \<in> set pre \<union> set post. destination_keeper t"
    and "handle env (with_secret rt pre sec post r1) ctx req s = (reply1, evs1, s1)"
    and "handle env (with_secret rt pre sec post r2) ctx req s = (reply2, evs2, s2)"
    and "answers_alike env evs1 evs2"
  shows "reply1 = reply2 \<and> emitted evs1 = emitted evs2 \<and> dial_events evs1 = dial_events evs2 \<and> s1 = s2 \<and>
    concat (map http_metrics evs1) = concat (map http_metrics evs2) \<and>
    created evs1 = created evs2 \<and> outcomes evs1 = outcomes evs2"
proof -
  have "reply1 = reply2" "s1 = s2" and h: "map hide evs1 = map hide evs2" using handler_value_free [OF assms] by simp_all
  then show ?thesis
    using hide_emitted [OF h] hide_metrics [OF h] by simp
qed

text \<open>A token in the query, and two values for it.\<close>

definition query_secret :: configured_secret where
  "query_secret = example_secret\<lparr>cs_proxy_value := ''1'', cs_match_query := True,
     cs_rules := [\<lparr>rl_host = Glob \<lparr>dg_suffix = ''a.b'', dg_wildcard = False\<rparr>, rl_methods = None, rl_paths = None\<rparr>]\<rparr>"

definition swapped_run :: "bytes \<Rightarrow> string reply \<times> http_event list \<times> unit" where
  "swapped_run v = handle test_env (with_secret test_rt (rt_pipeline test_rt) query_secret [] (example_resolver v))
     (http_ctx ''10.0.0.9:1'') test_request ()"

lemma swapped_uris:
  "map (ur_uri \<circ> snd) (sends (fst (snd (swapped_run ''one'')))) = [''/x?q=one'']"
  "map (ur_uri \<circ> snd) (sends (fst (snd (swapped_run ''two'')))) = [''/x?q=two'']"
  by code_simp+

theorem secret_stays_out_witness:
  "sends (fst (snd (swapped_run ''one''))) \<noteq> sends (fst (snd (swapped_run ''two''))) \<and>
   emitted (fst (snd (swapped_run ''one''))) = emitted (fst (snd (swapped_run ''two'')))"
proof -
  obtain reply1 evs1 s1 where run1: "swapped_run ''one'' = (reply1, evs1, s1)" by (cases "swapped_run ''one''")
  obtain reply2 evs2 s2 where run2: "swapped_run ''two'' = (reply2, evs2, s2)" by (cases "swapped_run ''two''")
  have uris: "map (ur_uri \<circ> snd) (sends evs1) = [''/x?q=one'']" "map (ur_uri \<circ> snd) (sends evs2) = [''/x?q=two'']"
    using swapped_uris unfolding run1 run2 by simp_all
  then have "length (sends evs1) = 1" "length (sends evs2) = 1" by (metis length_map length_Cons list.size(3) One_nat_def)+
  then have "answers_alike test_env evs1 evs2"
    by (auto simp: answers_alike_def test_env_def length_Suc_conv)
  moreover have "agree (example_resolver ''one'') (example_resolver ''two'') (cs_source query_secret)"
    by (simp add: agree_def example_resolver_def)
  moreover have "\<forall>t \<in> set (rt_pipeline test_rt) \<union> set []. destination_keeper t"
    by (simp add: test_rt_def allowlist.destination_keeper_axioms)
  ultimately have "emitted evs1 = emitted evs2"
    using secret_stays_out [OF _ _ _ run1 [unfolded swapped_run_def] run2 [unfolded swapped_run_def]] by simp
  moreover have "sends evs1 \<noteq> sends evs2" using uris by auto
  ultimately show ?thesis by (simp add: run1 run2)
qed

end
