(* ===== verification/Spans.thy ===== *)
theory Spans
  imports Http Kernel_Config
begin

text \<open>
  What the tracing spans of a request say. The handler creates the spans and records the outcome on the root at the
  places where the code does (\<open>http.rs\<close>); here the events of a run are compared with the audit record
  it emits.
\<close>

declare map_eq_Cons_D [rule del] Cons_eq_map_D [rule del]

section \<open>Spans of a run\<close>

text \<open>
  The events of a run up to its record: the root span first, then the span of the dial, if there is one, and that of the exchange with the
  upstream, if there is one; nothing is recorded on the root yet.
\<close>

definition spanned :: "span \<Rightarrow> http_event list \<Rightarrow> bool" where
  "spanned sp evs \<longleftrightarrow>
    outcomes evs = [] \<and> emitted evs = [] \<and>
    created evs = sp # map (\<lambda>(h, p). dial_span h p) (dial_targets (dial_events evs)) @ map (\<lambda>_. upstream_span) (sends evs)"

definition traced :: "span \<Rightarrow> ('b, 's) handled \<Rightarrow> bool" where
  "traced sp h \<longleftrightarrow>
    (\<exists>r evs. fst (snd h) = evs @ [Ev_Outcome (record_outcome r), Ev_Emit (r, level_for (ar_action r))] \<and> spanned sp evs)"

lemma traced_emit:
  "spanned sp events \<Longrightarrow> traced sp (emit_recorded env pending r reply events s)"
  unfolding traced_def emit_recorded_def emit_with_def PendingAudit_emit_def
  by (intro exI [of _ "r\<lparr>ar_duration_ms := he_elapsed env\<rparr>"] exI [of _ events]) (simp add: record_outcome_def)

lemma spanned_bridge: "spanned sp events \<Longrightarrow> spanned sp (events @ [Ev_Bridge st])"
  by (simp add: spanned_def)

lemma traced_response:
  "spanned sp events \<Longrightarrow> traced sp (handle_response env rt is_ws st summary r resp events pending s)"
  by (auto simp: handle_response_def Let_def traced_emit spanned_bridge split: prod.split response_action.split)

lemma traced_allowed:
  "traced sp (handle_allowed env rt ctx pf is_ws summary buffered over_cap rest r [Ev_Span sp] pending s)"
proof -
  obtain h p where hp: "unwrap_or (cn_forced_upstream ctx) (rq_host summary, rq_port summary) = (h, p)" by force
  obtain res des where dial: "connect_upstream (he_net env) pf h p (cn_scheme_https ctx) rt = (res, des)" by force
  have "dial_targets des = [(h, p)]" using connect_upstream_spec(4) [OF dial] .
  then have "spanned sp (Ev_Span sp # Ev_Span (dial_span h p) # map Ev_Dial des)"
    "spanned sp (Ev_Span sp # Ev_Span (dial_span h p) # map Ev_Dial des @ [Ev_Span upstream_span, Ev_Send st ur])" for st ur
    by (simp_all add: spanned_def)
  then show ?thesis using hp dial
    by (auto simp: handle_allowed_def Let_def traced_emit traced_response split: sum.split dial_error.split)
qed

lemma traced_target:
  assumes "\<not> has_dot_segment (tg_path t)"
  shows "traced (request_span ctx req t) (handle_target env rt ctx req t pending s)"
proof -
  have "spanned sp [Ev_Span sp]" for sp by (simp add: spanned_def)
  with assms show ?thesis
    by (auto simp: handle_target_def Let_def traced_emit traced_allowed split: option.split prod.split outcome.split)
qed

text \<open>A request that is refused for its target or its path has no span.\<close>

lemma handle_refused:
  assumes "handle env rt ctx req s = (reply, evs, s')"
    and "case resolve_target (he_hyper env) req ctx of Inl _ \<Rightarrow> True | Inr t \<Rightarrow> has_dot_segment (tg_path t)"
  shows "created evs = [] \<and> outcomes evs = [] \<and> dial_events evs = [] \<and> sends evs = []"
  using assms
  by (auto simp: handle_def handle_target_def emit_with_def PendingAudit_emit_def Let_def split: sum.splits target_error.splits)

lemma handle_traced:
  assumes "handle env rt ctx req s = (reply, evs, s')" "resolve_target (he_hyper env) req ctx = Inr t"
    and "\<not> has_dot_segment (tg_path t)"
  shows "traced (request_span ctx req t) (reply, evs, p, s')"
proof -
  let ?p = "PendingAudit_new (Some (cn_remote_addr ctx))"
  obtain rp es p s1 where h: "handle_target env rt ctx req t ?p s = (rp, es, p, s1)" by (metis prod_cases4)
  have "recorded (truthful ctx req) (handle_target env rt ctx req t ?p s)" by (rule handle_target_truthful)
  then have "PendingAudit_drop p = []" using h by (auto simp: recorded_def PendingAudit_drop_def)
  then have "evs = es" using assms(1,2) h by (simp add: handle_def)
  with traced_target [OF assms(3), of ctx req env rt ?p s] h show ?thesis by (simp add: traced_def)
qed

section \<open>Host and path of the record\<close>

definition names :: "string \<Rightarrow> string \<Rightarrow> http_event list \<Rightarrow> bool" where
  "names host path evs \<longleftrightarrow> (\<forall>(r, lv) \<in> set (emitted evs). ar_host r = host \<and> ar_path r = path)"

lemma names_emit_with:
  assumes "ar_host r = host" "ar_path r = path" "emitted events = []"
  shows "names host path (fst (snd (emit_with env pending r reply events s)))"
  using assms by (simp add: names_def emit_with_def PendingAudit_emit_def)

lemma names_recorded:
  assumes "ar_host r = host" "ar_path r = path" "emitted events = []"
  shows "names host path (fst (snd (emit_recorded env pending r reply events s)))"
  unfolding emit_recorded_def using assms by (intro names_emit_with) simp_all

lemma names_response:
  assumes "ar_host r = host" "ar_path r = path" "emitted events = []"
  shows "names host path (fst (snd (handle_response env rt is_ws st summary r resp events pending s)))"
  using assms
  by (auto simp: handle_response_def Let_def intro!: names_recorded split: prod.split response_action.split)

lemma names_allowed:
  assumes "ar_host r = host" "ar_path r = path" "emitted events0 = []"
  shows "names host path (fst (snd (handle_allowed env rt ctx pf is_ws summary buffered over_cap rest r events0 pending s)))"
  using assms
  by (auto simp: handle_allowed_def Let_def intro!: names_recorded names_response
      split: prod.split sum.split dial_error.split)

lemma names_target:
  assumes "\<forall>tr \<in> set (rt_pipeline rt). destination_keeper tr"
  shows "names (tg_host t) (tg_path t) (fst (snd (handle_target env rt ctx req t pending s)))"
proof (cases "read_body (rt_max_request_body_bytes rt) [] (hr_frames req)")
  case None
  then show ?thesis by (auto simp: handle_target_def base_record_def Let_def intro!: names_emit_with names_recorded)
next
  case (Some brs)
  then obtain b oc rest where brs: "read_body (rt_max_request_body_bytes rt) [] (hr_frames req) = Some (b, oc, rest)"
    by (cases brs) auto
  obtain po summary s' where run: "evaluate_request (rt_pipeline rt) s
      (mk_summary ctx req t (rt_max_request_body_bytes rt) b oc) = (po, summary, s')" by (metis prod_cases3)
  have "rq_host summary = tg_host t" using evaluate_request_keeps [OF run assms] by (simp add: same_destination_def mk_summary_def)
  moreover have "po_request_path po = tg_path t"
    using run by (auto simp: evaluate_request_def mk_summary_def Let_def split: prod.splits)
  ultimately show ?thesis
    using brs run
    by (auto simp: handle_target_def base_record_def Let_def intro!: names_emit_with names_recorded names_allowed split: outcome.split)
qed

lemma names_handle:
  assumes "\<forall>tr \<in> set (rt_pipeline rt). destination_keeper tr" "resolve_target (he_hyper env) req ctx = Inr t"
    and "handle env rt ctx req s = (reply, evs, s')" "map fst (emitted evs) = [r]"
  shows "ar_host r = tg_host t \<and> ar_path r = tg_path t"
proof -
  let ?p = "PendingAudit_new (Some (cn_remote_addr ctx))"
  obtain rp es p s1 where h: "handle_target env rt ctx req t ?p s = (rp, es, p, s1)" by (metis prod_cases4)
  have "recorded (truthful ctx req) (handle_target env rt ctx req t ?p s)" by (rule handle_target_truthful)
  then have "PendingAudit_drop p = []" using h by (auto simp: recorded_def PendingAudit_drop_def)
  then have "evs = es" using assms(2,3) h by (simp add: handle_def)
  moreover have "r \<in> fst ` set (emitted evs)" using assms(4) by (metis list.set_intros(1) list.set_map)
  ultimately show ?thesis using names_target [OF assms(1), of t env ctx req ?p s] h by (auto simp: names_def)
qed

section \<open>Properties\<close>

text \<open>The attributes a root span may have, read off the record.\<close>

definition mirrored :: "u16 \<Rightarrow> audit_record \<Rightarrow> string \<rightharpoonup> attribute" where
  "mirrored port r =
    [''method'' \<mapsto> Attr_Str (ar_method r), ''host'' \<mapsto> Attr_Str (ar_host r), ''port'' \<mapsto> Attr_Int (unat port),
     ''path'' \<mapsto> Attr_Str (ar_path r), ''mode'' \<mapsto> Attr_Mode (ar_mode r), ''action'' \<mapsto> Attr_Action (ar_action r)]
    (''rejected_by'' := map_option Attr_Str (ar_rejected_by r),
     ''status'' := map_option (\<lambda>c. Attr_Int (unat c)) (ar_status_code r))"


definition test_built :: "config_error + unit built_pipeline" where
  "test_built = build_pipeline_inner object_decoders no_regex [\<lparr>ts_name = ''allowlist'', ts_config = allowlist_json [''a.b'']\<rparr>] None"

definition traced_rt :: "(unit, unit, unit) runtime" where
  "traced_rt = test_rt\<lparr>rt_pipeline := (case test_built of Inr b \<Rightarrow> bu_pipeline b | Inl _ \<Rightarrow> [])\<rparr>"

definition traced_run :: "string reply \<times> http_event list \<times> unit" where
  "traced_run = handle test_env traced_rt (http_ctx ''10.0.0.9:1'') test_request ()"

lemma traced_names: "map sp_name (created (fst (snd traced_run))) = [''hematite.request'', ''dial'', ''upstream'']"
  by code_simp


end
