(* ===== verification/Conformance.thy ===== *)
theory Conformance
  imports Kernel_Config Kernel_Audit Hop
begin

text \<open>
  The conformance vectors of the specification, \<open>spec/vectors\<close>, with the runners that the crates' tests
  (\<open>tests/conformance_*.rs\<close>) apply them with: the matchers, hop-by-hop stripping, the secret swap and the
  decision traces. The vectors are run on the model; the decoders of JSON are those of \<^const>\<open>object_decoders\<close>.
\<close>

declare map_eq_Cons_D [rule del] Cons_eq_map_D [rule del]

section \<open>Matching\<close>

text \<open>A row without an expectation is one that must not load.\<close>

type_synonym match_row = "string \<times> (string \<times> bool) option"

definition row_holds :: "(string \<Rightarrow> 'e + 'm) \<Rightarrow> ('m \<Rightarrow> string \<Rightarrow> bool) \<Rightarrow> match_row \<Rightarrow> bool" where
  "row_holds parse matches row =
    (case row of
       (pattern, None) \<Rightarrow> (case parse pattern of Inl _ \<Rightarrow> True | Inr _ \<Rightarrow> False)
     | (pattern, Some (input, want)) \<Rightarrow> (case parse pattern of Inl _ \<Rightarrow> False | Inr m \<Rightarrow> matches m input = want))"

definition domain_globs :: "match_row list" where
  "domain_globs =
    [(''example.com'', Some (''example.com'', True)),
     (''example.com'', Some (''a.example.com'', False)),
     (''*.example.com'', Some (''example.com'', True)),
     (''*.example.com'', Some (''a.example.com'', True)),
     (''*.example.com'', Some (''a.b.example.com'', True)),
     (''*.example.com'', Some (''notexample.com'', False)),
     (''*.example.com'', Some (''example.com.evil.io'', False)),
     (''*.EXAMPLE.com'', Some (''foo.example.COM'', True)),
     (''ex*.com'', None)]"

definition cidrs :: "match_row list" where
  "cidrs =
    [(''10.0.0.0/8'', Some (''10.1.2.3'', True)),
     (''10.0.0.0/8'', Some (''11.0.0.1'', False)),
     (''10.0.0.0/8'', Some (''internal.corp'', False)),
     (''169.254.169.254/32'', Some (''169.254.169.254'', True)),
     (''169.254.169.254/32'', Some (''::ffff:169.254.169.254'', True)),
     (''127.0.0.0/8'', Some (''::ffff:127.0.0.1'', True)),
     (''10.0.0.0/8'', Some (''::ffff:11.0.0.1'', False)),
     (''::1/128'', Some (''::1'', True)),
     (''10.0.0.1'', None)]"

definition path_globs :: "match_row list" where
  "path_globs =
    [(''/v1/*'', Some (''/v1/messages'', True)),
     (''/v1/*'', Some (''/v1/a/b'', True)),
     (''/v1/*'', Some (''/v2/messages'', False)),
     (''/v1/messages'', Some (''/v1/Messages'', False)),
     (''/bot*/send'', Some (''/bot123/send'', True))]"

definition header_names :: "match_row list" where
  "header_names =
    [(''Authorization'', Some (''authorization'', True)),
     (''/^x-.*-key$/'', Some (''X-Api-Key'', True)),
     (''/^x-.*-key$/'', Some (''X-Api-Keys'', False))]"

text \<open>The expressions of the vectors are all of the form \<open>^a.*b$\<close>, which matches what begins with \<open>a\<close> and ends with \<open>b\<close>.\<close>

definition anchored :: regex_builder where
  "anchored re =
    (case find_sub ''.*'' re of
       None \<Rightarrow> Inl ''unsupported''
     | Some i \<Rightarrow>
         (let a = tl (take i re); b = butlast (drop (i + 2) re)
          in Inr (\<lambda>s. prefix a s \<and> suffix b s \<and> length a + length b \<le> length s)))"

section \<open>Hop-by-hop headers\<close>

text \<open>The headers, whether they are those of a valid WebSocket handshake, and what is forwarded.\<close>

definition hop_by_hop :: "(headers \<times> bool \<times> headers) list" where
  "hop_by_hop =
    [([(''Connection'', ''keep-alive'')], False, []),
     ([(''Connection'', ''close, X-Custom''), (''X-Custom'', ''1'')], False, []),
     ([(''TE'', ''trailers'')], False, [(''TE'', ''trailers'')]),
     ([(''TE'', ''gzip, trailers'')], False, [(''TE'', ''trailers'')]),
     ([(''Transfer-Encoding'', ''chunked'')], False, []),
     ([(''Proxy-Authorization'', ''Basic Zm9vOmJhcg=='')], False, []),
     ([(''Upgrade'', ''websocket'')], True, [(''Upgrade'', ''websocket'')])]"

section \<open>The secret swap\<close>

text \<open>The stub resolver: a map from the names of sources to values, and names that fail.\<close>

definition MapResolver :: "(string \<times> bytes) list \<Rightarrow> string list \<Rightarrow> unit resolver" where
  "MapResolver m failing s source =
    (let name = SourceRef_name source
     in if name \<in> set failing then (Inl \<lparr>re_source = source, re_reason = [Lit ''stubbed failure'']\<rparr>, s)
        else (case map_of m name of
                Some v \<Rightarrow> (Inr (Secret v), s)
              | None \<Rightarrow> (Inl \<lparr>re_source = source, re_reason = [Lit ''not in stub map'']\<rparr>, s)))"

record swap_case =
  sw_fails :: bool
  sw_secret :: json_map
  sw_request :: request_summary
  sw_continue :: bool
  sw_headers :: "headers option"
  sw_query :: "string option"
  sw_path :: "string option"
  sw_body :: "string option"
  sw_annotations :: json_map

definition summary_from :: "string \<Rightarrow> string \<Rightarrow> string \<Rightarrow> headers \<Rightarrow> string \<Rightarrow> request_summary" where
  "summary_from meth path query headers body =
    \<lparr>rq_mode = Https, rq_method = meth, rq_host = ''api.example.com'', rq_port = 443, rq_path = path, rq_query = query,
     rq_headers = headers, rq_body = \<lparr>bd_bytes = body, bd_over_cap = False\<rparr>, rq_sni = None, rq_remote_addr = None\<rparr>"

definition swap_secret :: "string list \<Rightarrow> json_map \<Rightarrow> bool \<Rightarrow> json_map" where
  "swap_secret match_headers extra required =
    [(''source'', JObject [(''type'', JString ''env''), (''var'', JString ''OPENAI_API_KEY'')]),
     (''proxy_value'', JString ''proxy-tok''), (''match_headers'', json_strings match_headers)] @ extra @
    [(''require'', JBool required), (''rules'', JArray [JObject [(''host'', JString ''api.example.com'')]])]"

definition swapped_at :: "string list \<Rightarrow> json_map" where
  "swapped_at locations =
    [(''swapped'', JArray [JObject [(''locations'', json_strings locations), (''secret'', JString ''OPENAI_API_KEY'')]])]"

definition no_expectation :: swap_case where
  "no_expectation =
    \<lparr>sw_fails = False, sw_secret = swap_secret [''Authorization''] [] False,
     sw_request = summary_from ''GET'' ''/'' [] [] [], sw_continue = True, sw_headers = None, sw_query = None,
     sw_path = None, sw_body = None, sw_annotations = []\<rparr>"

definition secrets_swap :: "swap_case list" where
  \<open>secrets_swap =
    [no_expectation
       \<lparr>sw_request := summary_from ''GET'' ''/'' [] [(''Authorization'', ''Bearer proxy-tok'')] [],
        sw_headers := Some [(''Authorization'', ''Bearer sk-real'')], sw_annotations := swapped_at [''header:Authorization'']\<rparr>,
     no_expectation
       \<lparr>sw_request := summary_from ''GET'' ''/'' [] [(''Authorization'', ''Basic cHJveHktdG9rOng='')] [],
        sw_headers := Some [(''Authorization'', ''Basic c2stcmVhbDp4'')], sw_annotations := swapped_at [''header:Authorization'']\<rparr>,
     no_expectation
       \<lparr>sw_secret := swap_secret [] [] False,
        sw_request := summary_from ''GET'' ''/'' [] [(''X-A'', ''proxy-tok''), (''X-B'', ''say-proxy-tok-twice-proxy-tok'')] [],
        sw_headers := Some [(''X-A'', ''sk-real''), (''X-B'', ''say-sk-real-twice-sk-real'')],
        sw_annotations := swapped_at [''header:X-A'', ''header:X-B'']\<rparr>,
     no_expectation
       \<lparr>sw_secret := swap_secret [''Authorization''] [(''match_query'', JBool True)] False,
        sw_request := summary_from ''GET'' ''/'' ''token=proxy-tok&q=hi'' [] [],
        sw_query := Some ''token=sk-real&q=hi'', sw_annotations := swapped_at [''query'']\<rparr>,
     no_expectation
       \<lparr>sw_secret := swap_secret [''Authorization''] [(''match_path'', JBool True)] False,
        sw_request := summary_from ''POST'' ''/botproxy-tok/send'' [] [] [],
        sw_path := Some ''/botsk-real/send'', sw_annotations := swapped_at [''path'']\<rparr>,
     no_expectation
       \<lparr>sw_secret := swap_secret [''Authorization''] [(''match_body'', JBool True)] False,
        sw_request := summary_from ''POST'' ''/'' [] [(''Content-Type'', ''application/json'')] ''{"key":"proxy-tok"}'',
        sw_body := Some ''{"key":"sk-real"}'', sw_annotations := swapped_at [''body'']\<rparr>,
     no_expectation
       \<lparr>sw_secret := swap_secret [''Authorization''] [] True,
        sw_request := summary_from ''GET'' ''/'' [] [(''Authorization'', ''Bearer something-else'')] [],
        sw_continue := False\<rparr>,
     no_expectation
       \<lparr>sw_fails := True,
        sw_request := summary_from ''GET'' ''/'' [] [(''Authorization'', ''Bearer proxy-tok'')] [],
        sw_headers := Some [(''Authorization'', ''Bearer proxy-tok'')],
        sw_annotations := [(''secret_unavailable'', json_strings [''OPENAI_API_KEY''])]\<rparr>]\<close>

text \<open>Every string in a value: where a resolved secret would show in its serialisation.\<close>

fun texts :: "json \<Rightarrow> string list" where
  "texts (JString s) = [s]"
| "texts (JLiteral s) = [s]"
| "texts (JArray vs) = concat (map texts vs)"
| "texts (JObject kvs) = concat (map (\<lambda>(k, v). k # texts v) kvs)"
| "texts _ = []"

definition expected :: "'v option \<Rightarrow> 'v \<Rightarrow> bool" where
  "expected want got = (case want of None \<Rightarrow> True | Some v \<Rightarrow> got = v)"

definition swap_case_holds :: "swap_case \<Rightarrow> bool" where
  "swap_case_holds c =
    (let resolver = MapResolver [(''OPENAI_API_KEY'', ''sk-real'')] (if sw_fails c then [''OPENAI_API_KEY''] else []);
         specs = [\<lparr>ts_name = ''allowlist'', ts_config = JObject [(''domains'', json_strings [rq_host (sw_request c)])]\<rparr>,
                  \<lparr>ts_name = ''secrets'', ts_config = JObject [(''secrets'', JArray [JObject (sw_secret c)])]\<rparr>]
     in case build_pipeline_with_resolver object_decoders anchored specs resolver of
          Inl _ \<Rightarrow> False
        | Inr built \<Rightarrow>
            (let (outcome, summary, _) = evaluate_request (bu_pipeline built) () (sw_request c)
             in case find (\<lambda>t. t_name t = ''secrets'') (po_request_traces outcome) of
                  None \<Rightarrow> False
                | Some trace \<Rightarrow>
                    if \<not> sw_continue c then
                      (case po_outcome outcome of Outcome_Reject _ _ \<Rightarrow> t_verdict trace = TraceVerdict_Reject | _ \<Rightarrow> False)
                    else
                      (case po_outcome outcome of Outcome_Continue _ \<Rightarrow> True | _ \<Rightarrow> False) \<and>
                      expected (sw_headers c) (rq_headers summary) \<and> expected (sw_query c) (rq_query summary) \<and>
                      expected (sw_path c) (rq_path summary) \<and> expected (sw_body c) (bd_bytes (rq_body summary)) \<and>
                      t_annotations trace = sw_annotations c \<and>
                      \<not> list_ex (contains ''sk-real'') (texts (JObject (t_annotations trace)))))"

section \<open>Decision traces\<close>

definition allowlist_vector :: transform_spec where
  "allowlist_vector =
    \<lparr>ts_name = ''allowlist'',
     ts_config = JObject [(''domains'', json_strings [''httpbin.org'', ''*.anthropic.com'']), (''cidrs'', json_strings [''172.20.0.0/24''])]\<rparr>"

definition annotate_vector :: transform_spec where
  "annotate_vector =
    \<lparr>ts_name = ''annotate'',
     ts_config = JObject [(''annotations'', JArray [JObject
       [(''rules'', JArray [JObject [(''host'', JString ''httpbin.org'')]]), (''headers'', json_strings [''x-request-id''])]])]\<rparr>"

definition body_capture_vector :: transform_spec where
  "body_capture_vector =
    \<lparr>ts_name = ''body_capture'',
     ts_config = JObject
       [(''max_request_body_bytes'', JNumber 16384),
        (''rules'', JArray [JObject [(''host'', JString ''httpbin.org''), (''methods'', json_strings [''POST'']),
                                 (''paths'', json_strings [''/anything*''])]])]\<rparr>"

definition secrets_vector :: transform_spec where
  "secrets_vector =
    \<lparr>ts_name = ''secrets'',
     ts_config = JObject [(''secrets'', JArray
       [JObject [(''source'', JObject [(''type'', JString ''env''), (''var'', JString ''OPENAI_API_KEY'')]),
                 (''proxy_value'', JString ''proxy-openai-abc123''), (''match_headers'', json_strings [''Authorization'']),
                 (''require'', JBool True),
                 (''rules'', JArray [JObject [(''host'', JString ''httpbin.org''), (''paths'', json_strings [''/headers''])]])],
        JObject [(''source'', JObject [(''type'', JString ''file''), (''path'', JString ''/run/secrets/internal-token''),
                                    (''ttl'', JString ''5m'')]),
                 (''proxy_value'', JString ''proxy-internal-tok''), (''match_headers'', JArray []),
                 (''rules'', JArray [JObject [(''host'', JString ''httpbin.org'')]])]])]\<rparr>"

definition header_allowlist_vector :: transform_spec where
  "header_allowlist_vector =
    \<lparr>ts_name = ''header_allowlist'',
     ts_config = JObject
       [(''headers'', json_strings [''Authorization'', ''Content-Type'', ''User-Agent'', ''Accept'', ''Host'', ''/^x-request-.*$/'']),
        (''rules'', JArray [JObject [(''host'', JString ''httpbin.org'')]])]\<rparr>"

text \<open>The run of a case: with a resolver when the vector has one.\<close>

definition run_case :: "transform_spec list \<Rightarrow> unit resolver option \<Rightarrow> request_summary \<Rightarrow> audit_record option" where
  "run_case specs resolver summary =
    (case (case resolver of
             Some r \<Rightarrow> build_pipeline_with_resolver object_decoders anchored specs r
           | None \<Rightarrow> build_pipeline object_decoders anchored specs) of
       Inl _ \<Rightarrow> None
     | Inr built \<Rightarrow>
         (let (outcome, summary', _) = evaluate_request (bu_pipeline built) () summary
          in Some (conformance_record summary' outcome)))"

definition vector_summary :: "string \<Rightarrow> string \<Rightarrow> headers \<Rightarrow> request_summary" where
  "vector_summary host path headers =
    \<lparr>rq_mode = Https, rq_method = ''GET'', rq_host = host, rq_port = 443, rq_path = path, rq_query = [], rq_headers = headers,
     rq_body = \<lparr>bd_bytes = [], bd_over_cap = False\<rparr>, rq_sni = Some host, rq_remote_addr = None\<rparr>"

definition vector_record :: "string \<Rightarrow> string \<Rightarrow> trace list \<Rightarrow> audit_record" where
  "vector_record host path traces =
    \<lparr>ar_host = host, ar_method = ''GET'', ar_path = path, ar_remote_addr = None, ar_sni = Some host, ar_mode = Https,
     ar_action = Allow, ar_status_code = None, ar_duration_ms = 0, ar_rejected_by = None, ar_stubbed_by = None, ar_error = None,
     ar_request_transforms = traces, ar_response_transforms = [], ar_tunnel = None, ar_guard = None, ar_body_capture = None\<rparr>"

definition reject_l0 :: bool where
  "reject_l0 \<longleftrightarrow>
    run_case [allowlist_vector, annotate_vector, body_capture_vector, header_allowlist_vector] None
      (vector_summary ''example.com'' ''/'' [(''Host'', ''example.com'')]) =
    Some ((vector_record ''example.com'' ''/'' [mk_trace ''allowlist'' TraceVerdict_Reject None []])
      \<lparr>ar_action := Reject, ar_rejected_by := Some ''allowlist'', ar_status_code := Some 403\<rparr>)"

definition full_pipeline_l3 :: bool where
  "full_pipeline_l3 \<longleftrightarrow>
    run_case [allowlist_vector, annotate_vector, body_capture_vector, secrets_vector, header_allowlist_vector]
      (Some (MapResolver [(''OPENAI_API_KEY'', ''sk-real''), (''/run/secrets/internal-token'', ''internal-real'')] []))
      (vector_summary ''httpbin.org'' ''/headers'' [(''Host'', ''httpbin.org''), (''Authorization'', ''Bearer proxy-openai-abc123'')]) =
    Some (vector_record ''httpbin.org'' ''/headers''
      [mk_trace ''allowlist'' TraceVerdict_Continue None [], mk_trace ''annotate'' TraceVerdict_Continue None [],
       mk_trace ''body_capture'' TraceVerdict_Continue None [],
       mk_trace ''secrets'' TraceVerdict_Continue None (swapped_at [''header:Authorization'']),
       mk_trace ''header_allowlist'' TraceVerdict_Continue None []])"

section \<open>Properties\<close>

lemma matching_pass:
  "list_all (row_holds DomainGlob_parse DomainGlob_matches) domain_globs"
  "list_all (row_holds Cidr_parse Cidr_matches_host) cidrs"
  "list_all (row_holds PathGlob_parse PathGlob_matches) path_globs"
  "list_all (row_holds (\<lambda>e. HeaderNameEntry_parse anchored e True) HeaderNameEntry_matches) header_names"
  by code_simp+

lemma hop_by_hop_pass: "list_all (\<lambda>(input, websocket, forwarded). strip_hop_by_hop input websocket = forwarded) hop_by_hop"
  by code_simp

lemma secrets_swap_pass: "list_all swap_case_holds secrets_swap"
  by code_simp

lemma decision_traces_pass: reject_l0 full_pipeline_l3
  by code_simp+

end
