(* ===== verification/Unit_Tests.thy ===== *)
theory Unit_Tests
  imports Tunnel_Wire Dns_Server Proxy_Metrics
begin

text \<open>
  The unit tests that stand beside the code, in the \<open>tests\<close> modules of \<open>codec.rs\<close>, \<open>tunnel.rs\<close>, \<open>wire.rs\<close>, \<open>resolve.rs\<close>
  and \<open>metrics.rs\<close>, as predicates on the model with the names they have there. That they hold says of the
  model what the program's own tests say of the program.
\<close>

declare map_eq_Cons_D [rule del] Cons_eq_map_D [rule del]

section \<open>Codecs\<close>

definition base64_roundtrip_and_known_vectors :: bool where
  "base64_roundtrip_and_known_vectors \<longleftrightarrow>
    base64_encode ''proxy-tok:x'' = ''cHJveHktdG9rOng='' \<and>
    base64_decode ''cHJveHktdG9rOng='' = Some ''proxy-tok:x'' \<and>
    base64_encode ''sk-real:x'' = ''c2stcmVhbDp4'' \<and>
    list_all (\<lambda>s. base64_decode (base64_encode s) = Some s)
      [[], ''f'', ''fo'', ''foo'', ''foob'', ''fooba'', ''foobar''] \<and>
    base64_decode ''not base64!!'' = None \<and> base64_decode ''abc'' = None"

definition percent_encode_unreserved_and_reserved :: bool where
  "percent_encode_unreserved_and_reserved \<longleftrightarrow>
    percent_encode ''sk-real'' = ''sk-real'' \<and> percent_encode ''a/b c'' = ''a%2Fb%20c'' \<and>
    percent_encode ''tok+en='' = ''tok%2Ben%3D''"

definition replace_all_counts_and_rewrites :: bool where
  "replace_all_counts_and_rewrites \<longleftrightarrow>
    replace_all ''aXbXc'' ''X'' ''Y'' = (''aYbYc'', 2) \<and> replace_all ''none'' ''X'' ''Y'' = (''none'', 0) \<and>
    replace_all ''abc'' [] ''Y'' = (''abc'', 0)"

section \<open>Tunnels\<close>

definition dispatch_first_byte :: bool where
  "dispatch_first_byte \<longleftrightarrow>
    dispatch CHR 0x05 = Client_Socks5 \<and> dispatch CHR ''C'' = Client_Http \<and> dispatch CHR ''G'' = Client_Http \<and>
    dispatch CHR 0x16 = Client_Unknown"

abbreviation crlf :: string where
  "crlf \<equiv> [CHR 0x0D, CHR 0x0A]"

definition connect_parsing :: bool where
  "connect_parsing \<longleftrightarrow>
    parse_connect (''CONNECT api.example.com:443 HTTP/1.1'' @ crlf @ ''Host: x'' @ crlf @ crlf) =
      Some \<lparr>ct_host = ''api.example.com'', ct_port = 443\<rparr> \<and>
    parse_connect (''CONNECT api.example.com HTTP/1.1'' @ crlf @ crlf) = Some \<lparr>ct_host = ''api.example.com'', ct_port = 443\<rparr> \<and>
    parse_connect (''CONNECT [2001:db8::1]:8443 HTTP/1.1'' @ crlf @ crlf) = Some \<lparr>ct_host = ''2001:db8::1'', ct_port = 8443\<rparr> \<and>
    parse_connect (''GET / HTTP/1.1'' @ crlf @ crlf) = None"

definition socks5_method_selection :: bool where
  "socks5_method_selection \<longleftrightarrow>
    parse_socks5_methods [CHR 0x01, CHR 0x00] = Some NoAuth \<and> parse_socks5_methods [CHR 0x01, CHR 0x02] = Some Unacceptable"

definition socks5_request_ipv4_domain_ipv6 :: bool where
  "socks5_request_ipv4_domain_ipv6 \<longleftrightarrow>
    (let host = ''api.example.com''; v4 = [CHR 0x00, CHR 0x01, CHR 0x0A, CHR 0x00, CHR 0x00, CHR 0x05, CHR 0x01, CHR 0xBB]
     in parse_socks5_request ([CHR 0x05, CHR 0x01] @ v4) = Inr \<lparr>ct_host = ''10.0.0.5'', ct_port = 443\<rparr> \<and>
        parse_socks5_request ([CHR 0x05, CHR 0x01, CHR 0x00, CHR 0x03, char_of (length host)] @ host @ be16 443) =
          Inr \<lparr>ct_host = ''api.example.com'', ct_port = 443\<rparr> \<and>
        parse_socks5_request ([CHR 0x05, CHR 0x02] @ v4) = Inl CommandNotSupported \<and>
        parse_socks5_request [CHR 0x05, CHR 0x01, CHR 0x00, CHR 0x09, CHR 0x00, CHR 0x00] = Inl AddressNotSupported)"

definition inner_sniff :: bool where
  "inner_sniff \<longleftrightarrow>
    sniff_inner CHR 0x16 = Inner_Tls \<and> sniff_inner CHR ''G'' = Inner_Http \<and> sniff_inner CHR 0x05 = Inner_Unknown"

text \<open>The minimal ClientHello the tests build, with or without a name.\<close>

definition client_hello :: "string option \<Rightarrow> bytes" where
  "client_hello sni =
    (let ext = (case sni of
                  None \<Rightarrow> []
                | Some n \<Rightarrow>
                    (let sni_ext = be16 (of_nat (length n + 3)) @ [CHR 0x00] @ be16 (of_nat (length n)) @ n
                     in be16 0 @ be16 (of_nat (length sni_ext)) @ sni_ext));
         body = [CHR 0x03, CHR 0x03] @ replicate 32 (CHR 0x00) @ [CHR 0x00] @ be16 2 @ [CHR 0x13, CHR 0x01] @ [CHR 0x01, CHR 0x00]
           @ be16 (of_nat (length ext)) @ ext;
         hs = CHR 0x01 # tl (be32 (of_nat (length body))) @ body
     in [CHR 0x16, CHR 0x03, CHR 0x01] @ be16 (of_nat (length hs)) @ hs)"

definition sni_scan_extracts_name :: bool where
  "sni_scan_extracts_name \<longleftrightarrow> scan_client_hello_sni (client_hello (Some ''Upstream.TEST'')) = Sni ''upstream.test''"

definition sni_scan_no_extension_is_nosni :: bool where
  "sni_scan_no_extension_is_nosni \<longleftrightarrow> scan_client_hello_sni (client_hello None) = NoSni"

definition sni_scan_partial_record_is_incomplete :: bool where
  "sni_scan_partial_record_is_incomplete \<longleftrightarrow>
    (let hello = client_hello (Some ''a.test'')
     in scan_client_hello_sni (take 3 hello) = Incomplete \<and> scan_client_hello_sni (butlast hello) = Incomplete)"

definition sni_scan_non_tls_is_rejected :: bool where
  "sni_scan_non_tls_is_rejected \<longleftrightarrow> scan_client_hello_sni (''GET / HTTP/1.1'' @ crlf) = NotTls"

section \<open>DNS\<close>

definition query_packet :: "u16 \<Rightarrow> string \<Rightarrow> u16 \<Rightarrow> bytes" where
  "query_packet qid name qtype =
    [byte_of (drop_bit 8 qid), byte_of qid, CHR 0x01, CHR 0x00, CHR 0x00, CHR 0x01, CHR 0x00, CHR 0x00, CHR 0x00, CHR 0x00, CHR 0x00, CHR 0x00]
    @ encode_name name @ be16 qtype @ be16 CLASS_IN"

abbreviation bits :: "byte \<Rightarrow> u16" where
  "bits b \<equiv> word_of b"

definition roundtrip_question :: bool where
  "roundtrip_question \<longleftrightarrow>
    (case parse_query (query_packet 0x1234 ''API.Example.com'' TYPE_A) of
       None \<Rightarrow> False
     | Some q \<Rightarrow> dq_id q = 0x1234 \<and> dq_name q = ''api.example.com'' \<and> dq_qtype q = TYPE_A \<and> dq_rd q)"

definition a_response_shape :: bool where
  "a_response_shape \<longleftrightarrow>
    (case parse_query (query_packet 1 ''x.test'' TYPE_A) of
       None \<Rightarrow> False
     | Some q \<Rightarrow>
         (let resp = build_response q [Answer_A 0x0A000005 60] True
          in bits (resp ! 2) AND 0x80 = 0x80 \<and> bits (resp ! 2) AND 0x04 = 0x04 \<and> from_be16 (resp ! 6) (resp ! 7) = 1 \<and>
             suffix [CHR 0x0A, CHR 0x00, CHR 0x00, CHR 0x05] resp))"

definition servfail_and_empty :: bool where
  "servfail_and_empty \<longleftrightarrow>
    (case parse_query (query_packet 1 ''x.test'' TYPE_AAAA) of
       None \<Rightarrow> False
     | Some q \<Rightarrow>
         (let nothing = build_empty_noerror q True
          in bits (build_servfail q ! 3) AND 0x0f = bits RCODE_SERVFAIL \<and> from_be16 (nothing ! 6) (nothing ! 7) = 0 \<and>
             bits (nothing ! 3) AND 0x0f = bits RCODE_NOERROR))"

definition rejects_response_and_short :: bool where
  "rejects_response_and_short \<longleftrightarrow>
    parse_query (replicate 4 (CHR 0x00)) = None \<and>
    (let resp = query_packet 1 ''x'' TYPE_A in parse_query (resp[2 := byte_of (bits (resp ! 2) OR 0x80)]) = None)"

text \<open>The configuration of the resolver's tests.\<close>

definition test_config :: "dns_config option" where
  "test_config =
    (case DomainGlob_parse ''*.internal.corp'' of
       Inl _ \<Rightarrow> None
     | Inr glob \<Rightarrow>
         Some \<lparr>dc_proxy_ip = 0xAC140002, dc_passthrough = [glob], dc_records = [''db.internal.corp'' \<mapsto> Record_A 0x0A000009], dc_ttl = 60\<rparr>)"

definition test_query :: "string \<Rightarrow> u16 \<Rightarrow> query option" where
  "test_query name qtype =
    parse_query ([CHR 0x00, CHR 0x01, CHR 0x01, CHR 0x00, CHR 0x00, CHR 0x01, CHR 0x00, CHR 0x00, CHR 0x00, CHR 0x00, CHR 0x00, CHR 0x00] @
      concat (map (\<lambda>l. char_of (length l) # l) (split_on CHR ''.'' name)) @ [CHR 0x00] @ be16 qtype @ be16 1)"

definition resolved :: "string \<Rightarrow> u16 \<Rightarrow> decision option" where
  "resolved name qtype = Option.bind test_config (\<lambda>cfg. map_option (resolve cfg) (test_query name qtype))"

definition static_beats_passthrough :: bool where
  "static_beats_passthrough \<longleftrightarrow>
    (case resolved ''db.internal.corp'' TYPE_A of Some (Decision_Answer (Answer_A ip _ # _)) \<Rightarrow> ip = 0x0A000009 | _ \<Rightarrow> False)"

definition passthrough_zone_forwards :: bool where
  "passthrough_zone_forwards \<longleftrightarrow> resolved ''ns.internal.corp'' TYPE_A = Some Decision_Passthrough"

definition default_intercepts_to_proxy_ip :: bool where
  "default_intercepts_to_proxy_ip \<longleftrightarrow>
    (case resolved ''anything.example'' TYPE_A of Some (Decision_Answer (Answer_A ip _ # _)) \<Rightarrow> ip = 0xAC140002 | _ \<Rightarrow> False)"

definition aaaa_for_intercepted_is_empty_noerror :: bool where
  "aaaa_for_intercepted_is_empty_noerror \<longleftrightarrow> resolved ''anything.example'' TYPE_AAAA = Some Decision_EmptyNoError"

section \<open>Metrics\<close>

definition metrics_record :: "mode \<Rightarrow> action \<Rightarrow> string option \<Rightarrow> f64 \<Rightarrow> audit_record" where
  "metrics_record mode act rejected_by duration_ms =
    \<lparr>ar_host = ''httpbin.org'', ar_method = ''GET'', ar_path = ''/'', ar_remote_addr = None, ar_sni = None, ar_mode = mode,
     ar_action = act, ar_status_code = None, ar_duration_ms = duration_ms, ar_rejected_by = rejected_by, ar_stubbed_by = None,
     ar_error = None, ar_request_transforms = [], ar_response_transforms = [], ar_tunnel = None, ar_guard = None,
     ar_body_capture = None\<rparr>"

definition requests_counter_and_histogram :: "(f64 \<Rightarrow> string) \<Rightarrow> bool" where
  \<open>requests_counter_and_histogram show_f64 \<longleftrightarrow>
    (let out = render show_f64
           (observe_record (metrics_record Https Reject (Some ''allowlist'') 1)
             (observe_record (metrics_record Https Allow None 42) (Metrics_new ''1.2.3'')))
     in list_all (\<lambda>line. contains line out)
          [''hematite_requests_total{mode="https",action="allow",rejected_by=""} 1'',
           ''hematite_requests_total{mode="https",action="reject",rejected_by="allowlist"} 1'',
           ''hematite_request_duration_seconds_bucket{mode="https",action="allow",le="0.05"} 1'',
           ''hematite_request_duration_seconds_bucket{mode="https",action="allow",le="0.1"} 1'',
           ''hematite_request_duration_seconds_bucket{mode="https",action="allow",le="30"} 1'',
           ''hematite_request_duration_seconds_bucket{mode="https",action="allow",le="+Inf"} 1'',
           ''hematite_request_duration_seconds_count{mode="https",action="allow"} 1'',
           ''hematite_request_duration_seconds_sum'',
           ''hematite_build_info{version="1.2.3"} 1'',
           ''# TYPE hematite_requests_total counter''])\<close>

definition point_counters_render :: "(f64 \<Rightarrow> string) \<Rightarrow> bool" where
  \<open>point_counters_render show_f64 \<longleftrightarrow>
    (let out = render show_f64 (inc_reload False (inc_tls_cache True (inc_dns DnsOutcome_Passthrough (inc_dial Dial_GuardDenied (Metrics_new ''0'')))))
     in list_all (\<lambda>line. contains line out)
          [''hematite_upstream_dials_total{result="guard-denied"} 1'', ''hematite_dns_queries_total{outcome="passthrough"} 1'',
           ''hematite_tls_leaf_cache_events_total{event="hit"} 1'', ''hematite_config_reloads_total{result="error"} 1''])\<close>

definition label_values_escaped :: "(f64 \<Rightarrow> string) \<Rightarrow> bool" where
  "label_values_escaped show_f64 \<longleftrightarrow>
    (let bs = CHR 0x5C; quote = CHR 0x22
     in contains (''rejected_by='' @ [quote, CHR ''a'', bs, quote, CHR ''b'', bs, bs, CHR ''c'', quote])
          (render show_f64
            (observe_record (metrics_record Http Reject (Some [CHR ''a'', quote, CHR ''b'', bs, CHR ''c'']) 1) (Metrics_new ''0''))))"

section \<open>The tests pass\<close>

lemma base64_test: base64_roundtrip_and_known_vectors
proof -
  have "base64_encode ''proxy-tok:x'' = ''cHJveHktdG9rOng=''" "base64_decode ''cHJveHktdG9rOng='' = Some ''proxy-tok:x''"
    "base64_encode ''sk-real:x'' = ''c2stcmVhbDp4''" "base64_decode ''not base64!!'' = None" "base64_decode ''abc'' = None"
    by code_simp+
  then show ?thesis by (simp add: base64_roundtrip_and_known_vectors_def base64_decode_encode)
qed

lemma codec_tests: percent_encode_unreserved_and_reserved replace_all_counts_and_rewrites
  by code_simp+

lemma tunnel_tests: dispatch_first_byte connect_parsing socks5_method_selection socks5_request_ipv4_domain_ipv6 inner_sniff
  by code_simp+

lemma sni_tests:
  sni_scan_extracts_name sni_scan_no_extension_is_nosni sni_scan_partial_record_is_incomplete sni_scan_non_tls_is_rejected
  by code_simp+

lemma wire_tests: roundtrip_question a_response_shape servfail_and_empty rejects_response_and_short
  by code_simp+

lemma resolve_tests:
  static_beats_passthrough passthrough_zone_forwards default_intercepts_to_proxy_ip aaaa_for_intercepted_is_empty_noerror
  by code_simp+

section \<open>Lines of the exposition\<close>

lemma containsI: "tok \<noteq> [] \<Longrightarrow> contains tok (u @ tok @ v)"
  using find_sub_None [of tok "u @ tok @ v"] by (auto simp: contains_def)

lemma containsE:
  assumes "contains tok s"
  obtains u v where "s = u @ tok @ v" "tok \<noteq> []"
  using assms by (auto simp: contains_def find_sub_None)

lemma contains_append: "contains tok s \<Longrightarrow> contains tok (u @ s)" "contains tok s \<Longrightarrow> contains tok (s @ v)"
  by (metis append_assoc containsE containsI)+

lemma contains_concat: "s \<in> set ss \<Longrightarrow> contains tok s \<Longrightarrow> contains tok (concat ss)"
  by (induction ss) (auto intro: contains_append)

lemma family_line:
  "(lbls, n) \<in> set m \<Longrightarrow> contains (name @ in_braces lbls @ '' '' @ show_u64 n) (render_family name m)"
proof -
  assume "(lbls, n) \<in> set m"
  then have "name @ in_braces lbls @ '' '' @ show_u64 n @ newline \<in>
      set (map (\<lambda>(lbls, n). name @ in_braces lbls @ '' '' @ show_u64 n @ newline) m)"
    by force
  moreover have "contains (name @ in_braces lbls @ '' '' @ show_u64 n) (name @ in_braces lbls @ '' '' @ show_u64 n @ newline)"
    using containsI [of "name @ in_braces lbls @ '' '' @ show_u64 n" "[]" newline] by simp
  ultimately show ?thesis
    unfolding render_family_def by (intro contains_append(1) contains_concat)
qed

lemma bucket_shown:
  assumes "(le, n) \<in> set (zip BUCKET_TEXTS (running_totals 0 (hg_counts h)) @ [(''+Inf'', hg_count h)])"
  shows "contains (name @ ''_bucket'' @ in_braces (lbls @ '',le='' @ [CHR 0x22] @ le @ [CHR 0x22]) @ '' '' @ show_u64 n)
    (render_histogram show_f64 name lbls h)"
    (is "contains ?line _")
proof -
  have line: "contains ?line (bucket_line name lbls le n)"
    using containsI [of ?line "[]" newline] by (simp add: bucket_line_def)
  consider "(le, n) \<in> set (zip BUCKET_TEXTS (running_totals 0 (hg_counts h)))" | "le = ''+Inf''" "n = hg_count h"
    using assms by auto
  then show ?thesis
  proof cases
    case 1
    then have "bucket_line name lbls le n \<in>
        set (map (\<lambda>(le, n). bucket_line name lbls le n) (zip BUCKET_TEXTS (running_totals 0 (hg_counts h))))"
      by force
    from contains_concat [OF this line] show ?thesis unfolding render_histogram_def by (rule contains_append)
  next
    case 2
    with line show ?thesis unfolding render_histogram_def by (intro contains_append) simp
  qed
qed

lemma contains_prefix: "prefix tok s \<Longrightarrow> tok \<noteq> [] \<Longrightarrow> contains tok s"
  using containsI [of tok "[]"] by (auto simp: prefix_def)

lemma count_shown:
  "contains (name @ ''_sum'') (render_histogram show_f64 name lbls h)"
  "contains (name @ ''_count'' @ in_braces lbls @ '' '' @ show_u64 (hg_count h)) (render_histogram show_f64 name lbls h)"
proof -
  let ?count = "name @ ''_count'' @ in_braces lbls @ '' '' @ show_u64 (hg_count h) @ newline"
  have "contains (name @ ''_sum'') (name @ ''_sum'' @ in_braces lbls @ '' '' @ show_f64 (hg_sum h) @ newline @ ?count)"
    by (rule contains_prefix) simp_all
  then show "contains (name @ ''_sum'') (render_histogram show_f64 name lbls h)"
    unfolding render_histogram_def by (rule contains_append(1) [THEN contains_append(1)])
  have "contains (name @ ''_count'' @ in_braces lbls @ '' '' @ show_u64 (hg_count h)) ?count"
    by (rule contains_prefix) simp_all
  then have "contains (name @ ''_count'' @ in_braces lbls @ '' '' @ show_u64 (hg_count h))
      ((name @ ''_sum'' @ in_braces lbls @ '' '' @ show_f64 (hg_sum h) @ newline) @ ?count)"
    by (rule contains_append)
  then show "contains (name @ ''_count'' @ in_braces lbls @ '' '' @ show_u64 (hg_count h)) (render_histogram show_f64 name lbls h)"
    unfolding render_histogram_def append_assoc by (rule contains_append(1) [THEN contains_append(1)])
qed

lemma histogram_shown:
  "(lbls, h) \<in> set (me_duration m) \<Longrightarrow>
   contains tok (render_histogram show_f64 ''hematite_request_duration_seconds'' lbls h) \<Longrightarrow> contains tok (render show_f64 m)"
  unfolding render_def
  by (intro contains_append(1) contains_append(2) contains_concat) force+

lemma render_sections:
  "render show_f64 m = concat
    [''# TYPE hematite_build_info gauge'' @ newline @ ''hematite_build_info'' @ in_braces (label ''version'' (me_version m)) @ '' 1'' @ newline,
     render_family ''hematite_requests_total'' (me_requests m),
     ''# TYPE hematite_request_duration_seconds histogram'' @ newline,
     concat (map (\<lambda>(lbls, h). render_histogram show_f64 ''hematite_request_duration_seconds'' lbls h) (me_duration m)),
     render_family ''hematite_secrets_swaps_total'' (me_secrets m), render_family ''hematite_upstream_dials_total'' (me_dials m),
     render_family ''hematite_dns_queries_total'' (me_dns m), render_family ''hematite_tls_leaf_cache_events_total'' (me_tls_cache m),
     render_family ''hematite_config_reloads_total'' (me_reloads m)]"
  by (simp add: render_def)

lemma families_shown:
  "contains tok (render_family ''hematite_requests_total'' (me_requests m)) \<Longrightarrow> contains tok (render show_f64 m)"
  "contains tok (render_family ''hematite_upstream_dials_total'' (me_dials m)) \<Longrightarrow> contains tok (render show_f64 m)"
  "contains tok (render_family ''hematite_dns_queries_total'' (me_dns m)) \<Longrightarrow> contains tok (render show_f64 m)"
  "contains tok (render_family ''hematite_tls_leaf_cache_events_total'' (me_tls_cache m)) \<Longrightarrow> contains tok (render show_f64 m)"
  "contains tok (render_family ''hematite_config_reloads_total'' (me_reloads m)) \<Longrightarrow> contains tok (render show_f64 m)"
  unfolding render_sections by (erule contains_concat [rotated], simp)+

lemma header_shown:
  "contains (''hematite_build_info'' @ in_braces (label ''version'' (me_version m)) @ '' 1'') (render show_f64 m)"
  "contains (''# TYPE '' @ name @ '' counter'') (render_family name cs)"
proof -
  show "contains (''hematite_build_info'' @ in_braces (label ''version'' (me_version m)) @ '' 1'') (render show_f64 m)"
    unfolding render_def by (rule contains_prefix [THEN contains_append(1) [THEN contains_append(1)]]) simp_all
  show "contains (''# TYPE '' @ name @ '' counter'') (render_family name cs)"
    unfolding render_family_def by (rule contains_prefix) simp_all
qed

lemmas lines_shown = families_shown [OF family_line]

lemmas texts = in_braces_def request_key_def duration_key_def label_def escape_label_def escape_char_def

lemma show_one: "show_u64 1 = ''1''"
  by code_simp

text \<open>The tests hold however the library writes the sums.\<close>

lemma requests_test: "requests_counter_and_histogram show_f64"
proof -
  let ?m = "observe_record (metrics_record Https Reject (Some ''allowlist'') 1)
      (observe_record (metrics_record Https Allow None 42) (Metrics_new ''1.2.3''))"
  let ?h = "observe (42 / 1000) Histogram_new"
  have "me_requests ?m = [(request_key Https Allow [], 1), (request_key Https Reject ''allowlist'', 1)]" by code_simp
  then have requests: "(request_key Https Allow [], 1) \<in> set (me_requests ?m)"
    "(request_key Https Reject ''allowlist'', 1) \<in> set (me_requests ?m)"
    by simp_all
  have "list_ex (\<lambda>(k, h). k = duration_key Https Allow \<and> h = ?h) (me_duration ?m)" by code_simp
  then have h: "(duration_key Https Allow, ?h) \<in> set (me_duration ?m)" by (auto simp: list_ex_iff)
  have buckets: "list_all (\<lambda>le. (le, 1) \<in> set (zip BUCKET_TEXTS (running_totals 0 (hg_counts ?h)) @ [(''+Inf'', hg_count ?h)]))
      [''0.05'', ''0.1'', ''30'', ''+Inf'']" "hg_count ?h = 1"
    by code_simp+
  have version: "me_version ?m = ''1.2.3''" by code_simp
  have le: "contains (''hematite_request_duration_seconds'' @ ''_bucket'' @
      in_braces (duration_key Https Allow @ '',le='' @ [CHR 0x22] @ le @ [CHR 0x22]) @ '' '' @ show_u64 1) (render show_f64 ?m)"
    if "le \<in> set [''0.05'', ''0.1'', ''30'', ''+Inf'']" for le
    using buckets(1) that unfolding list_all_iff by (intro histogram_shown [OF h bucket_shown]) blast
  note shown = header_shown(1) [where m = ?m, unfolded version]
    families_shown(1) [OF header_shown(2), where m = ?m]
    lines_shown(1) [OF requests(1)] lines_shown(1) [OF requests(2)]
    histogram_shown [OF h count_shown(1)]
    histogram_shown [OF h count_shown(2), unfolded buckets(2)]
    le [of "''0.05''"] le [of "''0.1''"] le [of "''30''"] le [of "''+Inf''"]
  show ?thesis
    using shown unfolding requests_counter_and_histogram_def Let_def by (simp add: texts show_one)
qed

lemma points_test: "point_counters_render show_f64"
proof -
  let ?m = "inc_reload False (inc_tls_cache True (inc_dns DnsOutcome_Passthrough (inc_dial Dial_GuardDenied (Metrics_new ''0''))))"
  have "me_dials ?m = [(label ''result'' ''guard-denied'', 1)]" "me_dns ?m = [(label ''outcome'' ''passthrough'', 1)]"
    "me_tls_cache ?m = [(label ''event'' ''hit'', 1)]" "me_reloads ?m = [(label ''result'' ''error'', 1)]"
    by code_simp+
  then have shown: "(label ''result'' ''guard-denied'', 1) \<in> set (me_dials ?m)" "(label ''outcome'' ''passthrough'', 1) \<in> set (me_dns ?m)"
    "(label ''event'' ''hit'', 1) \<in> set (me_tls_cache ?m)" "(label ''result'' ''error'', 1) \<in> set (me_reloads ?m)"
    by simp_all
  show ?thesis
    using shown(1) [THEN lines_shown(2)] shown(2) [THEN lines_shown(3)] shown(3) [THEN lines_shown(4)] shown(4) [THEN lines_shown(5)]
    unfolding point_counters_render_def Let_def by (simp add: texts show_one)
qed

lemma escape_test: "label_values_escaped show_f64"
proof -
  let ?by = "[CHR ''a'', CHR 0x22, CHR ''b'', CHR 0x5C, CHR ''c'']"
  let ?m = "observe_record (metrics_record Http Reject (Some ?by) 1) (Metrics_new ''0'')"
  let ?start = "''hematite_requests_total{'' @ label ''mode'' ''http'' @ '','' @ label ''action'' ''reject'' @ '',''"
  have "me_requests ?m = [(request_key Http Reject ?by, 1)]" by code_simp
  then have "(request_key Http Reject ?by, 1) \<in> set (me_requests ?m)" by simp
  from lines_shown(1) [OF this] obtain u v where
    "render show_f64 ?m = u @ (''hematite_requests_total'' @ in_braces (request_key Http Reject ?by) @ '' '' @ show_u64 1) @ v"
    by (rule containsE)
  then have "render show_f64 ?m = (u @ ?start) @ label ''rejected_by'' ?by @ ''} '' @ show_u64 1 @ v"
    by (simp add: in_braces_def request_key_def)
  then have "contains (label ''rejected_by'' ?by) (render show_f64 ?m)"
    using containsI [of "label ''rejected_by'' ?by" "u @ ?start"] by (simp add: label_def)
  then show ?thesis by (simp add: label_values_escaped_def texts)
qed

end
