(* ===== verification/Spec2Isabelle.thy ===== *)
theory Spec2Isabelle
  imports Redaction Spans Conformance Unit_Tests
begin

text \<open>
  Hematite is an egress proxy that denies by default: sandboxed clients reach the network only through it, and
  it lets a request out only when a pipeline of transforms continues on it. This library
  models the program from the bytes on its sockets to the process that serves them, and proves what makes it correct.

  \<^bold>\<open>The parts and how they interact.\<close> The kernel (\<open>crates/hematite-kernel\<close>) decides: a pipeline of transforms
  (allowlist, secrets, annotate, header_allowlist, body_capture) is built from configuration and run on a summary of a request.
  The proxy (\<open>crates/hematite-proxy\<close>) brings requests to the kernel and carries out its decisions: the HTTP handler, the
  TLS and tunnel listeners, the guarded dialler, the audit record, the metrics, the secret resolver, the
  configuration and the management API that swaps the runtime. The DNS server (\<open>crates/hematite-dns\<close>) answers
  names with the address of the proxy. The process (\<open>crates/hematite\<close>) loads a file, compiles it and spawns the listeners.

  \<^bold>\<open>Conventions.\<close> A byte is a \<open>char\<close> and a string the list of its UTF-8 bytes; \<open>u16\<close>, \<open>u32\<close>, \<open>u64\<close> and
  \<open>u128\<close> are words that wrap; \<open>usize\<close> lengths are \<open>nat\<close>; \<open>f64\<close> values are rationals, for the sampling
  ratio with the infinities and NaN beside them. A \<open>Result\<close> is a sum with the error on the left, a panic is
  \<open>None\<close> where the code can panic, formatted messages are lists of literal and interpolated
  pieces. Effects are lists of events in the order in which they happen. A handler takes the runtime and the
  state of the secret cache as arguments and returns the state. Third-party crates are records of functions
  (regex, hyper, rcgen, rustls, serde, OpenTelemetry), sockets and files are functions or lists of what arrives.

  \<^bold>\<open>Theories and sources.\<close>
  \<^item> \<open>Prelude\<close>, \<open>Rust_Str\<close>, \<open>Utf8\<close>, \<open>Ip_Addr\<close>, \<open>Byte_Order\<close>: what the code uses of the language and
    its library (results, string functions, number and address parsing and printing, lossy decoding), with their laws.
  \<^item> \<open>Codec\<close> (\<open>codec.rs\<close>), \<open>Matcher\<close> (\<open>matcher.rs\<close>), \<open>Summary\<close> (\<open>summary.rs\<close>, \<open>verdict.rs\<close>), \<open>Pipeline\<close>
    (\<open>pipeline.rs\<close>), \<open>Transforms\<close> (\<open>transforms.rs\<close>), \<open>Secrets\<close> (\<open>secret.rs\<close>, \<open>secrets.rs\<close>), \<open>Kernel_Audit\<close>
    (\<open>audit.rs\<close>), \<open>Kernel_Config\<close> (\<open>config.rs\<close>): the kernel. Codecs invert each other, matchers decide
    their declarative meaning, the pipeline never fails open, a swap keeps the structure of a URL, the record
    does not depend on the value of a secret, the lints are sound where they look and where they do not is shown by example.
  \<^item> \<open>Dns_Wire\<close> (\<open>wire.rs\<close>) and \<open>Dns_Server\<close> (\<open>resolve.rs\<close>, \<open>server.rs\<close>, the set-up of \<open>main.rs\<close>): queries
    and responses are readable, by a reader of answer sections that shares nothing with the encoder. A query is answered together
    with the datagrams sent upstream for it: only passthrough zones reach the upstream resolver.
  \<^item> \<open>Proxy_Audit\<close>, \<open>Hop\<close>, \<open>Proxy_Metrics\<close>, \<open>Proxy_State\<close>, \<open>Dial\<close>, \<open>Http\<close> (files \<open>audit\<close>, \<open>hop\<close>,
    \<open>metrics\<close>, \<open>state\<close>, \<open>dial\<close>, \<open>http\<close> of the proxy): one truthful record per request, nothing is dialled or
    sent without the pipeline's approval and past the guard, the request sent is the approved one, header for header.
    Dials are counted once, as what the guard, the resolver and the upstreams make of them. The tracing spans that a
    handler opens, and what it records on them, are events beside the audit record.
  \<^item> \<open>Tunnel_Wire\<close> (\<open>tunnel.rs\<close>) and \<open>Listen\<close> (\<open>listen.rs\<close>): CONNECT, SOCKS5 and ClientHello parsing, and the
    tunnel handlers over bytes that arrive in arbitrary pieces and may stall.
  \<^item> \<open>Leaf_Cache\<close> (\<open>tls.rs\<close>): minting and the certificate cache as a step relation of concurrent tasks,
    with invariants over every interleaving and an end to every run.
  \<^item> \<open>Resolver\<close> (\<open>resolver.rs\<close>): the secret cache over time.
  \<^item> \<open>Proxy_Config\<close> (\<open>config.rs\<close>) and \<open>Management\<close> (\<open>management.rs\<close>): sections, environment
    overrides, load order, compilation; the token comparison, the reload and its handler.
  \<^item> \<open>Telemetry\<close> (\<open>telemetry.rs\<close>) and \<open>Startup\<close> (\<open>main.rs\<close>): what is installed, and the start as
    a sequence of binds and spawned services.
  \<^item> \<open>Spans\<close> (the tracing spans of \<open>http.rs\<close>): on every path of the handler what is recorded on the span of the request
    is what the audit record holds, and dial and upstream spans are its children in this order.
  \<^item> \<open>Serve\<close> (the accept loops of \<open>http.rs\<close>, \<open>listen.rs\<close>, \<open>management.rs\<close> and \<open>server.rs\<close>): the process at work, a
    record of its listeners, shared state, metrics and tasks under way, and one function per operation in which a task goes
    on. A request is begun, when it takes its runtime, and finished in separate operations, a tunnel likewise, so that reloads fall
    between them. The counters are shown to be what was done, for every sequence of operations.
  \<^item> \<open>Redaction\<close>: two runs of a handler whose resolver holds different secrets, on a request that the secrets are swapped into.
  \<^item> \<open>Conformance\<close> (\<open>spec/vectors\<close> and the tests that run them) and \<open>Unit_Tests\<close> (the \<open>tests\<close> modules of \<open>codec.rs\<close>,
    \<open>tunnel.rs\<close>, \<open>wire.rs\<close>, \<open>resolve.rs\<close>, \<open>metrics.rs\<close>): the specification's vectors and the program's own tests, on the model.
  \<^item> This theory: the life of a process. From \<open>main\<close> through any sequence of operations, reloads included, what leaves the
    machine was permitted by the allowlists of the file that the handler's runtime was compiled from and by its deny list.

  \<^bold>\<open>Interfaces.\<close> The locales are \<open>codec\<close> (base64, percent-encoding, big-endian words), \<open>host_matcher\<close> (domain patterns,
  CIDR blocks), \<open>destination_keeper\<close> and \<open>observer\<close> (transforms), \<open>value_blind\<close> (transforms after a swap),
  \<open>counter_family\<close> (metrics) and its extension \<open>tallied\<close> (the counters of a whole process), \<open>snapshot_store\<close> (the shared runtime) and \<open>listener_start\<close> with its composition
  (start-up steps), each interpreted on the
  definitions of its component.

  \<^bold>\<open>Bounds and fuel.\<close> No definition runs on fuel: loops recurse over the remaining input or over a measure. A
  loop of the code that waits on a socket consumes the list of arrivals, whose end is the closed
  connection; a time-out is an arrival of its own or an outcome of the parameter. The openings of tunnels are shown to end
  within 16 KiB and one read of input, whatever follows. Runs of any
  length are the interleaving of cache tasks, where the calls under way are shown to finish, and the operations
  in the life of a process, where the theorems hold after any number of them. An error of \<open>accept\<close> ends the loop of its
  listener, as in the code.

  \<^bold>\<open>Not modelled.\<close> The HTTP and TLS servers themselves (hyper, rustls): handlers are modelled per
  connection or request, and what a task does between taking its runtime and its end is one operation. The copying of bytes in a spliced or upgraded connection beyond
  the order of what is written. Log fields, which no decision reads, and the span
  around the termination of a tunnel's TLS. The panic of the date library on a lifetime of leaf certificates beyond its range. Atomics and locks where
  every critical section is one step; the certificate cache, whose steps interleave, is the exception. The
  crate roots, which only re-export, the unit tests of \<open>telemetry.rs\<close>, which are of the libraries, and the tests that
  need sockets.
\<close>

section \<open>The life of a process\<close>

text \<open>
  From the state a process starts with, any number of management requests, each against whatever
  the file, the environment and the files it names hold then; other tasks count in the metrics meanwhile.
  The crates stay the same.
\<close>

inductive managed_run ::
  "serde \<Rightarrow> decoders \<Rightarrow> regex_builder \<Rightarrow> ('p, 'q) ca_loader \<Rightarrow> management \<Rightarrow> 't managed \<Rightarrow> 't managed \<Rightarrow> bool"
  for sd de re_build ld mn st where
  started: "managed_run sd de re_build ld mn st st"
| request: "managed_run sd de re_build ld mn st (state, metrics) \<Longrightarrow>
    rl_serde rl = sd \<Longrightarrow> rl_decoders rl = de \<Longrightarrow> rl_regex rl = re_build \<Longrightarrow> ho_ca_loader (rl_host_env rl) = ld \<Longrightarrow>
    manage hy show_f64 mn rl req (state, metrics) = (answer, st') \<Longrightarrow> managed_run sd de re_build ld mn st st'"
| counted: "managed_run sd de re_build ld mn st (state, metrics) \<Longrightarrow> managed_run sd de re_build ld mn st (state, metrics')"

text \<open>The allowlists of a configuration agree that a host may be reached.\<close>

definition permitted :: "decoders \<Rightarrow> transform_spec list \<Rightarrow> string \<Rightarrow> bool" where
  "permitted de specs host \<longleftrightarrow>
    (\<exists>spec \<in> set specs. ts_name spec = ''allowlist'') \<and>
    (\<forall>spec \<in> set specs. ts_name spec = ''allowlist'' \<longrightarrow>
      (\<exists>c. de_allowlist de (ts_config spec) = Inr c \<and>
        (lc_warn c \<or>
         (\<exists>d \<in> set (lc_domains c). \<exists>g. DomainGlob_parse d = Inr g \<and> DomainGlob_matches g host) \<or>
         (\<exists>x \<in> set (lc_cidrs c). \<exists>k. Cidr_parse x = Inr k \<and> Cidr_matches_host k host))))"

text \<open>No block the configuration denies, or the default set when it names none, contains the address.\<close>

definition not_denied :: "config \<Rightarrow> ip_addr \<Rightarrow> bool" where
  "not_denied cfg ip \<longleftrightarrow>
    (\<forall>p \<in> set (unwrap_or (cf_upstream_deny_cidrs cfg) DEFAULT_DENY). \<exists>c. Cidr_parse p = Inr c \<and> \<not> Cidr_contains c ip)"

text \<open>The runtimes a process may serve with.\<close>

definition configured ::
  "serde \<Rightarrow> decoders \<Rightarrow> regex_builder \<Rightarrow> config \<Rightarrow> 't proxy_runtime \<Rightarrow> bool" where
  "configured sd de re_build cfg rt \<longleftrightarrow>
    (\<exists>env yaml. load_str sd de re_build env yaml = Inr cfg) \<and>
    (\<exists>b. build_pipeline_inner de re_build (cf_transforms cfg) (Some EnvFileResolver) = Inr b \<and> rt_pipeline rt = bu_pipeline b) \<and>
    build_guard cfg = Some (Inr (rt_guard rt))"

lemma build_configured:
  assumes "load_str sd de re_build env yaml = Inr cfg" "build_runtime de re_build ho cfg = Some (Inr rt)"
  shows "configured sd de re_build cfg rt"
  using assms(1) build_runtime_fields [OF assms(2)]
  unfolding configured_def build_pipeline_with_resolver_def by metis

lemma configured_permits:
  assumes "configured sd de re_build cfg rt" "evaluate_request (rt_pipeline rt) s req = (po, req', s')"
    "is_allowed (po_outcome po)"
  shows "permitted de (cf_transforms cfg) (rq_host req) \<and> same_destination req req'"
proof -
  obtain b where b: "build_pipeline_inner de re_build (cf_transforms cfg) (Some EnvFileResolver) = Inr b"
    "rt_pipeline rt = bu_pipeline b"
    using assms(1) unfolding configured_def by blast
  show ?thesis
    using build_pipeline_innerD(2) [OF b(1)] built_allowlist_guards [OF b(1) _ _ assms(2) [unfolded b(2)] assms(3)]
      evaluate_request_keeps [OF assms(2) [unfolded b(2)] built_keepers [OF b(1)]]
    unfolding permitted_def by blast
qed

lemma configured_guards:
  assumes "configured sd de re_build cfg rt" "Guard_check (rt_guard rt) ip = Inr ()"
  shows "not_denied cfg ip"
proof -
  have "Guard_new (unwrap_or (cf_upstream_deny_cidrs cfg) DEFAULT_DENY) = Inr (rt_guard rt)"
    using assms(1) by (auto simp: configured_def build_guard_def default_set_def map_err_Inr split: option.splits sum.splits)
  then have deny: "set (unwrap_or (cf_upstream_deny_cidrs cfg) DEFAULT_DENY) = snd ` set (gu_deny (rt_guard rt))"
    "\<forall>(c, p) \<in> set (gu_deny (rt_guard rt)). Cidr_parse p = Inr c"
    by (auto simp: Guard_new_Inr simp flip: set_map)
  moreover have "\<forall>(c, p) \<in> set (gu_deny (rt_guard rt)). \<not> Cidr_contains c ip"
    using assms(2) by (simp add: Guard_check_Inr)
  ultimately show ?thesis unfolding not_denied_def by fastforce
qed

lemma reload_configured:
  assumes "manage hy show_f64 mn rl req (state, metrics) = (answer, (state', metrics'))" "deref state' a = Some rt"
  shows "deref state a = Some rt \<or> (\<exists>cfg. configured (rl_serde rl) (rl_decoders rl) (rl_regex rl) cfg rt)"
  using assms
  by (auto simp: manage_def reload_def Let_def dest!: shared.get_only split: if_splits option.splits sum.splits load_error.splits)
    (blast intro: build_configured)+

lemma managed_run_configured:
  assumes "managed_run sd de re_build ld mn st st'" and "\<And>a rt. deref (fst st) a = Some rt \<Longrightarrow> \<exists>cfg. configured sd de re_build cfg rt"
  shows "deref (fst st') a = Some rt \<Longrightarrow> \<exists>cfg. configured sd de re_build cfg rt"
  using assms(1)
proof (induction arbitrary: a rt)
  case (request state metrics rl hy show_f64 req answer st')
  then show ?case using reload_configured by (metis fst_conv prod.collapse)
qed (use assms(2) in auto)

lemma started_state:
  assumes "main mc args = Some (evs, exit)" "(addr, sv) \<in> set (services evs)"
    and "shared_by sv = Some st" "deref st a = Some rt"
  shows "\<exists>cfg. configured (mc_serde mc) (mc_decoders mc) (mc_regex mc) cfg rt"
proof -
  obtain e where e: "e \<in> set evs" "(addr, sv) \<in> set (spawned e)" using assms(2) by (auto simp: services_def)
  then have "socket_event e" by (cases e rule: spawned.cases) auto
  from start_closed [OF assms(1) e(1) this] obtain path yaml cfg rt0
    where c: "load_str (mc_serde mc) (mc_decoders mc) (mc_regex mc) (mc_env mc) yaml = Inr cfg"
      "build_runtime (mc_decoders mc) (mc_regex mc) (mc_host_env mc) cfg = Some (Inr rt0)"
      "subseq (services evs) (asked_services (mc_parse_addr mc) path cfg rt0)"
    by blast
  have "(addr, sv) \<in> set (asked_services (mc_parse_addr mc) path cfg rt0)"
    by (rule list_emb_set [OF c(3) assms(2)]) simp
  then have "st = SharedState_new rt0"
    using assms(3)
    by (auto simp: asked_services_def https_services_def tunnel_services_def dns_services_def management_services_def
        split: option.splits sum.splits if_splits)
  then have "rt = rt0" using assms(4) by (auto simp: deref_def SharedState_new_def split: if_splits)
  then show ?thesis using build_configured [OF c(1,2)] by blast
qed

lemma handle_forced:
  assumes "cn_forced_upstream ctx = Some (host, port)"
  shows "dial_events (fst (snd (handle env rt ctx req s))) \<in>
    {[], snd (connect_upstream (he_net env) AllowProof host port (cn_scheme_https ctx) rt)}"
proof -
  obtain reply evs s' where run: "handle env rt ctx req s = (reply, evs, s')" by (metis prod_cases3)
  show ?thesis
  proof (cases "dial_events evs = []")
    case False
    then have "dial_events evs \<noteq> [] \<or> sends evs \<noteq> []" by blast
    from handle_events [OF run this] obtain summary where "dial_events evs = snd (dial_of env rt ctx summary)" by metis
    then show ?thesis using run assms by (simp add: dial_of_def)
  qed (use run in simp)
qed

text \<open>A request is sent where its target says: inside a tunnel the target is the tunnel's.\<close>

lemma resolve_target_dial:
  "resolve_target hy req ctx = Inr t \<Longrightarrow> unwrap_or (cn_forced_upstream ctx) (tg_host t, tg_port t) = (tg_host t, tg_port t)"
  by (auto simp: resolve_target_def split: option.splits prod.splits)

text \<open>What a handler with a configured runtime does to the network.\<close>

lemma request_permitted:
  assumes "configured sd de re_build cfg rt" "handle env rt ctx req s = (reply, hevs, s')"
    and "dial_events hevs \<noteq> [] \<or> sends hevs \<noteq> []"
  obtains t where "resolve_target (he_hyper env) req ctx = Inr t" "permitted de (cf_transforms cfg) (tg_host t)"
    "dial_events hevs = snd (connect_upstream (he_net env) AllowProof (tg_host t) (tg_port t) (cn_scheme_https ctx) rt)"
    "\<forall>(ip, port) \<in> set (dialled (dial_events hevs)). not_denied cfg ip"
    "\<forall>(st, ur) \<in> set (sends hevs). fst st \<in> set (dialled (dial_events hevs))"
proof -
  obtain t b oc rest po summary where ok: "approved env rt ctx req t s b oc rest po summary"
    and dial: "dial_events hevs = snd (dial_of env rt ctx summary)"
    and sent: "\<And>st ur. (st, ur) \<in> set (sends hevs) \<Longrightarrow> fst (dial_of env rt ctx summary) = Inr st"
    using handle_events [OF assms(2,3)] by (metis (no_types, lifting))
  obtain s1 where "evaluate_request (rt_pipeline rt) s (mk_summary ctx req t (rt_max_request_body_bytes rt) b oc) = (po, summary, s1)"
    and t: "resolve_target (he_hyper env) req ctx = Inr t" "is_allowed (po_outcome po)"
    using ok unfolding approved_def by blast
  from configured_permits [OF assms(1) this(1,3)]
  have perm: "permitted de (cf_transforms cfg) (tg_host t)"
    and dest: "rq_host summary = tg_host t" "rq_port summary = tg_port t"
    by (auto simp: mk_summary_def same_destination_def)
  have "dial_events hevs = snd (connect_upstream (he_net env) AllowProof (tg_host t) (tg_port t) (cn_scheme_https ctx) rt)"
    using dial dest resolve_target_dial [OF t(1)] by (simp add: dial_of_def)
  moreover have "\<forall>(ip, port) \<in> set (dialled (dial_events hevs)). not_denied cfg ip"
    using dial_of_guarded [of env rt ctx summary] configured_guards [OF assms(1)] dial by fastforce
  moreover have "\<forall>(st, ur) \<in> set (sends hevs). fst st \<in> set (dialled (dial_events hevs))"
  proof clarify
    fix a tls ur
    assume "((a, tls), ur) \<in> set (sends hevs)"
    from sent [OF this] show "fst (a, tls) \<in> set (dialled (dial_events hevs))"
      using dial_of_guarded [of env rt ctx summary] dial by simp
  qed
  ultimately show thesis using that t(1) perm by blast
qed

lemma tunnel_permitted:
  assumes "configured sd de re_build cfg rt" "handle_tunnel env rt rt' remote input s = (tevs, s')"
    and "tunnel_dials tevs \<noteq> [] \<or> upstream_writes tevs \<noteq> [] \<or> contexts tevs \<noteq> []"
  obtains first target rest es where "tunnel_handshake env first input = (Inr (Some target, rest), es)"
    "permitted de (cf_transforms cfg) (ct_host target)"
    "tunnel_dials tevs \<in>
      {[], snd (connect_upstream (le_net env) AllowProof (ct_host target) (ct_port target) False rt)}"
    "\<forall>(ip, port) \<in> set (dialled (tunnel_dials tevs)). not_denied cfg ip"
    "\<forall>(st, bs) \<in> set (upstream_writes tevs).
      fst (connect_upstream (le_net env) AllowProof (ct_host target) (ct_port target) False rt) = Inr st"
    "\<forall>ctx \<in> set (contexts tevs). cn_forced_upstream ctx = Some (ct_host target, ct_port target)"
proof -
  from assms(3) have "tunnel_dials tevs \<noteq> [] \<or> upstream_writes tevs \<noteq> [] \<or> contexts tevs \<noteq> [] \<or> tunnel_emissions tevs \<noteq> []"
    by blast
  from handle_tunnel_cases [OF assms(2) this] obtain first0 target0 rest0 es0 evs' where
    d: "peek_byte input = Inr (Some first0)" "tunnel_handshake env first0 input = (Inr (Some target0, rest0), es0)"
       "decide_tunnel env rt rt' (dispatch first0 = Client_Socks5) target0 remote rest0 s = (evs', s')"
       "tunnel_dials tevs = tunnel_dials evs'"
    by metis
  from tunnel_gated [OF assms(2,3)] obtain first target rest es po summary
    where h: "peek_byte input = Inr (Some first)" "tunnel_handshake env first input = (Inr (Some target, rest), es)"
      and run: "evaluate_request (rt_pipeline rt) s (synthetic_connect_summary target remote) = (po, summary, s')"
      and ok: "is_allowed (po_outcome po)"
      and guarded: "\<forall>a \<in> set (dialled (tunnel_dials tevs)). Guard_check (rt_guard rt) (fst a) = Inr ()"
      and wrote: "\<forall>st bs. (st, bs) \<in> set (upstream_writes tevs) \<longrightarrow>
        fst (connect_upstream (le_net env) AllowProof (ct_host target) (ct_port target) False rt) = Inr st"
      and forced: "\<forall>ctx \<in> set (contexts tevs). cn_forced_upstream ctx = Some (ct_host target, ct_port target)"
    by blast
  have same: "target0 = target" using d(1,2) h by simp
  have "tunnel_dials evs' \<in> {[], snd (connect_upstream (le_net env) AllowProof (ct_host target) (ct_port target) False rt)}"
    using d(3) unfolding same
    by (cases rule: decide_tunnel_cases)
      (auto simp: bump_quiet emit_tunnel_reject_def Let_def passthrough_dials [OF prod.collapse [symmetric]])
  moreover have "permitted de (cf_transforms cfg) (ct_host target)"
    using configured_permits [OF assms(1) run ok] by (simp add: synthetic_connect_summary_def)
  moreover have "\<forall>(ip, port) \<in> set (dialled (tunnel_dials tevs)). not_denied cfg ip"
    using guarded configured_guards [OF assms(1)] by fastforce
  moreover have "\<forall>(st, bs) \<in> set (upstream_writes tevs).
      fst (connect_upstream (le_net env) AllowProof (ct_host target) (ct_port target) False rt) = Inr st"
    using wrote by blast
  ultimately show thesis using that [OF h(2)] forced unfolding d(4) by blast
qed

text \<open>
  What may leave the machine in one step of the process. A request that dials or sends: its target is permitted by
  the file its runtime comes from, the dial is to this target, no address tried is denied by the file, and
  what is sent goes over a connection of this dial. A tunnel that dials or writes: the same for the target of its
  handshake. A connection that comes out of a tunnel is bound to a permitted target. A query that the DNS server
  sends to its upstream resolver asks first for a name it may forward.
\<close>

fun egress_ok :: "('t, 'p, 'q, 'f, 'x, 'b, 'a) machine \<Rightarrow> ('t, 'h, 'k) did \<Rightarrow> bool" where
  "egress_ok mc (Did_Request env rt ctx req reply evs) \<longleftrightarrow>
    (dial_events evs \<noteq> [] \<or> sends evs \<noteq> [] \<longrightarrow>
      (\<exists>cfg t. configured (mc_serde mc) (mc_decoders mc) (mc_regex mc) cfg rt \<and>
        resolve_target (he_hyper env) req ctx = Inr t \<and> permitted (mc_decoders mc) (cf_transforms cfg) (tg_host t) \<and>
        dial_events evs = snd (connect_upstream (he_net env) AllowProof (tg_host t) (tg_port t) (cn_scheme_https ctx) rt) \<and>
        (\<forall>(ip, port) \<in> set (dialled (dial_events evs)). not_denied cfg ip) \<and>
        (\<forall>(st, ur) \<in> set (sends evs). fst st \<in> set (dialled (dial_events evs)))))"
| "egress_ok mc (Did_Listen env rt rt' input evs) \<longleftrightarrow>
    (tunnel_dials evs \<noteq> [] \<or> upstream_writes evs \<noteq> [] \<or> (\<exists>ctx \<in> set (contexts evs). cn_forced_upstream ctx \<noteq> None) \<longrightarrow>
      (\<exists>cfg first target rest es. configured (mc_serde mc) (mc_decoders mc) (mc_regex mc) cfg rt \<and>
        tunnel_handshake env first input = (Inr (Some target, rest), es) \<and>
        permitted (mc_decoders mc) (cf_transforms cfg) (ct_host target) \<and>
        tunnel_dials evs \<in> {[], snd (connect_upstream (le_net env) AllowProof (ct_host target) (ct_port target) False rt)} \<and>
        (\<forall>(ip, port) \<in> set (dialled (tunnel_dials evs)). not_denied cfg ip) \<and>
        (\<forall>(st, bs) \<in> set (upstream_writes evs).
           fst (connect_upstream (le_net env) AllowProof (ct_host target) (ct_port target) False rt) = Inr st) \<and>
        (\<forall>ctx \<in> set (contexts evs). cn_forced_upstream ctx = Some (ct_host target, ct_port target))))"
| "egress_ok mc (Did_Dns config upstream request answer sent) \<longleftrightarrow>
    (\<forall>r \<in> set sent. \<exists>q. parse_query r = Some q \<and> may_forward config (dq_name q))"
| "egress_ok mc _ \<longleftrightarrow> True"

text \<open>The invariant: every runtime in the store was compiled from a file that loads.\<close>

definition all_configured :: "('t, 'p, 'q, 'f, 'x, 'b, 'a) machine \<Rightarrow> 't server \<Rightarrow> bool" where
  "all_configured mc sv \<longleftrightarrow>
    (\<forall>a rt. deref (sv_shared sv) a = Some rt \<longrightarrow> (\<exists>cfg. configured (mc_serde mc) (mc_decoders mc) (mc_regex mc) cfg rt))"

lemma all_configuredE:
  assumes "all_configured mc sv" "deref (sv_shared sv) a = Some rt"
  obtains cfg where "configured (mc_serde mc) (mc_decoders mc) (mc_regex mc) cfg rt"
  using assms unfolding all_configured_def by blast

lemma terminated_ok: "egress_ok mc (Did_Listen env rt rt input (terminate_and_serve env rt remote None input))"
proof -
  have "\<forall>ctx \<in> set (contexts (terminate_and_serve env rt remote None input)). cn_forced_upstream ctx = None"
    by (auto simp: terminate_and_serve_def emit_listener_reject_def Let_def split: option.splits sum.splits if_splits)
  then have "\<not> (\<exists>ctx \<in> set (contexts (terminate_and_serve env rt remote None input)). cn_forced_upstream ctx \<noteq> None)" by simp
  then show ?thesis
    using terminate_quiet [of env rt remote None input] unfolding egress_ok.simps by (simp only: not_True_eq_False simp_thms)
qed

lemma run_tls_ok:
  assumes "run_tls i env input sv = (sv', ds)"
  shows "sv_shared sv' = sv_shared sv \<and> (\<forall>d \<in> set ds. egress_ok mc d)"
  using assms
  by (auto simp: run_tls_def terminated_ok Let_def simp del: egress_ok.simps split: option.splits if_splits)

lemma run_tunnel_ok:
  assumes "all_configured mc sv" "run_tunnel i env input w sv = (sv', ds)"
  shows "sv_shared sv' = sv_shared sv \<and> (\<forall>d \<in> set ds. egress_ok mc d)"
proof -
  have "egress_ok mc (Did_Listen env rt rt' input evs)"
    if rt: "deref (sv_shared sv) a = Some rt" and run: "handle_tunnel env rt rt' remote input s = (evs, s')" for a rt rt' remote s evs s'
  proof -
    obtain cfg where cfg: "configured (mc_serde mc) (mc_decoders mc) (mc_regex mc) cfg rt"
      using all_configuredE [OF assms(1) rt] .
    show ?thesis
    proof (cases "tunnel_dials evs \<noteq> [] \<or> upstream_writes evs \<noteq> [] \<or> contexts evs \<noteq> []")
      case True
      from tunnel_permitted [OF cfg run this] cfg show ?thesis unfolding egress_ok.simps by metis
    qed auto
  qed
  then show ?thesis using assms(2) by (auto simp: run_tunnel_def Let_def split: if_splits option.splits prod.splits)
qed

lemma finish_request_ok:
  assumes "all_configured mc sv" "finish_request i env w sv = (sv', ds)"
  shows "sv_shared sv' = sv_shared sv \<and> (\<forall>d \<in> set ds. egress_ok mc d)"
proof -
  have "egress_ok mc (Did_Request env rt ctx req reply evs)"
    if rt: "deref (sv_shared sv) a = Some rt" and run: "handle env rt ctx req s = (reply, evs, s')" for a rt ctx req s reply evs s'
  proof -
    obtain cfg where cfg: "configured (mc_serde mc) (mc_decoders mc) (mc_regex mc) cfg rt"
      using all_configuredE [OF assms(1) rt] .
    show ?thesis
    proof (cases "dial_events evs \<noteq> [] \<or> sends evs \<noteq> []")
      case True
      from request_permitted [OF cfg run this] cfg show ?thesis unfolding egress_ok.simps by metis
    qed auto
  qed
  then show ?thesis using assms(2) by (auto simp: finish_request_def Let_def split: if_splits option.splits prod.splits)
qed

lemma serve_management_ok:
  assumes "all_configured mc sv" "serve_management mc hy show_f64 reads getenv ho req sv = (sv', ds)"
  shows "all_configured mc sv' \<and> (\<forall>d \<in> set ds. egress_ok mc d)"
proof (cases "sv_management sv")
  case (Some mp)
  obtain mn path where mp: "mp = (mn, path)" by (cases mp)
  let ?rl = "\<lparr>rl_read_config = reads path, rl_env = getenv, rl_serde = mc_serde mc, rl_decoders = mc_decoders mc,
      rl_regex = mc_regex mc, rl_host_env = ho\<rparr>"
  obtain answer shared m where run: "manage hy show_f64 mn ?rl req (sv_shared sv, sv_metrics sv) = (answer, (shared, m))"
    by (metis prod_cases3)
  have "\<exists>cfg. configured (mc_serde mc) (mc_decoders mc) (mc_regex mc) cfg rt" if "deref shared a = Some rt" for a rt
    using reload_configured [OF run that] assms(1) by (auto simp: all_configured_def)
  then show ?thesis
    using assms(2) Some mp run by (auto simp: serve_management_def all_configured_def)
qed (use assms in \<open>simp add: serve_management_def\<close>)

lemma serve_udp_ok:
  assumes "serve_udp upstream datagram sv = (sv', ds)"
  shows "sv_shared sv' = sv_shared sv \<and> (\<forall>d \<in> set ds. egress_ok mc d)"
  using assms
  by (auto simp: serve_udp_def serve_udp_datagram_def decided_def split: option.splits prod.splits dest: respond_sends)

lemma serve_tcp_ok:
  assumes "serve_tcp upstream input sv = (sv', ds)"
  shows "sv_shared sv' = sv_shared sv \<and> (\<forall>d \<in> set ds. egress_ok mc d)"
  using assms
  by (auto simp: serve_tcp_def serve_tcp_stream_def decided_def split: option.splits prod.splits if_splits dest: respond_sends)

lemma operate_ok:
  assumes "all_configured mc sv" "operate mc op sv = (sv', ds)"
  shows "all_configured mc sv' \<and> (\<forall>d \<in> set ds. egress_ok mc d)"
proof (cases op)
  case (Run_Tls i env input)
  then show ?thesis using assms run_tls_ok [of i env input sv sv' ds mc] by (simp add: all_configured_def)
next
  case (Run_Tunnel i env input w)
  then show ?thesis using assms run_tunnel_ok [OF assms(1), of i env input w sv' ds] by (simp add: all_configured_def)
next
  case (Finish_Request i env w)
  then show ?thesis using assms finish_request_ok [OF assms(1), of i env w sv' ds] by (simp add: all_configured_def)
next
  case (Manage hy show_f64 reads getenv ho req)
  then show ?thesis using assms serve_management_ok by (metis operate.simps(9))
next
  case (Dns_Datagram upstream datagram)
  then show ?thesis using assms serve_udp_ok [of upstream datagram sv sv' ds mc] by (simp add: all_configured_def)
next
  case (Dns_Stream upstream input)
  then show ?thesis using assms serve_tcp_ok [of upstream input sv sv' ds mc] by (simp add: all_configured_def)
next
  case (Accept_Error l)
  then show ?thesis using assms by (cases l) (auto simp: all_configured_def)
qed (use assms in \<open>auto simp: all_configured_def serve_http_def serve_https_def serve_tunnel_def take_tunnel_def begin_request_def
    Let_def split: option.splits if_splits\<close>)

lemma operations_ok:
  "all_configured mc sv \<Longrightarrow> operations mc ops sv = (sv', ds) \<Longrightarrow> d \<in> set ds \<Longrightarrow> egress_ok mc d"
proof (induction ops arbitrary: sv ds)
  case (Cons op ops)
  obtain sv1 d1 where one: "operate mc op sv = (sv1, d1)" by force
  obtain sv2 d2 where rest: "operations mc ops sv1 = (sv2, d2)" by force
  have "sv2 = sv'" "ds = d1 @ d2" using Cons.prems(2) one rest by auto
  then show ?case using operate_ok [OF Cons.prems(1) one] Cons.IH [of sv1 d2] rest Cons.prems(3) by auto
qed simp

lemma started_configured:
  assumes "main mc args = Some (evs, exit)" "served version (services evs) = Some sv"
  shows "all_configured mc sv"
  unfolding all_configured_def using served_start(2) [OF assms(2)] started_state [OF assms(1)] by metis

section \<open>Properties\<close>

text \<open>
  C1. Default deny from the file to the socket, for the whole life of a process: start it with any arguments, and let its
  tasks go on in any order, with any clients, upstreams, clocks and files, any number of reloads among them. Whenever a
  request dials or sends, the file that the runtime it took was compiled from loads, each of its allowlists that does not merely
  warn names the host the request is for, the dial is to exactly this host and tries no address in a block
  that the file denies, and what is sent goes over a connection of this dial. The same holds for a tunnel and
  the target its client's handshake named, and what comes out of a tunnel is bound to this target. The DNS server sends
  to its upstream resolver only requests whose first question is for a name in a passthrough zone and without a static record.
\<close>

theorem process_default_deny:
  assumes "main mc args = Some (evs, exit)" "served version (services evs) = Some sv0"
    and "operations mc ops sv0 = (sv, ds)" "d \<in> set ds"
  shows "egress_ok mc d"
  using operations_ok [OF started_configured [OF assms(1,2)] assms(3,4)] .

text \<open>
  Default deny from the file to the socket: take a process that was started from its arguments, any
  management requests it served since, and any runtime a handler took from its state. If serving
  a request with it dials or sends anything, then the runtime comes from a file that loads, every
  allowlist of this file that does not merely warn names the host the request asks for, the connection goes to exactly this
  host unless the tunnel around the request fixed another, and no address tried lies in a block that this file denies.
\<close>

theorem egress_default_deny:
  assumes "main mc args = Some (evs, exit)" "(addr, sv) \<in> set (services evs)"
    and "sv \<in> {Serve_Http st, Serve_Https st, Serve_Tunnel st}"
    and "managed_run (mc_serde mc) (mc_decoders mc) (mc_regex mc) (ho_ca_loader (mc_host_env mc)) mn (st, m) (st', m')"
    and "deref st' a = Some rt"
    and "handle env rt ctx req s = (reply, hevs, s')" "dial_events hevs \<noteq> [] \<or> sends hevs \<noteq> []"
  shows "\<exists>getenv yaml cfg t. load_str (mc_serde mc) (mc_decoders mc) (mc_regex mc) getenv yaml = Inr cfg \<and>
    resolve_target (he_hyper env) req ctx = Inr t \<and> permitted (mc_decoders mc) (cf_transforms cfg) (tg_host t) \<and>
    (case unwrap_or (cn_forced_upstream ctx) (tg_host t, tg_port t) of
       (host, port) \<Rightarrow> dial_events hevs = snd (connect_upstream (he_net env) AllowProof host port (cn_scheme_https ctx) rt)) \<and>
    (\<forall>(ip, port) \<in> set (dialled (dial_events hevs)). not_denied cfg ip)"
proof -
  obtain cfg where cfg: "configured (mc_serde mc) (mc_decoders mc) (mc_regex mc) cfg rt"
    using managed_run_configured [OF assms(4)] started_state [OF assms(1,2)] assms(3,5) by fastforce
  from request_permitted [OF cfg assms(6,7)] obtain t where t: "resolve_target (he_hyper env) req ctx = Inr t"
      "permitted (mc_decoders mc) (cf_transforms cfg) (tg_host t)"
      "dial_events hevs = snd (connect_upstream (he_net env) AllowProof (tg_host t) (tg_port t) (cn_scheme_https ctx) rt)"
      "\<forall>(ip, port) \<in> set (dialled (dial_events hevs)). not_denied cfg ip"
    by metis
  moreover obtain getenv yaml where "load_str (mc_serde mc) (mc_decoders mc) (mc_regex mc) getenv yaml = Inr cfg"
    using cfg by (auto simp: configured_def)
  ultimately show ?thesis
    by (intro exI [of _ getenv] exI [of _ yaml] exI [of _ cfg] exI [of _ t] conjI)
      (simp_all add: resolve_target_dial [OF t(1)])
qed

text \<open>
  The same for tunnels: if the tunnel handler of such a process dials, sends a byte upstream or serves requests out
  of the tunnel, then every allowlist of the file its runtime comes from names the target the client's handshake asked for, and no address
  tried lies in a denied block. Whatever request comes out of the tunnel is then connected, if at
  all, to this target and no other.
\<close>

theorem tunnel_default_deny:
  fixes rt rt' :: "'t proxy_runtime"
  assumes "main mc args = Some (evs, exit)" "(addr, sv) \<in> set (services evs)"
    and "sv \<in> {Serve_Http st, Serve_Https st, Serve_Tunnel st}"
    and "managed_run (mc_serde mc) (mc_decoders mc) (mc_regex mc) (ho_ca_loader (mc_host_env mc)) mn (st, m) (st', m')"
    and "deref st' a = Some rt"
    and "handle_tunnel env rt rt' remote input s = (tevs, s')"
    and "tunnel_dials tevs \<noteq> [] \<or> upstream_writes tevs \<noteq> [] \<or> contexts tevs \<noteq> []"
  shows "\<exists>getenv yaml cfg first target rest es.
    load_str (mc_serde mc) (mc_decoders mc) (mc_regex mc) getenv yaml = Inr cfg \<and>
    tunnel_handshake env first input = (Inr (Some target, rest), es) \<and>
    permitted (mc_decoders mc) (cf_transforms cfg) (ct_host target) \<and>
    (\<forall>(ip, port) \<in> set (dialled (tunnel_dials tevs)). not_denied cfg ip) \<and>
    (\<forall>ctx (henv :: ('t, 'h) http_env) req s1. ctx \<in> set (contexts tevs) \<longrightarrow>
       dial_events (fst (snd (handle henv rt' ctx req s1))) \<in>
         {[], snd (connect_upstream (he_net henv) AllowProof (ct_host target) (ct_port target) (cn_scheme_https ctx) rt')})"
proof -
  obtain cfg where cfg: "configured (mc_serde mc) (mc_decoders mc) (mc_regex mc) cfg rt"
    using managed_run_configured [OF assms(4)] started_state [OF assms(1,2)] assms(3,5) by fastforce
  then obtain getenv yaml where load: "load_str (mc_serde mc) (mc_decoders mc) (mc_regex mc) getenv yaml = Inr cfg"
    by (auto simp: configured_def)
  from tunnel_permitted [OF cfg assms(6,7)] obtain first target rest es where
      h: "tunnel_handshake env first input = (Inr (Some target, rest), es)"
    and perm: "permitted (mc_decoders mc) (cf_transforms cfg) (ct_host target)"
      "\<forall>(ip, port) \<in> set (dialled (tunnel_dials tevs)). not_denied cfg ip"
    and forced: "\<forall>ctx \<in> set (contexts tevs). cn_forced_upstream ctx = Some (ct_host target, ct_port target)"
    by metis
  note perm
  moreover have "dial_events (fst (snd (handle henv rt' ctx req s1))) \<in>
      {[], snd (connect_upstream (he_net henv) AllowProof (ct_host target) (ct_port target) (cn_scheme_https ctx) rt')}"
    if "ctx \<in> set (contexts tevs)" for ctx and henv :: "('t, 'h) http_env" and req s1
    using handle_forced [of ctx "ct_host target" "ct_port target" henv rt' req s1] forced that by blast
  ultimately show ?thesis
    using load h
    by (intro exI [of _ getenv] exI [of _ yaml] exI [of _ cfg] exI [of _ first] exI [of _ target] exI [of _ rest] exI [of _ es] conjI)
      blast+
qed

text \<open>The test process, a request to an allowed host and a SOCKS5 client that asks for the same host.\<close>

definition allowed_request :: http_request where
  "allowed_request = test_request\<lparr>hr_headers := [(''host'', ''api.example.com'')]\<rparr>"

definition empty_world :: "Resolver.world \<times> Resolver.cache" where
  "empty_world = (\<lparr>wd_env = Map.empty, wd_file = (\<lambda>_. Inl ''none''), wd_json = (\<lambda>_. None), wd_now_ms = 0\<rparr>, Map.empty)"

definition example_socks_client :: "arrival list" where
  "example_socks_client =
    [Data [CHR 0x05, CHR 0x01, CHR 0x00],
     Data ([CHR 0x05, CHR 0x01, CHR 0x00, CHR 0x03, CHR 0x0F] @ ''api.example.com'' @ [CHR 0x01, CHR 0xBB] @ ''GET / HTTP/1.1'')]"

definition example_listen :: "(unit, cert_cache, unit) listen_env" where
  "example_listen =
    \<lparr>le_net = test_network, le_client_write = (\<lambda>_. True), le_upstream_write = (\<lambda>_. True), le_copy = (\<lambda>_. None),
     le_client_hello = (\<lambda>_. None), le_leaf = (\<lambda>_ name. Inr \<lparr>sc_leaf = \<lparr>cl_chain = [name], cl_key = ()\<rparr>, sc_alpn = []\<rparr>),
     le_into_stream = (\<lambda>_ input. Some input), le_elapsed = 0\<rparr>"

text \<open>The state the process hands to its HTTP listener.\<close>

definition test_start :: "((unit, string) start_event list \<times> exit_code) option" where
  "test_start = main (test_machine test_raw) [''-config'', ''h.yaml'']"

lemma test_process:
  "case test_start of
     Some (evs, exit) \<Rightarrow>
       (case services evs of
          (addr, Serve_Http st) # _ \<Rightarrow>
            (case deref st 0 of
               Some rt \<Rightarrow>
                 sends (fst (snd (handle test_env rt (http_ctx ''10.0.0.9:1'') allowed_request empty_world))) \<noteq> [] \<and>
                 contexts (fst (handle_tunnel example_listen rt rt ''c'' example_socks_client empty_world)) \<noteq> []
             | None \<Rightarrow> False)
        | _ \<Rightarrow> False)
   | None \<Rightarrow> False"
  by code_simp

lemma test_process_runs:
  obtains evs exit addr st rt where "main (test_machine test_raw) [''-config'', ''h.yaml''] = Some (evs, exit)"
    "(addr, Serve_Http st) \<in> set (services evs)" "deref st 0 = Some rt"
    "sends (fst (snd (handle test_env rt (http_ctx ''10.0.0.9:1'') allowed_request empty_world))) \<noteq> []"
    "contexts (fst (handle_tunnel example_listen rt rt ''c'' example_socks_client empty_world)) \<noteq> []"
  using test_process
  by (fastforce simp: test_start_def split: option.splits prod.splits list.splits service.splits)

lemma test_crates:
  "mc_decoders (test_machine raw) = object_decoders" "mc_regex (test_machine raw) = no_regex" "he_hyper test_env = test_hyper"
  by (simp_all add: test_machine_def test_env_def)

theorem egress_default_deny_witness:
  "\<exists>evs exit addr st rt getenv yaml cfg t.
     main (test_machine test_raw) [''-config'', ''h.yaml''] = Some (evs, exit) \<and> (addr, Serve_Http st) \<in> set (services evs) \<and>
     deref st 0 = Some rt \<and>
     sends (fst (snd (handle test_env rt (http_ctx ''10.0.0.9:1'') allowed_request empty_world))) \<noteq> [] \<and>
     load_str (mc_serde (test_machine test_raw)) object_decoders no_regex getenv yaml = Inr cfg \<and>
     resolve_target test_hyper allowed_request (http_ctx ''10.0.0.9:1'') = Inr t \<and>
     permitted object_decoders (cf_transforms cfg) (tg_host t)"
proof -
  obtain evs exit addr st rt where run: "main (test_machine test_raw) [''-config'', ''h.yaml''] = Some (evs, exit)"
    "(addr, Serve_Http st) \<in> set (services evs)" "deref st 0 = Some rt"
    "sends (fst (snd (handle test_env rt (http_ctx ''10.0.0.9:1'') allowed_request empty_world))) \<noteq> []"
    by (rule test_process_runs)
  obtain reply hevs s' where h: "handle test_env rt (http_ctx ''10.0.0.9:1'') allowed_request empty_world = (reply, hevs, s')"
    by (metis prod_cases3)
  then have "dial_events hevs \<noteq> [] \<or> sends hevs \<noteq> []" using run(4) by simp
  from egress_default_deny [OF run(1,2) insertI1 managed_run.started run(3) h this, unfolded test_crates] run
  show ?thesis by blast
qed

theorem tunnel_default_deny_witness:
  "\<exists>evs exit addr st rt getenv yaml cfg first target rest es.
     main (test_machine test_raw) [''-config'', ''h.yaml''] = Some (evs, exit) \<and> (addr, Serve_Http st) \<in> set (services evs) \<and>
     deref st 0 = Some rt \<and>
     contexts (fst (handle_tunnel example_listen rt rt ''c'' example_socks_client empty_world)) \<noteq> [] \<and>
     load_str (mc_serde (test_machine test_raw)) object_decoders no_regex getenv yaml = Inr cfg \<and>
     tunnel_handshake example_listen first example_socks_client = (Inr (Some target, rest), es) \<and>
     permitted object_decoders (cf_transforms cfg) (ct_host target)"
proof -
  obtain evs exit addr st rt where run: "main (test_machine test_raw) [''-config'', ''h.yaml''] = Some (evs, exit)"
    "(addr, Serve_Http st) \<in> set (services evs)" "deref st 0 = Some rt"
    "contexts (fst (handle_tunnel example_listen rt rt ''c'' example_socks_client empty_world)) \<noteq> []"
    by (rule test_process_runs)
  obtain tevs s' where h: "handle_tunnel example_listen rt rt ''c'' example_socks_client empty_world = (tevs, s')"
    by (cases "handle_tunnel example_listen rt rt ''c'' example_socks_client empty_world")
  then have "tunnel_dials tevs \<noteq> [] \<or> upstream_writes tevs \<noteq> [] \<or> contexts tevs \<noteq> []" using run(4) by simp
  from tunnel_default_deny [OF run(1,2) insertI1 managed_run.started run(3) h this, unfolded test_crates] run
  show ?thesis by blast
qed

text \<open>A run of the test process: a request that began before a reload finishes after it.\<close>

definition test_operations :: "(unit, unit, unit, string, unit) operation list" where
  "test_operations =
    [Accept_Http ''10.0.0.9:1'', Begin_Request 0 allowed_request,
     Manage test_hyper (\<lambda>_. []) (\<lambda>_. Inr ''x'') test_getenv test_ho test_manage_request,
     Finish_Request 0 test_env (fst empty_world), Dns_Datagram (\<lambda>_. Not_Sent) [], Accept_Error L_Http, Accept_Http ''10.0.0.9:2'']"

definition test_served :: "unit server option" where
  "test_served = Option.bind test_start (\<lambda>(evs, exit). served ''0.1.0'' (services evs))"

fun sent_over :: "('t, 'h, 'k) did \<Rightarrow> bool" where
  "sent_over (Did_Request env rt ctx req reply evs) \<longleftrightarrow> sends evs \<noteq> []"
| "sent_over _ \<longleftrightarrow> False"

lemma test_serves:
  "map_option (\<lambda>sv0. case operations (test_machine test_raw) test_operations sv0 of
     (sv, ds) \<Rightarrow> (map sent_over ds, concat (map reload_results ds), length (sv_conns sv), length (sv_requests sv))) test_served =
   Some ([False, True, False], [True], 1, 0)"
  by code_simp

lemma test_serves_run:
  obtains evs exit sv0 sv ds d
  where "main (test_machine test_raw) [''-config'', ''h.yaml''] = Some (evs, exit)" "served ''0.1.0'' (services evs) = Some sv0"
    "operations (test_machine test_raw) test_operations sv0 = (sv, ds)" "d \<in> set ds" "sent_over d"
    "concat (map reload_results ds) = [True]"
proof -
  obtain sv0 where sv0: "test_served = Some sv0" using test_serves by (cases test_served) simp_all
  obtain r where "test_start = Some r" using sv0 by (cases test_start) (simp_all add: test_served_def)
  moreover obtain evs exit where "r = (evs, exit)" by (cases r)
  ultimately have start: "main (test_machine test_raw) [''-config'', ''h.yaml''] = Some (evs, exit)"
    and served: "served ''0.1.0'' (services evs) = Some sv0"
    using sv0 by (simp_all add: test_served_def test_start_def)
  obtain sv ds where run: "operations (test_machine test_raw) test_operations sv0 = (sv, ds)" by force
  have "map sent_over ds = [False, True, False]" "concat (map reload_results ds) = [True]"
    using test_serves unfolding sv0 by (simp_all add: run)
  moreover from this(1) have "True \<in> set (map sent_over ds)" by simp
  then obtain d where "d \<in> set ds" "sent_over d" by auto
  ultimately show thesis using that [OF start served run] by blast
qed

theorem process_default_deny_witness:
  "\<exists>evs exit sv0 sv ds d.
     main (test_machine test_raw) [''-config'', ''h.yaml''] = Some (evs, exit) \<and> served ''0.1.0'' (services evs) = Some sv0 \<and>
     operations (test_machine test_raw) test_operations sv0 = (sv, ds) \<and> d \<in> set ds \<and> sent_over d \<and>
     egress_ok (test_machine test_raw) d"
proof -
  obtain evs exit sv0 sv ds d
  where run: "main (test_machine test_raw) [''-config'', ''h.yaml''] = Some (evs, exit)" "served ''0.1.0'' (services evs) = Some sv0"
    "operations (test_machine test_raw) test_operations sv0 = (sv, ds)" "d \<in> set ds" "sent_over d"
    by (rule test_serves_run)
  from process_default_deny [OF run(1-4)] run show ?thesis by blast
qed

theorem process_metrics_witness:
  "\<exists>evs exit sv0 sv ds.
     main (test_machine test_raw) [''-config'', ''h.yaml''] = Some (evs, exit) \<and> served ''0.1.0'' (services evs) = Some sv0 \<and>
     operations (test_machine test_raw) test_operations sv0 = (sv, ds) \<and>
     map_of (me_reloads (sv_metrics sv)) (label ''result'' (if True then ''ok'' else ''error'')) = Some 1"
proof -
  obtain evs exit sv0 sv ds d
  where run: "main (test_machine test_raw) [''-config'', ''h.yaml''] = Some (evs, exit)" "served ''0.1.0'' (services evs) = Some sv0"
    "operations (test_machine test_raw) test_operations sv0 = (sv, ds)" "concat (map reload_results ds) = [True]"
    by (rule test_serves_run)
  from process_metrics [OF run(2,3), where ok = True, THEN conjunct2, THEN conjunct2, THEN conjunct2]
  have "map_of (me_reloads (sv_metrics sv)) (label ''result'' (if True then ''ok'' else ''error'')) =
      tally (length (filter ((=) True) (concat (map reload_results ds))))"
    .
  then have "map_of (me_reloads (sv_metrics sv)) (label ''result'' (if True then ''ok'' else ''error'')) = Some 1"
    unfolding run(4) by (simp add: tally_def)
  with run show ?thesis by blast
qed

end
